(* ===== verification/Prelude.thy ===== *)
theory Prelude
  imports Main "HOL-Library.Word"
begin

unbundle bit_operations_syntax

section \<open>Prelude: machine integers, digit lists and list lemmas\<close>

text \<open>
  The machine-integer types of the C sources, the value of a little-endian list of
  16-bit digits, and the list facts that several components share.
  \<^item> \<open>u8\<close>, \<open>u16\<close>, \<open>u32\<close>, \<open>u64\<close> are the unsigned C types; a signed C
    type is the same word read through \<^const>\<open>sint\<close>.
  \<^item> \<open>cast8\<close> is the conversion \<^verbatim>\<open>(uint8_t)\<close> of a count that is kept as a
    natural number.
  \<^item> \<open>dval\<close> is the value of a digit list in base 65536; the lemmas collected in
    \<open>digit_simps\<close> relate it to appending, updating and truncating lists.
\<close>

text \<open>The value of a word is read with \<^const>\<open>unat\<close>; it is kept in that form.\<close>

declare of_nat_unat [simp del]

named_theorems digit_simps \<open>value of digit lists\<close>

type_synonym u8 = "8 word"
type_synonym u16 = "16 word"
type_synonym u32 = "32 word"
type_synonym u64 = "64 word"

definition cast8 :: "nat \<Rightarrow> nat" where
  "cast8 n = n mod 256"

lemma cast8_id [simp]: "n < 256 \<Longrightarrow> cast8 n = n"
  by (simp add: cast8_def)

abbreviation base :: nat where
  "base \<equiv> 65536"

subsection \<open>Value of a digit list\<close>

primrec dval :: "u16 list \<Rightarrow> nat" where
  "dval [] = 0"
| "dval (x # xs) = unat x + base * dval xs"

lemma unat_u16_less [simp]: "unat (x :: u16) < base"
  using unsigned_less [of x, where ?'a = nat] by simp

lemma unat_u16_le [simp]: "unat (x :: u16) \<le> 65535"
  using unat_u16_less [of x] by linarith

lemma dval_append [digit_simps]: "dval (xs @ ys) = dval xs + base ^ length xs * dval ys"
  by (induction xs) (auto simp: algebra_simps)

lemma dval_replicate_0 [simp]: "dval (replicate n 0) = 0"
  by (induction n) auto

lemma dval_less: "dval xs < base ^ length xs"
proof (induction xs)
  case (Cons x xs)
  have "unat x + base * dval xs < base + base * dval xs" by simp
  also have "\<dots> = base * Suc (dval xs)" by simp
  also have "\<dots> \<le> base * base ^ length xs" using Cons by (intro mult_le_mono2) simp
  finally show ?case by simp
qed simp

lemma dval_eq_0_iff: "dval xs = 0 \<longleftrightarrow> (\<forall>x \<in> set xs. x = 0)"
  by (induction xs) (auto simp: unat_eq_0)

lemma dval_take_le: "dval (take n xs) \<le> dval xs"
proof -
  have "dval (take n xs @ drop n xs) \<ge> dval (take n xs)"
    unfolding dval_append by simp
  then show ?thesis by simp
qed

lemma dval_take_Suc [digit_simps]:
  "n < length xs \<Longrightarrow> dval (take (Suc n) xs) = dval (take n xs) + base ^ n * unat (xs ! n)"
  by (simp add: take_Suc_conv_app_nth dval_append)

text \<open>A list whose top digit is non-zero has a value of exactly that many digits.\<close>

lemma dval_take_ge:
  assumes "0 < n" "n \<le> length xs" "xs ! (n - 1) \<noteq> 0"
  shows "base ^ (n - 1) \<le> dval (take n xs)"
proof -
  from assms have "0 < unat (xs ! (n - 1))" by (simp add: unat_gt_0)
  then have "base ^ (n - 1) * 1 \<le> base ^ (n - 1) * unat (xs ! (n - 1))"
    by (intro mult_le_mono2) simp
  moreover have "dval (take n xs) = dval (take (n - 1) xs) + base ^ (n - 1) * unat (xs ! (n - 1))"
    using dval_take_Suc [of "n - 1" xs] assms by simp
  ultimately show ?thesis by linarith
qed

lemma dval_take_ge_iff:
  assumes "0 < n" "n \<le> length xs"
  shows "base ^ (n - 1) \<le> dval (take n xs) \<longleftrightarrow> xs ! (n - 1) \<noteq> 0"
proof
  assume ge: "base ^ (n - 1) \<le> dval (take n xs)"
  show "xs ! (n - 1) \<noteq> 0"
  proof
    assume "xs ! (n - 1) = 0"
    then have "dval (take n xs) = dval (take (n - 1) xs)"
      using dval_take_Suc [of "n - 1" xs] assms by simp
    moreover have "dval (take (n - 1) xs) < base ^ (n - 1)"
      using dval_less [of "take (n - 1) xs"] assms by simp
    ultimately show False using ge by simp
  qed
next
  assume "xs ! (n - 1) \<noteq> 0"
  then show "base ^ (n - 1) \<le> dval (take n xs)" using dval_take_ge assms by blast
qed

subsection \<open>Lists\<close>

lemma take_append_drop_self:
  "length w \<le> length h \<Longrightarrow> n \<le> length w \<Longrightarrow> take n (w @ drop (length w) h) = take n w"
  by simp

lemma length_overwrite [simp]:
  "length w \<le> length h \<Longrightarrow> length (w @ drop (length w) h) = length h"
  by simp

text \<open>\<^verbatim>\<open>memmove\<close> and \<^verbatim>\<open>memset\<close> with zero, within one array, in elements.\<close>

definition memmove :: "'a list \<Rightarrow> nat \<Rightarrow> nat \<Rightarrow> nat \<Rightarrow> 'a list" where
  "memmove h dst src n = take dst h @ take n (drop src h) @ drop (dst + n) h"

definition memset0 :: "'a::zero list \<Rightarrow> nat \<Rightarrow> nat \<Rightarrow> 'a list" where
  "memset0 h dst n = take dst h @ replicate n 0 @ drop (dst + n) h"

subsection \<open>Signed reading of words\<close>

lemma uint_eq_sint:
  fixes x :: "'a::len word"
  shows "uint x = (if sint x < 0 then sint x + 2 ^ LENGTH('a) else sint x)"
proof -
  let ?n = "2 ^ LENGTH('a) :: int"
  have "- (2 ^ (LENGTH('a) - 1)) \<le> sint x" "sint x < 2 ^ (LENGTH('a) - 1)"
    by (rule sint_ge, rule sint_lt)
  moreover have "2 ^ (LENGTH('a) - 1) < ?n" by (rule power_strict_increasing) simp_all
  ultimately have b: "- ?n < sint x" "sint x < ?n" by linarith+
  have u: "uint x = sint x mod ?n" unfolding uint_sint [of x] by (simp add: take_bit_eq_mod)
  show ?thesis
  proof (cases "sint x < 0")
    case True
    have "sint x mod ?n = (sint x + ?n) mod ?n" by simp
    also have "\<dots> = sint x + ?n" using True b by (intro mod_pos_pos_trivial) simp_all
    finally show ?thesis using u True by simp
  next
    case False
    then show ?thesis using u b by (simp add: mod_pos_pos_trivial)
  qed
qed

end
