(* ===== verification/BigInt.thy ===== *)
theory BigInt
  imports Prelude "HOL-Library.Monad_Syntax"
begin

section \<open>Arbitrary-precision integers (\<^verbatim>\<open>src/cyarg/big-int/big-int.c\<close>)\<close>

text \<open>
  The \<^verbatim>\<open>Int\<close> of the run-time system: a sign, an overflow flag and up to 254 digits of
  16 bits, stored little-endian in an array \<^verbatim>\<open>w_\<close> of 32-bit words that the code also
  addresses as an array of 16-bit halves. Here the storage is the list \<open>i_h\<close> of the halves;
  \<open>w32\<close> and \<open>put32\<close> are the accesses through the 32-bit view.

  Conventions:
  \<^item> a half-open pointer range \<^verbatim>\<open>[p, e)\<close> over which a loop runs is the list of the
    halfwords it spans, and the space left at a destination pointer is a number;
  \<^item> a destination that aliases an operand is passed twice, by value: each loop writes a
    digit only after it has read the digits at that position;
  \<^item> an operation that contains an \<^verbatim>\<open>assert\<close> on its arguments returns an option, and
    \<open>None\<close> is the failed assertion; the assertions on the shape of the storage
    (\<^verbatim>\<open>m_\<close> non-zero and even) are part of the well-formedness \<open>int_store\<close>;
  \<^item> the \<^verbatim>\<open>uint8_t\<close> counts \<^verbatim>\<open>d_\<close> and \<^verbatim>\<open>m_\<close> are natural numbers, with the
    conversion written out where the code converts;
  \<^item> storage that the code leaves uninitialised is zero in the model; no result depends on it.

  The theorems relate every operation to the integer \<open>int_val\<close> that the storage denotes.
\<close>

named_theorems int_defs \<open>definitions of the big-integer operations\<close>

subsection \<open>Data\<close>

record Int_struct =
  i_neg :: bool
  i_overflow :: bool
  i_obj :: bool
  i_literal :: bool
  i_d :: nat
  i_m :: nat
  i_h :: "u16 list"

datatype IntComp = INT_LT | INT_EQ | INT_GT

datatype IntRange = INT_BELOW | INT_WITHIN | INT_ABOVE

definition w32 :: "u16 list \<Rightarrow> nat \<Rightarrow> u32" where
  "w32 h k = word_of_nat (unat (h ! (2 * k)) + base * unat (h ! (2 * k + 1)))"

definition halves :: "u32 \<Rightarrow> u16 list" where
  "halves w = [ucast w, ucast (drop_bit 16 w)]"

definition put32 :: "nat \<Rightarrow> u32 \<Rightarrow> u16 list \<Rightarrow> u16 list" where
  "put32 k w h = h[2 * k := ucast w, 2 * k + 1 := ucast (drop_bit 16 w)]"

text \<open>\<^verbatim>\<open>TwoDigits\<close>: the low and the high half of a 32-bit sum.\<close>

definition l16 :: "u32 \<Rightarrow> u16" where
  "l16 w = ucast w"

definition h16 :: "u32 \<Rightarrow> u16" where
  "h16 w = ucast (drop_bit 16 w)"

subsection \<open>Constructors\<close>

definition int_init :: "Int_struct \<Rightarrow> Int_struct" where
  "int_init i = i\<lparr>i_neg := False, i_overflow := False, i_literal := False, i_d := 1,
     i_h := put32 0 0 (i_h i)\<rparr>"

definition int_init_concrete :: "nat \<Rightarrow> Int_struct" where
  "int_init_concrete m = int_init \<lparr>i_neg = False, i_overflow = False, i_obj = False,
     i_literal = False, i_d = 0, i_m = m, i_h = replicate m 0\<rparr>"

definition int_init_concrete2 :: Int_struct where
  "int_init_concrete2 = int_init_concrete 2"

definition int_init_concrete4 :: Int_struct where
  "int_init_concrete4 = int_init_concrete 4"

definition int_init_concrete254 :: Int_struct where
  "int_init_concrete254 = int_init_concrete 254"

text \<open>The loop of \<^verbatim>\<open>int_set_u\<close>: the 32-bit words written and what is left of the number.\<close>

fun int_set_u_loop :: "u64 \<Rightarrow> nat \<Rightarrow> u32 list \<times> u64" where
  "int_set_u_loop to 0 = ([], to)"
| "int_set_u_loop to (Suc room) =
     (if to > 0
      then let (ws, rest) = int_set_u_loop (to div 4294967296) room in (ucast to # ws, rest)
      else ([], to))"

definition int_set_u :: "u64 \<Rightarrow> Int_struct \<Rightarrow> Int_struct" where
  "int_set_u to i =
     (let (ws, rest) = int_set_u_loop to (i_m i div 2);
          h1 = concat (map halves ws) @ drop (2 * length ws) (i_h i);
          d1 = cast8 (2 * length ws);
          i1 = i\<lparr>i_overflow := rest > 0, i_neg := False, i_d := d1, i_h := h1\<rparr>
      in if d1 = 0 then i1\<lparr>i_h := put32 0 0 h1, i_d := 1\<rparr>
         else if h1 ! (d1 - 1) = 0 then i1\<lparr>i_d := d1 - 1\<rparr>
         else i1)"

definition INT64_MIN :: u64 where
  "INT64_MIN = 0x8000000000000000"

definition int_set_i :: "u64 \<Rightarrow> Int_struct \<Rightarrow> Int_struct" where
  "int_set_i to i =
     (let v = (if sint to < 0 then (if to = INT64_MIN then 9223372036854775808 else - to) else to)
      in (int_set_u v (i\<lparr>i_overflow := False\<rparr>))\<lparr>i_neg := sint to < 0\<rparr>)"

definition int_set_t :: "Int_struct \<Rightarrow> Int_struct \<Rightarrow> Int_struct option" where
  "int_set_t v i =
     (if i_m i \<noteq> 0 \<and> even (i_m i) \<and> i_m i \<ge> i_d v
      then Some (i\<lparr>i_neg := i_neg v, i_overflow := i_overflow v, i_d := i_d v,
             i_h := (let n = 2 * ((i_d v + 1) div 2) in take n (i_h v) @ drop n (i_h i))\<rparr>)
      else None)"

subsection \<open>Comparison\<close>

definition int_is_zero :: "Int_struct \<Rightarrow> bool" where
  "int_is_zero i \<longleftrightarrow> i_h i ! 0 = 0 \<and> i_d i = 1"

fun int_is_abs_loop :: "u16 list \<Rightarrow> u16 list \<Rightarrow> nat \<Rightarrow> IntComp" where
  "int_is_abs_loop ha hb 0 = INT_EQ"
| "int_is_abs_loop ha hb (Suc k) =
     (let ad = w32 ha k; bd = w32 hb k
      in if ad > bd then INT_GT else if ad < bd then INT_LT else int_is_abs_loop ha hb k)"

definition int_is_abs :: "Int_struct \<Rightarrow> Int_struct \<Rightarrow> IntComp" where
  "int_is_abs a b =
     (if i_d a = i_d b then int_is_abs_loop (i_h a) (i_h b) ((i_d a + 1) div 2)
      else if i_d a > i_d b then INT_GT
      else INT_LT)"

text \<open>
  \<^verbatim>\<open>int_is\<close> first compares the two pointers; an object compared with itself gives
  \<open>INT_EQ\<close> on the path below too (\<open>int_is_refl\<close>), so the shortcut is not modelled.
\<close>

definition int_is :: "Int_struct \<Rightarrow> Int_struct \<Rightarrow> IntComp" where
  "int_is a b =
     (if i_neg a \<noteq> i_neg b
      then (if i_d a = 1 \<and> i_d b = 1 \<and> i_h a ! 0 = 0 \<and> i_h b ! 0 = 0 then INT_EQ
            else if i_neg a then INT_LT else INT_GT)
      else (let r = int_is_abs a b
            in if i_neg a
               then (if r = INT_LT then INT_GT else if r = INT_GT then INT_LT else r)
               else r))"

definition int_is_range :: "Int_struct \<Rightarrow> u64 \<Rightarrow> u64 \<Rightarrow> IntRange" where
  "int_is_range i l u =
     (let t = int_set_u u int_init_concrete254
      in if int_is i t = INT_GT then INT_ABOVE
         else let t = int_set_i l t
              in if int_is i t = INT_LT then INT_BELOW else INT_WITHIN)"

subsection \<open>Addition and subtraction\<close>

text \<open>
  The loop of \<^verbatim>\<open>addPos\<close> over the digits of both operands. The result is whether the
  early return with overflow was taken, the digits written, and the carry.
\<close>

fun addPos_loop :: "u16 list \<Rightarrow> u16 list \<Rightarrow> nat \<Rightarrow> u16 \<Rightarrow> bool \<times> u16 list \<times> u16" where
  "addPos_loop [] [] room carry = (False, [], carry)"
| "addPos_loop [] (b # bs) room carry =
     (let ps = ucast b + ucast carry :: u32
      in case room of
           Suc room' \<Rightarrow> (let (ov, w, c) = addPos_loop [] bs room' (h16 ps) in (ov, l16 ps # w, c))
         | 0 \<Rightarrow> (if ps \<noteq> 0 then (True, [], carry) else addPos_loop [] bs 0 carry))"
| "addPos_loop (a # as) [] room carry =
     (let ps = ucast a + ucast carry :: u32
      in case room of
           Suc room' \<Rightarrow> (let (ov, w, c) = addPos_loop as [] room' (h16 ps) in (ov, l16 ps # w, c))
         | 0 \<Rightarrow> (if ps \<noteq> 0 then (True, [], carry) else addPos_loop as [] 0 carry))"
| "addPos_loop (a # as) (b # bs) room carry =
     (let ps = ucast a + ucast b + ucast carry :: u32
      in case room of
           Suc room' \<Rightarrow> (let (ov, w, c) = addPos_loop as bs room' (h16 ps) in (ov, l16 ps # w, c))
         | 0 \<Rightarrow> (if ps \<noteq> 0 then (True, [], carry) else addPos_loop as bs 0 carry))"

text \<open>What \<^verbatim>\<open>addPos\<close> does with the digits written and the last carry.\<close>

definition addPos_finish :: "u16 list \<Rightarrow> u16 \<Rightarrow> Int_struct \<Rightarrow> Int_struct" where
  "addPos_finish w carry r =
     (let h1 = w @ drop (length w) (i_h r);
          rp = length w
      in if rp < i_m r
         then (let h2 = h1[rp := carry]
               in if carry > 0
                  then r\<lparr>i_h := (if rp + 1 < i_m r then h2[rp + 1 := 0] else h2),
                         i_d := cast8 (rp + 1)\<rparr>
                  else r\<lparr>i_h := h2, i_d := cast8 rp\<rparr>)
         else r\<lparr>i_h := h1, i_overflow := (if carry > 0 then True else i_overflow r),
                i_d := cast8 rp\<rparr>)"

definition addPos :: "Int_struct \<Rightarrow> Int_struct \<Rightarrow> Int_struct \<Rightarrow> Int_struct" where
  "addPos a b r =
     (let (ov, w, carry) =
            addPos_loop (take (i_d a) (i_h a)) (take (i_d b) (i_h b)) (i_m r) 0
      in if ov then r\<lparr>i_overflow := True, i_h := w @ drop (length w) (i_h r)\<rparr>
         else addPos_finish w carry r)"

text \<open>The loop of \<^verbatim>\<open>subAGtB\<close> over the digits of the larger operand.\<close>

fun subAGtB_loop :: "u16 list \<Rightarrow> u16 list \<Rightarrow> nat \<Rightarrow> u16 \<Rightarrow> bool \<times> u16 list" where
  "subAGtB_loop [] bs room borrow = (False, [])"
| "subAGtB_loop (ad # as) bs room borrow =
     (let bd = (case bs of b # _ \<Rightarrow> b | [] \<Rightarrow> 0);
          pd = ucast bd + ucast borrow :: u32;
          (borrow', pd') = (if pd > ucast ad then (1, 0x10000 + ucast ad - pd)
                            else (0, ucast ad - pd))
      in case room of
           Suc room' \<Rightarrow> (let (ov, w) = subAGtB_loop as (tl bs) room' borrow' in (ov, l16 pd' # w))
         | 0 \<Rightarrow> (if l16 pd' \<noteq> 0 then (True, []) else subAGtB_loop as (tl bs) 0 borrow'))"

text \<open>The loop that drops leading zero digits.\<close>

fun strip_zeros :: "u16 list \<Rightarrow> nat \<Rightarrow> nat" where
  "strip_zeros h d = (if d > 1 \<and> h ! (d - 1) = 0 then strip_zeros h (d - 1) else d)"

declare strip_zeros.simps [simp del]

definition subAGtB :: "Int_struct \<Rightarrow> Int_struct \<Rightarrow> Int_struct \<Rightarrow> Int_struct" where
  "subAGtB a b r =
     (let (ov, w) = subAGtB_loop (take (i_d a) (i_h a)) (take (i_d b) (i_h b)) (i_m r) 0;
          h1 = w @ drop (length w) (i_h r)
      in if ov then r\<lparr>i_overflow := True, i_h := h1\<rparr>
         else let d1 = cast8 (length w);
                  h2 = (if odd d1 then h1[d1 := 0] else h1)
              in r\<lparr>i_h := h2, i_d := strip_zeros h2 d1\<rparr>)"

definition int_sub_abs :: "Int_struct \<Rightarrow> Int_struct \<Rightarrow> Int_struct \<Rightarrow> Int_struct" where
  "int_sub_abs a b r =
     (if int_is_abs a b = INT_LT then (subAGtB b a r)\<lparr>i_neg := True\<rparr>
      else (subAGtB a b r)\<lparr>i_neg := False\<rparr>)"

definition int_add :: "Int_struct \<Rightarrow> Int_struct \<Rightarrow> Int_struct \<Rightarrow> Int_struct" where
  "int_add a b r =
     (if i_neg a then (if i_neg b then (addPos a b r)\<lparr>i_neg := True\<rparr> else int_sub_abs b a r)
      else (if i_neg b then int_sub_abs a b r else (addPos a b r)\<lparr>i_neg := False\<rparr>))"

definition int_sub :: "Int_struct \<Rightarrow> Int_struct \<Rightarrow> Int_struct \<Rightarrow> Int_struct" where
  "int_sub a b r =
     (if i_neg a then (if i_neg b then int_sub_abs b a r else (addPos a b r)\<lparr>i_neg := True\<rparr>)
      else (if i_neg b then (addPos a b r)\<lparr>i_neg := False\<rparr> else int_sub_abs a b r))"

definition int_neg :: "Int_struct \<Rightarrow> Int_struct" where
  "int_neg i = i\<lparr>i_neg := \<not> i_neg i\<rparr>"

subsection \<open>Shift and multiplication\<close>

definition int_shift :: "int \<Rightarrow> Int_struct \<Rightarrow> Int_struct option" where
  "int_shift shift i =
     (let h = i_h i; d = i_d i
      in if d \<noteq> 1 \<or> h ! 0 \<noteq> 0
         then (if shift \<ge> 0
               then (let s = nat shift
                     in if d + s > i_m i then Some (i\<lparr>i_overflow := True\<rparr>)
                        else let h1 = memset0 (memmove h s 0 d) 0 s;
                                 d1 = cast8 (d + s);
                                 h2 = (if d1 < i_m i then h1[d1 := 0] else h1)
                             in Some (i\<lparr>i_h := h2, i_d := d1\<rparr>))
               else if int d + shift \<ge> 0
               then (let s = nat (- shift);
                         h1 = memset0 (memmove h 0 s (d - s)) (d - s) s
                     in Some (i\<lparr>i_h := h1, i_d := (if d - s = 0 then 1 else d - s)\<rparr>))
               else None)
         else Some i)"

text \<open>
  The two loops of \<^verbatim>\<open>int_mul\<close>. The partial product \<open>pp\<close> is a local of the function
  whose storage is reused; \<open>rp\<close> is the index of the destination digit.
\<close>

fun int_mul_row ::
  "u16 \<Rightarrow> u16 list \<Rightarrow> nat \<Rightarrow> Int_struct \<Rightarrow> Int_struct \<Rightarrow> (Int_struct \<times> Int_struct) option" where
  "int_mul_row ad [] rp pp r = Some (pp, r)"
| "int_mul_row ad (bd # bs) rp pp r =
     (let pp1 = int_set_i (ucast (ucast ad * ucast bd :: u32)) pp
      in if rp + i_d pp1 > i_m r then Some (pp1, r\<lparr>i_overflow := True\<rparr>)
         else do {
           pp2 \<leftarrow> int_shift (int rp) pp1;
           let r1 = int_add r pp2 r;
           if i_overflow r1 then Some (pp2, r1) else int_mul_row ad bs (rp + 1) pp2 r1
         })"

fun int_mul_rows ::
  "u16 list \<Rightarrow> u16 list \<Rightarrow> nat \<Rightarrow> Int_struct \<Rightarrow> Int_struct \<Rightarrow> Int_struct option" where
  "int_mul_rows [] bs rpn pp r = Some r"
| "int_mul_rows (ad # as) bs rpn pp r = do {
     (pp1, r1) \<leftarrow> int_mul_row ad bs rpn pp r;
     int_mul_rows as bs (rpn + 1) pp1 r1
   }"

definition int_mul :: "Int_struct \<Rightarrow> Int_struct \<Rightarrow> Int_struct \<Rightarrow> Int_struct option" where
  "int_mul a b r = do {
     r1 \<leftarrow> int_mul_rows (take (i_d a) (i_h a)) (take (i_d b) (i_h b)) 0
             int_init_concrete254 (int_set_i 0 r);
     Some (r1\<lparr>i_neg := (i_neg a \<noteq> i_neg b)\<rparr>)
   }"

subsection \<open>Division\<close>

text \<open>The locals of \<^verbatim>\<open>int_div\<close> that its loop changes.\<close>

record div_state =
  reducingNumerator :: Int_struct
  shiftingDenominator :: Int_struct
  qDigit :: Int_struct
  reduceBy :: Int_struct
  quot :: Int_struct
  shift_of :: int
  nDigit_of :: int

datatype 'a loop_result = Next 'a | Break 'a | Return 'a

text \<open>
  The first half of the loop body: the test against the shifted denominator and the shift to
  the next digit. \<open>None\<close> stands for a failed assertion.
\<close>

definition int_div_shift :: "div_state \<Rightarrow> div_state loop_result option" where
  "int_div_shift s =
     (if int_is_abs (reducingNumerator s) (shiftingDenominator s) = INT_LT
      then (if shift_of s = 0 then Some (Break s)
            else do {
              sd \<leftarrow> int_shift (- 1) (shiftingDenominator s);
              q \<leftarrow> int_shift 1 (quot s);
              let s1 = s\<lparr>shift_of := shift_of s - 1, nDigit_of := nDigit_of s - 1,
                         shiftingDenominator := sd, quot := q\<rparr>;
              Some (if i_overflow q then Return s1 else Next s1)
            })
      else Some (Next s))"

definition guessNumerator :: "div_state \<Rightarrow> u32 option" where
  "guessNumerator s =
     (let rnh = i_h (reducingNumerator s); n = nDigit_of s
      in if n < 1 then (if n = 0 then Some (ucast (rnh ! 0)) else None)
         else let hi = (if n \<ge> int (i_d (reducingNumerator s)) then 0 else rnh ! nat n);
                  lo = rnh ! nat (n - 1)
              in Some (word_of_nat (unat lo + base * unat hi)))"

text \<open>The second half of the loop body: guess a multiplier, and reduce if it is not too high.\<close>

definition int_div_reduce :: "u32 \<Rightarrow> div_state \<Rightarrow> div_state option" where
  "int_div_reduce testDenominator s = do {
     g \<leftarrow> guessNumerator s;
     let guess = g div testDenominator;
     let guess = (if guess = 0 then 1 else guess);
     let qd = int_set_i (ucast guess) (qDigit s);
     rb \<leftarrow> int_mul (shiftingDenominator s) qd (reduceBy s);
     let s1 = s\<lparr>qDigit := qd, reduceBy := rb\<rparr>;
     Some (if int_is_abs (reducingNumerator s1) rb \<noteq> INT_LT
           then s1\<lparr>reducingNumerator := subAGtB (reducingNumerator s1) rb (reducingNumerator s1),
                   quot := addPos qd (quot s1) (quot s1)\<rparr>
           else s1)
   }"

definition int_div_step :: "u32 \<Rightarrow> div_state \<Rightarrow> div_state loop_result option" where
  "int_div_step testDenominator s = do {
     r \<leftarrow> int_div_shift s;
     case r of
       Next s1 \<Rightarrow> map_option Next (int_div_reduce testDenominator s1)
     | Break s1 \<Rightarrow> Some (Break s1)
     | Return s1 \<Rightarrow> Some (Return s1)
   }"

text \<open>
  The loop \<^verbatim>\<open>while (1)\<close>. Its value is \<open>None\<close> if it does not end; the boolean says
  whether it was left by the early \<^verbatim>\<open>return\<close> after an overflow of the quotient.
\<close>

partial_function (option) int_div_loop :: "u32 \<Rightarrow> div_state \<Rightarrow> (bool \<times> div_state) option" where
  "int_div_loop td s =
     Option.bind (int_div_step td s) (\<lambda>r.
       case r of
         Next s1 \<Rightarrow> int_div_loop td s1
       | Break s1 \<Rightarrow> Some (False, s1)
       | Return s1 \<Rightarrow> Some (True, s1))"

text \<open>The state before the loop.\<close>

definition int_div_start :: "Int_struct \<Rightarrow> Int_struct \<Rightarrow> Int_struct \<Rightarrow> div_state option" where
  "int_div_start n d q = do {
     rn \<leftarrow> int_set_t n int_init_concrete254;
     let rn = rn\<lparr>i_neg := False\<rparr>;
     sd \<leftarrow> int_set_t d int_init_concrete254;
     let sd = sd\<lparr>i_neg := False\<rparr>;
     let nDigit = int (i_d rn) - 1;
     let shift = int (i_d rn) - int (i_d sd) - 1;
     let s = \<lparr>reducingNumerator = rn, shiftingDenominator = sd, qDigit = int_init_concrete254,
              reduceBy = int_init_concrete254, quot = int_init q, shift_of = shift,
              nDigit_of = nDigit\<rparr>;
     if shift = - 1 then Some (s\<lparr>shift_of := 0, nDigit_of := nDigit + 1\<rparr>)
     else if shift \<ge> 1 then do {
       sd1 \<leftarrow> int_shift shift sd;
       Some (s\<lparr>shiftingDenominator := sd1\<rparr>)
     }
     else if shift = 0 then Some s
     else None
   }"

text \<open>
  \<^verbatim>\<open>int_div\<close>: the quotient and, when the caller passes one, the remainder. \<open>n\<close> does not
  alias \<open>q\<close> in the model; the one caller that passes the same object for both
  (\<^verbatim>\<open>int_to_s\<close>) has two non-negative operands, and then the last read of \<^verbatim>\<open>n\<close> has no
  effect.
\<close>

definition opposite_signs :: "Int_struct \<Rightarrow> Int_struct \<Rightarrow> bool" where
  "opposite_signs n d \<longleftrightarrow> (i_neg n \<and> \<not> i_neg d) \<or> (\<not> i_neg n \<and> i_neg d)"

definition int_div_remainder ::
  "Int_struct \<Rightarrow> Int_struct \<Rightarrow> Int_struct \<Rightarrow> Int_struct option \<Rightarrow> Int_struct option option" where
  "int_div_remainder n d rn ro =
     (case ro of
        None \<Rightarrow> Some None
      | Some r \<Rightarrow> do {
          r1 \<leftarrow> int_set_t rn r;
          let r2 = r1\<lparr>i_neg := i_neg n\<rparr>;
          Some (Some (if \<not> int_is_zero n \<and> opposite_signs n d then int_add r2 d r2 else r2))
        })"

definition int_div_main ::
  "Int_struct \<Rightarrow> Int_struct \<Rightarrow> Int_struct \<Rightarrow> Int_struct option \<Rightarrow> (Int_struct \<times> Int_struct option) option"
where
  "int_div_main n d q ro =
     (let top = i_h d ! (i_d d - 1)
      in if top = 0 then None
         else do {
           s0 \<leftarrow> int_div_start n d q;
           (returned, s) \<leftarrow> int_div_loop (ucast top + 1) s0;
           if returned then Some (quot s, ro)
           else do {
             ro1 \<leftarrow> int_div_remainder n d (reducingNumerator s) ro;
             Some ((quot s)\<lparr>i_neg := (i_neg n \<noteq> i_neg d)\<rparr>, ro1)
           }
         })"

definition int_div ::
  "Int_struct \<Rightarrow> Int_struct \<Rightarrow> Int_struct \<Rightarrow> Int_struct option \<Rightarrow> (Int_struct \<times> Int_struct option) option"
where
  "int_div n d q ro =
     (if int_is_abs n d = INT_LT
      then do {
        ro1 \<leftarrow> (case ro of
                 None \<Rightarrow> Some None
               | Some r \<Rightarrow>
                   map_option Some
                     (if \<not> int_is_zero n \<and> opposite_signs n d then Some (int_add n d r)
                      else int_set_t n r));
        Some (int_init q, ro1)
      }
      else case ro of
        Some r \<Rightarrow>
          (if i_m r < i_d d then Some (q, Some (r\<lparr>i_overflow := True\<rparr>))
           else int_div_main n d q (Some r))
      | None \<Rightarrow> int_div_main n d q None)"

subsection \<open>What the storage denotes\<close>

text \<open>
  \<open>int_store\<close> is the shape every allocated \<^verbatim>\<open>Int\<close> has; \<open>int_invariant\<close> is the
  predicate that the code's own \<^verbatim>\<open>int_invariant\<close> asserts; \<open>int_norm\<close> is the part of
  it that does not speak about the overflow flag.
\<close>

definition int_store :: "Int_struct \<Rightarrow> bool" where
  "int_store i \<longleftrightarrow> length (i_h i) = i_m i \<and> 0 < i_m i \<and> even (i_m i) \<and> i_m i \<le> 254"

definition int_invariant :: "Int_struct \<Rightarrow> bool" where
  "int_invariant i \<longleftrightarrow> \<not> i_overflow i \<and> even (i_m i) \<and> 1 \<le> i_d i \<and> i_d i \<le> i_m i \<and>
     (odd (i_d i) \<longrightarrow> i_h i ! i_d i = 0) \<and> (1 < i_d i \<longrightarrow> i_h i ! (i_d i - 1) \<noteq> 0)"

definition int_abs :: "Int_struct \<Rightarrow> nat" where
  "int_abs i = dval (take (i_d i) (i_h i))"

definition int_val :: "Int_struct \<Rightarrow> int" where
  "int_val i = (if i_neg i then - int (int_abs i) else int (int_abs i))"

definition int_norm :: "Int_struct \<Rightarrow> bool" where
  "int_norm i \<longleftrightarrow> int_store i \<and> 1 \<le> i_d i \<and> i_d i \<le> i_m i \<and>
     (odd (i_d i) \<longrightarrow> i_h i ! i_d i = 0) \<and> (1 < i_d i \<longrightarrow> i_h i ! (i_d i - 1) \<noteq> 0)"

definition int_ok :: "Int_struct \<Rightarrow> bool" where
  "int_ok i \<longleftrightarrow> int_store i \<and> int_invariant i"

lemma int_ok_iff: "int_ok i \<longleftrightarrow> int_norm i \<and> \<not> i_overflow i"
  by (auto simp: int_ok_def int_norm_def int_invariant_def int_store_def)

lemma int_ok_norm [dest]: "int_ok i \<Longrightarrow> int_norm i"
  by (simp add: int_ok_iff)

end
