(* ===== verification/BigInt_Add.thy ===== *)
theory BigInt_Add
  imports BigInt
begin

section \<open>Big integers: addition, subtraction and comparison\<close>

text \<open>
  Correctness of the digit loops of \<^verbatim>\<open>addPos\<close>, \<^verbatim>\<open>subAGtB\<close> and
  \<^verbatim>\<open>int_is_abs\<close>, and from them of \<^verbatim>\<open>int_add\<close>, \<^verbatim>\<open>int_sub\<close>,
  \<^verbatim>\<open>int_is\<close> and the comparison with a range: the results denote the sum, the
  difference and the order of the operands, and the overflow flag is raised exactly when
  the result has more digits than the destination.
\<close>

subsection \<open>Halves of machine words\<close>

lemma unat_ucast_16_32 [simp]: "unat (ucast (x::u16) :: u32) = unat x"
  by (simp add: unsigned_ucast_eq take_bit_nat_eq_self order_less_trans [OF unat_u16_less])
lemma unat_l16 [digit_simps]: "unat (l16 w) = unat w mod base"
  by (simp add: l16_def unsigned_ucast_eq take_bit_eq_mod)
lemma unat_h16 [digit_simps]: "unat (h16 w) = unat w div base"
proof -
  have "unat w div base < base" using unsigned_less [of w, where ?'a=nat] by (simp add: less_mult_imp_div_less)
  then show ?thesis
    by (simp add: h16_def unsigned_ucast_eq unsigned_drop_bit_eq take_bit_eq_mod drop_bit_eq_div unat_div)
qed

lemma add3_u32: "unat (ucast (a::u16) + ucast (b::u16) + ucast (c::u16) :: u32) = unat a + unat b + unat c"
proof -
  have "unat a + unat b + unat c \<le> 65535 + 65535 + 65535"
    by (intro add_mono) simp_all
  then show ?thesis by (simp add: unat_word_ariths)
qed

lemma add2_u32: "unat (ucast (a::u16) + ucast (b::u16) :: u32) = unat a + unat b"
  using add3_u32 [of a b 0] by simp

lemma u32_split: "unat w = unat (l16 w) + base * unat (h16 w)"
  by (simp add: digit_simps)

subsection \<open>The digit loop of the addition\<close>

definition hd0 :: "u16 list \<Rightarrow> u16" where
  "hd0 xs = (case xs of [] \<Rightarrow> 0 | x # _ \<Rightarrow> x)"

lemma hd0_simps [simp]: "hd0 [] = 0" "hd0 (x # xs) = x"
  by (simp_all add: hd0_def)

lemma dval_hd0_tl: "dval xs = unat (hd0 xs) + base * dval (tl xs)"
  by (cases xs) auto

lemma addPos_loop_unfold:
  assumes "as \<noteq> [] \<or> bs \<noteq> []"
  shows "addPos_loop as bs room carry =
     (let ps = ucast (hd0 as) + ucast (hd0 bs) + ucast carry :: u32
      in case room of
           Suc room' \<Rightarrow> (let (ov, w, c) = addPos_loop (tl as) (tl bs) room' (h16 ps)
                         in (ov, l16 ps # w, c))
         | 0 \<Rightarrow> (if ps \<noteq> 0 then (True, [], carry) else addPos_loop (tl as) (tl bs) 0 carry))"
  using assms by (cases as; cases bs) (simp_all add: Let_def split: nat.split)

lemma addPos_loop_spec:
  assumes "addPos_loop as bs room c = (ov, w, c')"
  shows "length w \<le> room \<and>
    (if ov then base ^ room \<le> dval as + dval bs + unat c
     else length w = min room (max (length as) (length bs)) \<and> (room = 0 \<longrightarrow> c' = c) \<and>
          dval w + base ^ length w * unat c' = dval as + dval bs + unat c)"
  using assms
proof (induction "length as + length bs" arbitrary: as bs room c w rule: less_induct)
  case less
  show ?case
  proof (cases "as = [] \<and> bs = []")
    case True
    with less.prems show ?thesis by simp
  next
    case False
    define ps :: u32 where "ps = ucast (hd0 as) + ucast (hd0 bs) + ucast c"
    have len: "length (tl as) + length (tl bs) < length as + length bs"
      using False by (cases as; cases bs) simp_all
    have max_len: "max (length as) (length bs) = Suc (max (length (tl as)) (length (tl bs)))"
      using False by (cases as; cases bs) simp_all
    have ps: "unat ps = unat (hd0 as) + unat (hd0 bs) + unat c"
      unfolding ps_def by (rule add3_u32)
    have total: "dval as + dval bs + unat c = unat ps + base * (dval (tl as) + dval (tl bs))"
      unfolding ps by (subst dval_hd0_tl [of as], subst dval_hd0_tl [of bs]) (simp add: algebra_simps)
    show ?thesis
    proof (cases room)
      case 0
      show ?thesis
      proof (cases "ps = 0")
        case True
        with less.prems False 0 have "addPos_loop (tl as) (tl bs) 0 c = (ov, w, c')"
          by (simp add: addPos_loop_unfold ps_def)
        note IH = less.hyps [OF len this]
        from True ps have "unat c = 0" by simp
        with IH total True 0 show ?thesis by (auto split: if_splits)
      next
        case neq: False
        with less.prems False 0 have "ov" "w = []"
          by (auto simp: addPos_loop_unfold ps_def [symmetric] Let_def)
        moreover have "0 < unat ps" using neq by (simp add: unat_gt_0)
        ultimately show ?thesis using total 0 by simp
      qed
    next
      case (Suc room')
      obtain ov' w' c'' where rec: "addPos_loop (tl as) (tl bs) room' (h16 ps) = (ov', w', c'')"
        by (metis prod.exhaust)
      with less.prems False Suc have eq: "ov' = ov" "w = l16 ps # w'" "c'' = c'"
        by (auto simp: addPos_loop_unfold ps_def [symmetric] Let_def)
      note IH = less.hyps [OF len rec [unfolded eq]]
      have tot: "dval as + dval bs + unat c =
          unat (l16 ps) + base * (dval (tl as) + dval (tl bs) + unat (h16 ps))"
        unfolding total by (subst u32_split) (simp add: algebra_simps)
      show ?thesis
      proof (cases ov)
        case True
        with IH have le: "base ^ room' \<le> dval (tl as) + dval (tl bs) + unat (h16 ps)" by simp
        have "base * base ^ room' \<le> base * (dval (tl as) + dval (tl bs) + unat (h16 ps))"
          using le by (rule mult_le_mono2)
        then show ?thesis using IH True unfolding tot by (simp add: eq Suc)
      next
        case ok: False
        then have "dval w' + base ^ length w' * unat c' = dval (tl as) + dval (tl bs) + unat (h16 ps)"
          using IH by metis
        then have v: "dval w + base ^ length w * unat c' = dval as + dval bs + unat c"
          unfolding tot by (simp add: eq algebra_simps)
        have l: "length w \<le> room" "length w = min room (max (length as) (length bs))"
          using IH ok max_len by (simp_all add: eq Suc)
        then show ?thesis using v ok Suc by simp
      qed
    qed
  qed
qed
subsection \<open>The digit loop of the subtraction\<close>

fun sub_digits :: "u16 list \<Rightarrow> u16 list \<Rightarrow> u16 \<Rightarrow> u16 list" where
  "sub_digits [] bs bw = []"
| "sub_digits (a # as) bs bw =
     word_of_nat ((base + unat a - (unat (hd0 bs) + unat bw)) mod base) #
     sub_digits as (tl bs) (if unat a < unat (hd0 bs) + unat bw then 1 else 0)"

lemma length_sub_digits [simp]: "length (sub_digits as bs bw) = length as"
  by (induction as bs bw rule: sub_digits.induct) auto

lemma mod_base_sub:
  fixes a b c :: nat
  assumes "a < base" "b < base" "c \<le> 1"
  shows "(base + a - (b + c)) mod base = (if a < b + c then base + a - (b + c) else a - (b + c))"
proof (cases "a < b + c")
  case True
  then have "base + a - (b + c) < base" using assms by linarith
  then show ?thesis using True by simp
next
  case False
  then have "base + a - (b + c) = base + (a - (b + c))" by linarith
  moreover have "(base + (a - (b + c))) mod base = a - (b + c)" using assms by simp
  ultimately show ?thesis using False by simp
qed

lemma sub_step:
  fixes a b bw :: u16
  assumes "unat bw \<le> 1"
  shows "(let pd = ucast b + ucast bw :: u32
          in if pd > ucast a then (1, 0x10000 + ucast a - pd) else (0, ucast a - pd)) =
         (if unat a < unat b + unat bw then 1 else 0 :: u16, word_of_nat ((base + unat a - (unat b + unat bw)) mod base) :: u32)"
proof -
  let ?pd = "ucast b + ucast bw :: u32"
  have pd: "unat ?pd = unat b + unat bw" by (rule add2_u32)
  have "unat a < base" "unat b < base" by simp_all
  show ?thesis
  proof (cases "unat a < unat b + unat bw")
    case True
    have n: "unat (0x10000 + ucast a :: u32) = base + unat a"
      using \<open>unat a < base\<close> by (simp add: unat_word_ariths del: unat_u16_less)
    have "?pd \<le> 0x10000 + ucast a"
      unfolding word_le_nat_alt n pd using \<open>unat b < base\<close> assms by linarith
    then have "unat (0x10000 + ucast a - ?pd) = base + unat a - (unat b + unat bw)"
      by (simp add: unat_sub n pd)
    also have "\<dots> = (base + unat a - (unat b + unat bw)) mod base"
      using True mod_base_sub [OF \<open>unat a < base\<close> \<open>unat b < base\<close> assms] by simp
    finally have "0x10000 + ucast a - ?pd = word_of_nat ((base + unat a - (unat b + unat bw)) mod base)"
      by (metis of_nat_unat ucast_id)
    then show ?thesis using True by (simp add: Let_def word_less_nat_alt pd)
  next
    case False
    then have "?pd \<le> ucast a" by (simp add: word_le_nat_alt pd)
    then have "unat (ucast a - ?pd) = unat a - (unat b + unat bw)"
      by (simp add: unat_sub pd)
    also have "\<dots> = (base + unat a - (unat b + unat bw)) mod base"
      using False mod_base_sub [OF \<open>unat a < base\<close> \<open>unat b < base\<close> assms] by simp
    finally have "ucast a - ?pd = word_of_nat ((base + unat a - (unat b + unat bw)) mod base)"
      by (metis of_nat_unat ucast_id)
    then show ?thesis using False by (simp add: Let_def word_less_nat_alt pd)
  qed
qed

lemma l16_of_nat: "l16 (word_of_nat n) = word_of_nat n"
  by (simp add: word_unat_eq_iff unat_l16 unat_of_nat mod_mod_cancel)

lemma subAGtB_loop_unfold:
  assumes "unat borrow \<le> 1"
  shows "subAGtB_loop (a # as) bs room borrow =
   (let d = hd (sub_digits (a # as) bs borrow);
        borrow' = (if unat a < unat (hd0 bs) + unat borrow then 1 else 0)
    in case room of
           Suc room' \<Rightarrow> (let (ov, w) = subAGtB_loop as (tl bs) room' borrow' in (ov, d # w))
         | 0 \<Rightarrow> (if d \<noteq> 0 then (True, []) else subAGtB_loop as (tl bs) 0 borrow'))"
  using sub_step [OF assms, of "hd0 bs" a]
  by (simp add: Let_def l16_of_nat hd0_def [symmetric] del: word_of_nat_eq_0_iff of_nat_mod split: nat.split)

lemma subAGtB_loop_spec:
  "unat borrow \<le> 1 \<Longrightarrow> subAGtB_loop as bs room borrow = (ov, w) \<Longrightarrow>
    w = take room (sub_digits as bs borrow) \<and>
    (ov \<longleftrightarrow> dval (drop room (sub_digits as bs borrow)) \<noteq> 0)"
proof (induction as arbitrary: bs room borrow ov w)
  case Nil
  then show ?case by simp
next
  case (Cons a as)
  define bw :: u16 where "bw = (if unat a < unat (hd0 bs) + unat borrow then 1 else 0)"
  have bw: "unat bw \<le> 1" by (simp add: bw_def)
  obtain d where d: "sub_digits (a # as) bs borrow = d # sub_digits as (tl bs) bw"
    by (simp add: bw_def)
  show ?case
  proof (cases room)
    case 0
    show ?thesis
    proof (cases "d = 0")
      case True
      with Cons.prems 0 have "subAGtB_loop as (tl bs) 0 bw = (ov, w)"
        unfolding subAGtB_loop_unfold [OF Cons.prems(1)] d by (simp add: bw_def)
      from Cons.IH [OF bw this] show ?thesis using True unfolding d by (simp add: 0)
    next
      case False
      with Cons.prems 0 show ?thesis
        unfolding subAGtB_loop_unfold [OF Cons.prems(1)] d by (auto simp: unat_eq_0)
    qed
  next
    case (Suc room')
    obtain ov' w' where rec: "subAGtB_loop as (tl bs) room' bw = (ov', w')" by fastforce
    with Cons.prems Suc have "ov = ov'" "w = d # w'"
      unfolding subAGtB_loop_unfold [OF Cons.prems(1)] d by (auto simp: bw_def [symmetric] Let_def)
    with Cons.IH [OF bw rec] show ?thesis unfolding d by (simp add: Suc)
  qed
qed

lemma dval_sub_digits:
  assumes "unat bw \<le> 1" "length bs \<le> length as"
  obtains bf where "bf \<le> 1" "dval (sub_digits as bs bw) + dval bs + unat bw = dval as + base ^ length as * bf"
  using assms
proof (induction as arbitrary: bs bw thesis)
  case Nil
  then show ?case by (metis add_0 dval.simps(1) list.size(3) le_zero_eq length_0_conv nat_mult_1 power_0 sub_digits.simps(1))
next
  case (Cons a as)
  define b where "b = unat (hd0 bs)"
  define bw' :: u16 where "bw' = (if unat a < b + unat bw then 1 else 0)"
  define d where "d = (base + unat a - (b + unat bw)) mod base"
  have "length (tl bs) \<le> length as" using Cons.prems(3) by simp
  moreover have "unat bw' \<le> 1" by (simp add: bw'_def)
  ultimately obtain bf where bf: "bf \<le> 1"
    "dval (sub_digits as (tl bs) bw') + dval (tl bs) + unat bw' = dval as + base ^ length as * bf"
    using Cons.IH by blast
  have "b < base" "unat a < base" by (simp_all add: b_def)
  then have dd: "d + b + unat bw = unat a + base * unat bw'"
    using Cons.prems(2) unfolding d_def bw'_def by (simp add: mod_base_sub)
  have "d < base" by (simp add: d_def)
  then have "unat (word_of_nat d :: u16) = d" by (simp add: unat_of_nat)
  then have "dval (sub_digits (a # as) bs bw) + dval bs + unat bw
      = (d + b + unat bw) + base * (dval (sub_digits as (tl bs) bw') + dval (tl bs))"
    by (simp add: dval_hd0_tl [of bs] bw'_def d_def b_def algebra_simps)
  also have "\<dots> = unat a + base * (dval (sub_digits as (tl bs) bw') + dval (tl bs) + unat bw')"
    unfolding dd by (simp add: algebra_simps)
  also have "\<dots> = dval (a # as) + base ^ length (a # as) * bf"
    unfolding bf by (simp add: algebra_simps)
  finally show ?case using bf Cons.prems(1) by blast
qed

lemma dval_sub_digits_le:
  assumes "length bs \<le> length as" "dval bs \<le> dval as"
  shows "dval (sub_digits as bs 0) = dval as - dval bs"
proof -
  obtain bf where bf: "bf \<le> 1" "dval (sub_digits as bs 0) + dval bs + unat (0::u16) = dval as + base ^ length as * bf"
    using dval_sub_digits [of 0 bs as] assms by auto
  have "dval (sub_digits as bs 0) < base ^ length as" using dval_less [of "sub_digits as bs 0"] by simp
  with bf assms have "bf = 0" by (cases bf) auto
  with bf show ?thesis by simp
qed

subsection \<open>Well-formed storage\<close>

lemma int_storeD [dest]:
  assumes "int_store i"
  shows "length (i_h i) = i_m i" "0 < i_m i" "even (i_m i)" "i_m i \<le> 254"
  using assms by (auto simp: int_store_def)

lemma int_norm_iff:
  "int_norm i \<longleftrightarrow> int_store i \<and> 1 \<le> i_d i \<and> i_d i \<le> i_m i \<and>
     (odd (i_d i) \<longrightarrow> i_h i ! i_d i = 0) \<and> (1 < i_d i \<longrightarrow> base ^ (i_d i - 1) \<le> int_abs i)"
  unfolding int_norm_def int_abs_def int_store_def
  using dval_take_ge_iff [of "i_d i" "i_h i"] by (auto simp del: One_nat_def)

lemma int_abs_less: "int_norm i \<Longrightarrow> int_abs i < base ^ i_d i"
  using dval_less [of "take (i_d i) (i_h i)"] by (auto simp: int_norm_def int_abs_def int_store_def)

lemma int_norm_dims: "int_norm i \<Longrightarrow> length (take (i_d i) (i_h i)) = i_d i"
  by (auto simp: int_norm_def int_store_def)

lemma base_pow_le_iff [simp]: "base ^ m \<le> base ^ n \<longleftrightarrow> m \<le> n"
  by (rule power_increasing_iff) simp

lemma base_pow_less_iff [simp]: "base ^ m < base ^ n \<longleftrightarrow> m < n"
  by (rule power_strict_increasing_iff) simp


subsection \<open>Addition of magnitudes\<close>

lemma addPos_frame [simp]:
  "i_m (addPos a b r) = i_m r" "i_neg (addPos a b r) = i_neg r"
  "i_obj (addPos a b r) = i_obj r" "i_literal (addPos a b r) = i_literal r"
  by (auto simp: addPos_def addPos_finish_def Let_def split: prod.splits)

lemma addPos_store: "int_store r \<Longrightarrow> int_store (addPos a b r)"
  by (auto simp: int_store_def addPos_def addPos_finish_def Let_def split: prod.splits dest!: addPos_loop_spec)

lemma addPos_finish_correct:
  assumes r: "int_store r" and len: "1 \<le> length w" "length w \<le> i_m r"
    and v: "v = dval w + base ^ length w * unat c" and fits: "v < base ^ i_m r"
    and top: "length w = 1 \<or> base ^ (length w - 1) \<le> v"
  shows "int_norm (addPos_finish w c r) \<and> int_abs (addPos_finish w c r) = v \<and>
    i_overflow (addPos_finish w c r) = i_overflow r"
proof -
  note r' = int_storeD [OF r]
  have small: "length w < 256" "Suc (length w) < 256" using len r' by simp_all
  have pos: "base ^ length w \<le> v" if "0 < c"
    using that unat_gt_0 [of c] unfolding v by (cases "unat c") (auto simp: word_neq_0_conv)
  consider (full) "length w = i_m r" "c = 0" | (nocarry) "length w < i_m r" "c = 0"
    | (carry) "length w < i_m r" "0 < c"
    using len fits pos by (cases "c = 0"; cases "length w = i_m r") (auto simp: word_neq_0_conv)
  then show ?thesis
  proof cases
    case full
    with r r' v top small show ?thesis
      by (auto simp: addPos_finish_def int_norm_iff int_abs_def int_store_def Let_def)
  next
    case nocarry
    with r r' v top small len show ?thesis
      by (auto simp: addPos_finish_def int_norm_iff int_abs_def int_store_def Let_def nth_append)
  next
    case carry
    then have ge: "base ^ length w \<le> v" using pos by blast
    obtain x xs where "drop (length w) (i_h r) = x # xs"
      using carry r' by (cases "drop (length w) (i_h r)") auto
    then have "take (Suc (length w)) (i_h (addPos_finish w c r)) = w @ [c]"
      using carry by (simp add: addPos_finish_def Let_def list_update_append)
    then have "int_abs (addPos_finish w c r) = v"
      using carry small v by (simp add: int_abs_def addPos_finish_def Let_def dval_append)
    moreover have "even (length w) \<Longrightarrow> Suc (length w) < i_m r"
      using carry r' by presburger
    ultimately show ?thesis
      using carry r r' small ge
      by (auto simp: int_norm_iff addPos_finish_def int_store_def Let_def)
  qed
qed

lemma addPos_loop_result:
  assumes a: "int_norm a" and b: "int_norm b" and r: "int_store r"
  obtains (early) "base ^ i_m r \<le> int_abs a + int_abs b" "i_overflow (addPos a b r)"
  | (late) w c where "length w = min (i_m r) (max (i_d a) (i_d b))"
      "int_abs a + int_abs b = dval w + base ^ length w * unat c"
      "addPos a b r = addPos_finish w c r"
proof -
  obtain ov w c where l: "addPos_loop (take (i_d a) (i_h a)) (take (i_d b) (i_h b)) (i_m r) 0 = (ov, w, c)"
    by (metis prod.exhaust)
  note spec = addPos_loop_spec [OF l, unfolded int_norm_dims [OF a] int_norm_dims [OF b]]
  show ?thesis
  proof (cases ov)
    case True
    then show ?thesis using spec l early by (simp add: addPos_def Let_def int_abs_def)
  next
    case False
    have eq: "int_abs a + int_abs b = dval w + base ^ length w * unat c"
      using spec False unfolding int_abs_def by (metis add_0_right unat_0)
    have len: "length w = min (i_m r) (max (i_d a) (i_d b))"
      using spec False by metis
    show ?thesis
      by (rule late [OF len eq]) (simp add: addPos_def l False)
  qed
qed

lemma int_norm_top: "int_norm i \<Longrightarrow> 1 \<le> n \<Longrightarrow> n \<le> i_d i \<Longrightarrow> n = 1 \<or> base ^ (n - 1) \<le> int_abs i"
proof (cases "n = 1")
  case False
  assume "int_norm i" "1 \<le> n" "n \<le> i_d i"
  with False have "base ^ (i_d i - 1) \<le> int_abs i" by (simp add: int_norm_iff)
  moreover have "base ^ (n - 1) \<le> base ^ (i_d i - 1)"
    unfolding base_pow_le_iff using \<open>n \<le> i_d i\<close> by simp
  ultimately show ?thesis by linarith
qed simp

lemma int_norm_d: "int_norm i \<Longrightarrow> 1 \<le> i_d i \<and> i_d i \<le> i_m i \<and> i_m i \<le> 254"
  by (auto simp: int_norm_def int_store_def)

lemma addPos_correct:
  assumes a: "int_norm a" and b: "int_norm b" and r: "int_store r"
    and fits: "int_abs a + int_abs b < base ^ i_m r"
  shows "int_norm (addPos a b r) \<and> int_abs (addPos a b r) = int_abs a + int_abs b \<and>
    i_overflow (addPos a b r) = i_overflow r"
  using a b r
proof (cases rule: addPos_loop_result)
  case early
  then show ?thesis using fits by simp
next
  case (late w c)
  have len: "1 \<le> length w" "length w \<le> i_m r"
    using late(1) int_norm_d [OF a] int_storeD [OF r] by auto
  have "length w \<le> i_d a \<or> length w \<le> i_d b" using late(1) by auto
  then have "length w = 1 \<or> base ^ (length w - 1) \<le> int_abs a + int_abs b"
    using int_norm_top [OF a len(1)] int_norm_top [OF b len(1)] by auto
  then show ?thesis
    unfolding late(3) using addPos_finish_correct [OF r len late(2) fits] by simp
qed

lemma addPos_overflow:
  assumes a: "int_norm a" and b: "int_norm b" and r: "int_store r"
    and big: "base ^ i_m r \<le> int_abs a + int_abs b"
  shows "i_overflow (addPos a b r)"
  using a b r
proof (cases rule: addPos_loop_result)
  case (late w c)
  have "dval w < base ^ length w" by (rule dval_less)
  have "length w = i_m r \<and> c \<noteq> 0"
  proof (rule ccontr)
    assume neg: "\<not> ?thesis"
    show False
    proof (cases "length w = i_m r")
      case True
      with neg late(2) big \<open>dval w < base ^ length w\<close> show False by simp
    next
      case False
      then have D: "max (i_d a) (i_d b) < i_m r" using late(1) by (simp add: min_def max_def split: if_splits)
      have "int_abs a + int_abs b < base ^ max (i_d a) (i_d b) + base ^ max (i_d a) (i_d b)"
        using int_abs_less [OF a] int_abs_less [OF b]
        by (intro add_less_mono; elim less_le_trans) simp_all
      also have "\<dots> \<le> base ^ Suc (max (i_d a) (i_d b))" by simp
      also have "\<dots> \<le> base ^ i_m r" unfolding base_pow_le_iff by (rule Suc_leI [OF D])
      finally show False using big by simp
    qed
  qed
  then show ?thesis unfolding late(3) by (simp add: addPos_finish_def Let_def word_neq_0_conv)
qed simp

subsection \<open>Comparison\<close>

definition comp_of :: "'a::linorder \<Rightarrow> 'a \<Rightarrow> IntComp" where
  "comp_of x y = (if x < y then INT_LT else if x = y then INT_EQ else INT_GT)"

lemma unat_w32: "unat (w32 h k) = unat (h ! (2 * k)) + base * unat (h ! (2 * k + 1))"
proof -
  have "unat (h ! (2 * k)) + base * unat (h ! (2 * k + 1)) \<le> 65535 + base * 65535"
    by (intro add_mono mult_le_mono2) simp_all
  then show ?thesis unfolding w32_def unat_of_nat by simp
qed

lemma dval_take_2Suc:
  assumes "2 * Suc k \<le> length h"
  shows "dval (take (2 * Suc k) h) = dval (take (2 * k) h) + base ^ (2 * k) * unat (w32 h k)"
proof -
  have "dval (take (2 * Suc k) h) = dval (take (Suc (2 * k)) h) + base ^ Suc (2 * k) * unat (h ! Suc (2 * k))"
    using assms by (simp add: dval_take_Suc)
  also have "\<dots> = dval (take (2 * k) h) + base ^ (2 * k) * unat (h ! (2 * k)) + base ^ Suc (2 * k) * unat (h ! Suc (2 * k))"
    using assms by (simp add: dval_take_Suc)
  finally show ?thesis by (simp add: unat_w32 algebra_simps)
qed

lemma int_is_abs_loop_correct:
  "2 * k \<le> length ha \<Longrightarrow> 2 * k \<le> length hb \<Longrightarrow>
   int_is_abs_loop ha hb k = comp_of (dval (take (2 * k) ha)) (dval (take (2 * k) hb))"
proof (induction k)
  case 0
  then show ?case by (simp add: comp_of_def)
next
  case (Suc k)
  let ?x = "dval (take (2 * k) ha)" and ?y = "dval (take (2 * k) hb)"
  let ?a = "unat (w32 ha k)" and ?b = "unat (w32 hb k)" and ?B = "base ^ (2 * k)"
  have xy: "?x < ?B" "?y < ?B"
    using Suc.prems dval_less [of "take (2 * k) ha"] dval_less [of "take (2 * k) hb"] by simp_all
  have less: "x + ?B * a < y + ?B * b" if "a < b" "x < ?B" for x y a b :: nat
  proof -
    have "x + ?B * a < ?B * Suc a" using that by simp
    also have "\<dots> \<le> ?B * b" using that by (intro mult_le_mono2) simp
    finally show ?thesis by simp
  qed
  have IH: "int_is_abs_loop ha hb k = comp_of ?x ?y" using Suc by simp
  consider "?a < ?b" | "?b < ?a" | "?a = ?b" by linarith
  then show ?case
  proof cases
    case 1
    then show ?thesis
      using less [OF 1 xy(1), of ?y] Suc.prems
      unfolding dval_take_2Suc [OF Suc.prems(1)] dval_take_2Suc [OF Suc.prems(2)]
      by (simp add: comp_of_def Let_def word_less_nat_alt)
  next
    case 2
    then show ?thesis
      using less [OF 2 xy(2), of ?x] Suc.prems
      unfolding dval_take_2Suc [OF Suc.prems(1)] dval_take_2Suc [OF Suc.prems(2)]
      by (simp add: comp_of_def Let_def word_less_nat_alt)
  next
    case 3
    then show ?thesis
      unfolding dval_take_2Suc [OF Suc.prems(1)] dval_take_2Suc [OF Suc.prems(2)]
      by (simp add: comp_of_def Let_def word_less_nat_alt IH)
  qed
qed

lemma int_abs_even_take:
  assumes "int_norm i"
  shows "dval (take (2 * ((i_d i + 1) div 2)) (i_h i)) = int_abs i" "2 * ((i_d i + 1) div 2) \<le> length (i_h i)"
proof -
  have i: "length (i_h i) = i_m i" "even (i_m i)" "i_d i \<le> i_m i" "odd (i_d i) \<longrightarrow> i_h i ! i_d i = 0"
    using assms by (auto simp: int_norm_def int_store_def)
  show "2 * ((i_d i + 1) div 2) \<le> length (i_h i)" using i by presburger
  show "dval (take (2 * ((i_d i + 1) div 2)) (i_h i)) = int_abs i"
  proof (cases "even (i_d i)")
    case True
    then show ?thesis by (simp add: int_abs_def)
  next
    case False
    then have "i_d i < i_m i" using i by (metis nat_less_le)
    moreover have "2 * ((i_d i + 1) div 2) = Suc (i_d i)" using False by presburger
    ultimately show ?thesis using i False by (simp add: int_abs_def dval_take_Suc)
  qed
qed

lemma int_abs_d_less:
  assumes "int_norm a" "int_norm b" "i_d a < i_d b"
  shows "int_abs a < int_abs b"
proof -
  have "int_abs a < base ^ i_d a" by (rule int_abs_less [OF assms(1)])
  also have "\<dots> \<le> base ^ (i_d b - 1)" unfolding base_pow_le_iff using assms(3) by simp
  also have "\<dots> \<le> int_abs b" using int_norm_top [OF assms(2), of "i_d b"] assms int_norm_d by fastforce
  finally show ?thesis .
qed

lemma int_is_abs_correct:
  assumes "int_norm a" "int_norm b"
  shows "int_is_abs a b = comp_of (int_abs a) (int_abs b)"
proof -
  consider "i_d a < i_d b" | "i_d b < i_d a" | "i_d a = i_d b" by linarith
  then show ?thesis
  proof cases
    case 1
    then show ?thesis using int_abs_d_less [OF assms] by (simp add: int_is_abs_def comp_of_def)
  next
    case 2
    then show ?thesis using int_abs_d_less [OF assms(2,1)] by (simp add: int_is_abs_def comp_of_def)
  next
    case 3
    then show ?thesis
      using int_abs_even_take [OF assms(1)] int_abs_even_take [OF assms(2)]
      by (simp add: int_is_abs_def int_is_abs_loop_correct)
  qed
qed

lemma int_is_zero_iff: "int_norm i \<Longrightarrow> int_is_zero i \<longleftrightarrow> int_abs i = 0"
proof -
  assume n: "int_norm i"
  show ?thesis
  proof (cases "i_d i = 1")
    case True
    moreover have "0 < length (i_h i)" using n by (auto simp: int_norm_def int_store_def)
    ultimately show ?thesis by (cases "i_h i") (auto simp: int_is_zero_def int_abs_def unat_eq_0)
  next
    case False
    then have "1 < i_d i" using int_norm_d [OF n] by linarith
    then have "base ^ (i_d i - 1) \<le> int_abs i" using n by (simp add: int_norm_iff)
    moreover have "0 < base ^ (i_d i - 1)" by simp
    ultimately have "int_abs i \<noteq> 0" by linarith
    then show ?thesis using False by (simp add: int_is_zero_def)
  qed
qed

lemma int_is_correct:
  assumes "int_norm a" "int_norm b"
  shows "int_is a b = comp_of (int_val a) (int_val b)"
proof -
  have z: "i_d a = 1 \<and> i_d b = 1 \<and> i_h a ! 0 = 0 \<and> i_h b ! 0 = 0 \<longleftrightarrow> int_abs a = 0 \<and> int_abs b = 0"
    using int_is_zero_iff [OF assms(1)] int_is_zero_iff [OF assms(2)] by (auto simp: int_is_zero_def)
  show ?thesis
    unfolding int_is_def z int_is_abs_correct [OF assms]
    by (auto simp: comp_of_def int_val_def Let_def)
qed

subsection \<open>Subtraction\<close>

lemma strip_zeros_spec:
  assumes "1 \<le> d" "d \<le> length h"
  shows "1 \<le> strip_zeros h d \<and> strip_zeros h d \<le> d \<and>
    (1 < strip_zeros h d \<longrightarrow> h ! (strip_zeros h d - 1) \<noteq> 0) \<and>
    (\<forall>k. strip_zeros h d \<le> k \<and> k < d \<longrightarrow> h ! k = 0) \<and>
    dval (take (strip_zeros h d) h) = dval (take d h)"
  using assms
proof (induction h d rule: strip_zeros.induct)
  case (1 h d)
  show ?case
  proof (cases "d > 1 \<and> h ! (d - 1) = 0")
    case True
    then have eq: "strip_zeros h d = strip_zeros h (d - 1)" by (simp add: strip_zeros.simps)
    from True 1(3) have "d - 1 < length h" by linarith
    then have "dval (take d h) = dval (take (d - 1) h)"
      using dval_take_Suc [of "d - 1" h] True by simp
    moreover have "h ! k = 0" if "\<forall>k. strip_zeros h (d - 1) \<le> k \<and> k < d - 1 \<longrightarrow> h ! k = 0"
        "strip_zeros h (d - 1) \<le> k" "k < d" for k
      using that True by (cases "k = d - 1") auto
    moreover have "1 \<le> d - 1" "d - 1 \<le> length h" using True 1(3) by linarith+
    note IH = 1(1) [OF True this]
    ultimately show ?thesis using IH unfolding eq by (simp add: le_diff_conv2) (meson diff_le_self le_trans)
  next
    case False
    then have "strip_zeros h d = d" by (subst strip_zeros.simps) auto
    then show ?thesis using 1(2) False by auto
  qed
qed

lemma subAGtB_frame [simp]:
  "i_m (subAGtB a b r) = i_m r" "i_neg (subAGtB a b r) = i_neg r"
  "i_obj (subAGtB a b r) = i_obj r" "i_literal (subAGtB a b r) = i_literal r"
  by (auto simp: subAGtB_def Let_def split: prod.splits)

lemma subAGtB_store: "int_store r \<Longrightarrow> int_store (subAGtB a b r)"
  using subAGtB_loop_spec [of 0]
  by (fastforce simp: int_store_def subAGtB_def Let_def split: prod.splits)

lemma subAGtB_result:
  assumes a: "int_norm a" and b: "int_norm b" and r: "int_store r"
    and le: "int_abs b \<le> int_abs a"
  obtains ds where "length ds = i_d a" "dval ds = int_abs a - int_abs b"
    "subAGtB a b r =
       (let w = take (i_m r) ds; h1 = w @ drop (length w) (i_h r)
        in if dval (drop (i_m r) ds) \<noteq> 0 then r\<lparr>i_overflow := True, i_h := h1\<rparr>
         else let d1 = cast8 (length w);
                  h2 = (if odd d1 then h1[d1 := 0] else h1)
              in r\<lparr>i_h := h2, i_d := strip_zeros h2 d1\<rparr>)"
proof -
  let ?as = "take (i_d a) (i_h a)" and ?bs = "take (i_d b) (i_h b)"
  let ?ds = "sub_digits ?as ?bs 0"
  have "i_d b \<le> i_d a" using int_abs_d_less [OF a b] le by linarith
  then have "dval ?ds = int_abs a - int_abs b"
    using dval_sub_digits_le [of ?bs ?as] le int_norm_dims [OF a] int_norm_dims [OF b]
    by (simp add: int_abs_def)
  moreover have "length ?ds = i_d a" using int_norm_dims [OF a] by simp
  moreover obtain ov w where l: "subAGtB_loop ?as ?bs (i_m r) 0 = (ov, w)" by fastforce
  then have "w = take (i_m r) ?ds" "ov \<longleftrightarrow> dval (drop (i_m r) ?ds) \<noteq> 0"
    using subAGtB_loop_spec [of 0 ?as ?bs "i_m r" ov w] by simp_all
  ultimately show ?thesis
    using that [of ?ds] l by (simp add: subAGtB_def Let_def)
qed

lemma subAGtB_correct:
  assumes a: "int_norm a" and b: "int_norm b" and r: "int_store r"
    and le: "int_abs b \<le> int_abs a" and fits: "int_abs a - int_abs b < base ^ i_m r"
  shows "int_norm (subAGtB a b r) \<and> int_abs (subAGtB a b r) = int_abs a - int_abs b \<and>
    i_overflow (subAGtB a b r) = i_overflow r \<and> i_d (subAGtB a b r) \<le> i_d a \<and>
    (\<forall>k. i_d (subAGtB a b r) \<le> k \<and> k < i_d a \<and> k < i_m r \<longrightarrow> i_h (subAGtB a b r) ! k = 0)"
proof -
  obtain ds where ds: "length ds = i_d a" "dval ds = int_abs a - int_abs b"
    and eq: "subAGtB a b r =
       (let w = take (i_m r) ds; h1 = w @ drop (length w) (i_h r)
        in if dval (drop (i_m r) ds) \<noteq> 0 then r\<lparr>i_overflow := True, i_h := h1\<rparr>
         else let d1 = cast8 (length w);
                  h2 = (if odd d1 then h1[d1 := 0] else h1)
              in r\<lparr>i_h := h2, i_d := strip_zeros h2 d1\<rparr>)"
    by (rule subAGtB_result [OF a b r le])
  note r' = int_storeD [OF r]
  define w where "w = take (i_m r) ds"
  define h2 where "h2 = (if odd (length w) then (w @ drop (length w) (i_h r))[length w := 0]
    else w @ drop (length w) (i_h r))"
  have split: "dval ds = dval w + base ^ length w * dval (drop (i_m r) ds)"
    unfolding w_def by (metis append_take_drop_id dval_append)
  have nov: "dval (drop (i_m r) ds) = 0"
  proof (cases "i_d a \<le> i_m r")
    case False
    then have "length w = i_m r" using ds by (simp add: w_def)
    then show ?thesis using split fits ds by (cases "dval (drop (i_m r) ds)") auto
  qed (simp add: ds)
  have len: "1 \<le> length w" "length w \<le> i_m r" "length w = min (i_m r) (i_d a)"
    using ds int_norm_d [OF a] r' by (auto simp: w_def)
  have lenh: "length h2 = i_m r" using len r' by (simp add: h2_def)
  have tk: "take (length w) h2 = w" by (simp add: h2_def)
  have odd0: "odd (length w) \<Longrightarrow> h2 ! length w = 0"
  proof -
    assume "odd (length w)"
    then have "length w < i_m r" using len r' by (metis nat_less_le)
    then show ?thesis using \<open>odd (length w)\<close> r' by (simp add: h2_def)
  qed
  have res: "subAGtB a b r = r\<lparr>i_h := h2, i_d := strip_zeros h2 (length w)\<rparr>"
    using eq nov len r' by (simp add: Let_def w_def [symmetric] h2_def)
  let ?d = "strip_zeros h2 (length w)"
  have sz: "1 \<le> ?d" "?d \<le> length w" "1 < ?d \<longrightarrow> h2 ! (?d - 1) \<noteq> 0"
    "\<forall>k. ?d \<le> k \<and> k < length w \<longrightarrow> h2 ! k = 0" "dval (take ?d h2) = dval w"
    using strip_zeros_spec [of "length w" h2] len lenh tk by simp_all
  have "odd ?d \<Longrightarrow> h2 ! ?d = 0"
    using sz odd0 by (cases "?d = length w") auto
  then show ?thesis
    using res sz len lenh split nov ds r r' by (auto simp: int_norm_def int_store_def int_abs_def)
qed

lemma subAGtB_overflow:
  assumes a: "int_norm a" and b: "int_norm b" and r: "int_store r"
    and le: "int_abs b \<le> int_abs a" and big: "base ^ i_m r \<le> int_abs a - int_abs b"
  shows "i_overflow (subAGtB a b r)"
proof -
  obtain ds where ds: "length ds = i_d a" "dval ds = int_abs a - int_abs b"
    and eq: "subAGtB a b r =
       (let w = take (i_m r) ds; h1 = w @ drop (length w) (i_h r)
        in if dval (drop (i_m r) ds) \<noteq> 0 then r\<lparr>i_overflow := True, i_h := h1\<rparr>
         else let d1 = cast8 (length w);
                  h2 = (if odd d1 then h1[d1 := 0] else h1)
              in r\<lparr>i_h := h2, i_d := strip_zeros h2 d1\<rparr>)"
    by (rule subAGtB_result [OF a b r le])
  have "dval (drop (i_m r) ds) \<noteq> 0"
  proof
    assume "dval (drop (i_m r) ds) = 0"
    then have "dval ds = dval (take (i_m r) ds)"
      by (metis append_take_drop_id dval_append mult_0_right add_0_right)
    also have "\<dots> < base ^ length (take (i_m r) ds)" by (rule dval_less)
    also have "\<dots> \<le> base ^ i_m r" unfolding base_pow_le_iff by simp
    finally show False using big ds by simp
  qed
  then show ?thesis using eq by (simp add: Let_def)
qed

end
