(* ===== verification/BigInt_Ops.thy ===== *)
theory BigInt_Ops
  imports BigInt_Add
begin

section \<open>Big integers: signed operations and constructors\<close>

text \<open>
  \<^verbatim>\<open>int_add\<close> and \<^verbatim>\<open>int_sub\<close> on signed operands, and the constructors
  \<^verbatim>\<open>int_init\<close>, \<^verbatim>\<open>int_set_u\<close>, \<^verbatim>\<open>int_set_i\<close> and \<^verbatim>\<open>int_set_t\<close>,
  as functions of the denoted integers. \<open>fits m v\<close> says that the magnitude of \<open>v\<close> has
  at most \<open>m\<close> digits.
\<close>

subsection \<open>Signed addition and subtraction\<close>

lemma int_sub_abs_frame [simp]:
  "i_m (int_sub_abs a b r) = i_m r" "i_obj (int_sub_abs a b r) = i_obj r"
  "i_literal (int_sub_abs a b r) = i_literal r"
  by (simp_all add: int_sub_abs_def)

lemma int_upd_neg [simp]:
  "int_store (i\<lparr>i_neg := s\<rparr>) = int_store i" "int_norm (i\<lparr>i_neg := s\<rparr>) = int_norm i"
  "int_abs (i\<lparr>i_neg := s\<rparr>) = int_abs i"
  by (simp_all add: int_store_def int_norm_def int_abs_def)

lemma int_sub_abs_correct:
  assumes "int_norm a" "int_norm b" "int_store r"
    and "nat \<bar>int (int_abs a) - int (int_abs b)\<bar> < base ^ i_m r"
  shows "int_norm (int_sub_abs a b r) \<and>
    int_val (int_sub_abs a b r) = int (int_abs a) - int (int_abs b) \<and>
    i_overflow (int_sub_abs a b r) = i_overflow r"
proof (cases "int_abs a < int_abs b")
  case True
  then show ?thesis
    using subAGtB_correct [OF assms(2,1,3)] assms(4)
    by (simp add: int_sub_abs_def int_is_abs_correct assms comp_of_def int_val_def nat_diff_distrib')
next
  case False
  then show ?thesis
    using subAGtB_correct [OF assms(1,2,3)] assms(4)
    by (simp add: int_sub_abs_def int_is_abs_correct assms comp_of_def int_val_def nat_diff_distrib')
qed

lemma int_sub_abs_overflow:
  assumes "int_norm a" "int_norm b" "int_store r"
    and "base ^ i_m r \<le> nat \<bar>int (int_abs a) - int (int_abs b)\<bar>"
  shows "i_overflow (int_sub_abs a b r)"
proof (cases "int_abs a < int_abs b")
  case True
  then show ?thesis
    using subAGtB_overflow [OF assms(2,1,3)] assms(4)
    by (simp add: int_sub_abs_def int_is_abs_correct assms comp_of_def nat_diff_distrib')
next
  case False
  then show ?thesis
    using subAGtB_overflow [OF assms(1,2,3)] assms(4)
    by (simp add: int_sub_abs_def int_is_abs_correct assms comp_of_def nat_diff_distrib')
qed

definition fits :: "nat \<Rightarrow> int \<Rightarrow> bool" where
  "fits m v \<longleftrightarrow> nat \<bar>v\<bar> < base ^ m"

lemma int_add_correct:
  assumes "int_norm a" "int_norm b" "int_store r" and "fits (i_m r) (int_val a + int_val b)"
  shows "int_norm (int_add a b r) \<and> int_val (int_add a b r) = int_val a + int_val b \<and>
    i_overflow (int_add a b r) = i_overflow r"
  using assms(4) addPos_correct [OF assms(1,2,3)]
    int_sub_abs_correct [OF assms(1,2,3)] int_sub_abs_correct [OF assms(2,1,3)]
  by (cases "i_neg a"; cases "i_neg b") (simp_all add: int_add_def int_val_def fits_def nat_add_distrib)

lemma int_sub_correct:
  assumes "int_norm a" "int_norm b" "int_store r" and "fits (i_m r) (int_val a - int_val b)"
  shows "int_norm (int_sub a b r) \<and> int_val (int_sub a b r) = int_val a - int_val b \<and>
    i_overflow (int_sub a b r) = i_overflow r"
  using assms(4) addPos_correct [OF assms(1,2,3)]
    int_sub_abs_correct [OF assms(1,2,3)] int_sub_abs_correct [OF assms(2,1,3)]
  by (cases "i_neg a"; cases "i_neg b") (simp_all add: int_sub_def int_val_def fits_def nat_add_distrib)

lemma int_add_overflow:
  assumes "int_norm a" "int_norm b" "int_store r" and "\<not> fits (i_m r) (int_val a + int_val b)"
  shows "i_overflow (int_add a b r)"
  using assms(4) addPos_overflow [OF assms(1,2,3)]
    int_sub_abs_overflow [OF assms(1,2,3)] int_sub_abs_overflow [OF assms(2,1,3)]
  by (cases "i_neg a"; cases "i_neg b") (simp_all add: int_add_def int_val_def fits_def nat_add_distrib)

lemma int_sub_overflow:
  assumes "int_norm a" "int_norm b" "int_store r" and "\<not> fits (i_m r) (int_val a - int_val b)"
  shows "i_overflow (int_sub a b r)"
  using assms(4) addPos_overflow [OF assms(1,2,3)]
    int_sub_abs_overflow [OF assms(1,2,3)] int_sub_abs_overflow [OF assms(2,1,3)]
  by (cases "i_neg a"; cases "i_neg b") (simp_all add: int_sub_def int_val_def fits_def nat_add_distrib)

lemma int_sub_abs_store: "int_store r \<Longrightarrow> int_store (int_sub_abs a b r)"
  by (simp add: int_sub_abs_def subAGtB_store)

lemma int_add_store: "int_store r \<Longrightarrow> int_store (int_add a b r)"
  by (simp add: int_add_def int_sub_abs_store addPos_store)

lemma int_add_frame [simp]:
  "i_m (int_add a b r) = i_m r" "i_obj (int_add a b r) = i_obj r" "i_literal (int_add a b r) = i_literal r"
  by (simp_all add: int_add_def)

subsection \<open>Constructors\<close>

lemma ucast_64_32: "unat (ucast (x::u64) :: u32) = unat x mod 4294967296"
  by (simp add: unsigned_ucast_eq take_bit_eq_mod)

lemma dval_halves: "dval (halves w) = unat w"
  using u32_split [of w] by (simp add: halves_def l16_def h16_def)

lemma length_concat_halves [simp]: "length (concat (map halves ws)) = 2 * length ws"
  by (induction ws) (simp_all add: halves_def)


lemma int_set_u_loop_spec:
  "int_set_u_loop to room = (ws, rest) \<Longrightarrow>
    length ws \<le> room \<and>
    dval (concat (map halves ws)) + base ^ (2 * length ws) * unat rest = unat to \<and>
    (rest \<noteq> 0 \<longrightarrow> length ws = room) \<and>
    (ws \<noteq> [] \<longrightarrow> base ^ (2 * (length ws - 1)) \<le> unat to)"
proof (induction to room arbitrary: ws rest rule: int_set_u_loop.induct)
  case (2 to room)
  show ?case
  proof (cases "to > 0")
    case True
    obtain ws' where rec: "int_set_u_loop (to div 4294967296) room = (ws', rest)" and ws: "ws = ucast to # ws'"
      using "2.prems" True by (auto simp: Let_def split: prod.splits)
    have IH: "length ws' \<le> room" "rest \<noteq> 0 \<longrightarrow> length ws' = room"
      "dval (concat (map halves ws')) + base ^ (2 * length ws') * unat rest = unat to div 4294967296"
      "ws' \<noteq> [] \<longrightarrow> base ^ (2 * (length ws' - 1)) \<le> unat to div 4294967296"
      using "2.IH" [OF True rec] by (auto simp: unat_div)
    have "dval (concat (map halves ws)) + base ^ (2 * length ws) * unat rest =
        unat to mod 4294967296 + 4294967296 * (dval (concat (map halves ws')) + base ^ (2 * length ws') * unat rest)"
      by (simp add: ws dval_append dval_halves ucast_64_32 halves_def [symmetric] algebra_simps) (simp add: halves_def)
    also have "\<dots> = unat to" unfolding IH(3) by simp
    finally have v: "dval (concat (map halves ws)) + base ^ (2 * length ws) * unat rest = unat to" .
    have "base ^ (2 * (length ws - 1)) \<le> unat to"
    proof (cases "ws' = []")
      case True
      then show ?thesis using \<open>to > 0\<close> by (simp add: ws word_neq_0_conv unat_gt_0 Suc_le_eq)
    next
      case False
      then have "4294967296 * base ^ (2 * (length ws' - 1)) \<le> 4294967296 * (unat to div 4294967296)"
        using IH(4) by (intro mult_le_mono2) simp
      also have "\<dots> \<le> unat to" by simp
      finally show ?thesis using False by (cases ws') (simp_all add: ws)
    qed
    then show ?thesis using IH v by (simp add: ws)
  qed (use "2.prems" in \<open>auto simp flip: word_neq_0_conv\<close>)
qed simp

lemma put32_0 [simp]: "put32 0 0 h = h[0 := 0, 1 := 0]"
  by (simp add: put32_def)

lemma int_store_two:
  assumes "int_store i"
  obtains x y zs where "i_h i = x # y # zs"
proof -
  from assms have "2 \<le> length (i_h i)" unfolding int_store_def by presburger
  then show ?thesis using that by (metis One_nat_def Suc_1 Suc_le_length_iff)
qed

lemma int_set_u_store: "int_store i \<Longrightarrow> int_store (int_set_u to i)"
  by (auto simp: int_set_u_def int_store_def Let_def split: prod.splits dest: int_set_u_loop_spec)

lemma int_set_u_frame [simp]:
  "i_m (int_set_u to i) = i_m i" "i_neg (int_set_u to i) = False"
  "i_obj (int_set_u to i) = i_obj i" "i_literal (int_set_u to i) = i_literal i"
  by (auto simp: int_set_u_def Let_def split: prod.splits)

lemma int_set_u_overflow_iff:
  assumes "int_store i"
  shows "i_overflow (int_set_u to i) \<longleftrightarrow> base ^ i_m i \<le> unat to"
proof -
  obtain ws rest where l: "int_set_u_loop to (i_m i div 2) = (ws, rest)" by fastforce
  note spec = int_set_u_loop_spec [OF l]
  have m: "2 * (i_m i div 2) = i_m i" using int_storeD(3) [OF assms] by simp
  have ov: "i_overflow (int_set_u to i) \<longleftrightarrow> rest \<noteq> 0"
    by (auto simp: int_set_u_def l Let_def word_neq_0_conv)
  have d: "dval (concat (map halves ws)) < base ^ (2 * length ws)"
    using dval_less [of "concat (map halves ws)"] by simp
  have "rest \<noteq> 0 \<longleftrightarrow> base ^ i_m i \<le> unat to"
  proof
    assume "rest \<noteq> 0"
    then have "length ws = i_m i div 2" "1 \<le> unat rest" using spec unat_gt_0 [of rest] by auto
    then show "base ^ i_m i \<le> unat to" using spec m by (cases "unat rest") auto
  next
    assume big: "base ^ i_m i \<le> unat to"
    have "base ^ (2 * length ws) \<le> base ^ i_m i" unfolding base_pow_le_iff using spec m by linarith
    with big d have "dval (concat (map halves ws)) < unat to" by linarith
    then show "rest \<noteq> 0" using spec by auto
  qed
  then show ?thesis using ov by simp
qed

lemma int_set_u_correct:
  assumes i: "int_store i" and fits: "unat to < base ^ i_m i"
  shows "int_norm (int_set_u to i) \<and> int_abs (int_set_u to i) = unat to"
proof -
  obtain ws rest where l: "int_set_u_loop to (i_m i div 2) = (ws, rest)" by fastforce
  note i' = int_storeD [OF i]
  have "rest = 0"
    using int_set_u_overflow_iff [OF i, of to] fits by (auto simp: int_set_u_def l Let_def split: if_splits simp flip: word_neq_0_conv)
  then have len: "length ws \<le> i_m i div 2" and v: "dval (concat (map halves ws)) = unat to"
    and top: "ws \<noteq> [] \<Longrightarrow> base ^ (2 * (length ws - 1)) \<le> unat to"
    using int_set_u_loop_spec [OF l] by simp_all
  have len': "2 * length ws \<le> i_m i" using len i' by linarith
  let ?h = "concat (map halves ws) @ drop (2 * length ws) (i_h i)"
  have lenh: "length ?h = i_m i" using len' i' by simp
  show ?thesis
  proof (cases "ws = []")
    case True
    then have "int_set_u to i = i\<lparr>i_overflow := False, i_neg := False, i_d := 1, i_h := (i_h i)[0 := 0, 1 := 0]\<rparr>"
      using l \<open>rest = 0\<close> by (simp add: int_set_u_def)
    moreover have "unat to = 0" using v True by simp
    moreover obtain x y zs where "i_h i = x # y # zs" by (rule int_store_two [OF i])
    ultimately show ?thesis using i by (simp add: int_norm_def int_store_def int_abs_def)
  next
    case False
    define n where "n = 2 * length ws"
    have n: "2 \<le> n" "n \<le> i_m i" "even n" "cast8 n = n" using False len' i' by (cases ws; simp add: n_def)+
    have tk: "dval (take n ?h) = unat to" using v by (simp add: n_def)
    have top': "base ^ (n - 2) \<le> unat to" using top [OF False] by (simp add: n_def right_diff_distrib')
    show ?thesis
    proof (cases "?h ! (n - 1) = 0")
      case True
      then have eq: "int_set_u to i = i\<lparr>i_overflow := False, i_neg := False, i_d := n - 1, i_h := ?h\<rparr>"
        using l \<open>rest = 0\<close> n False by (simp add: int_set_u_def Let_def n_def)
      have "dval (take (n - 1) ?h) = unat to"
        using dval_take_Suc [of "n - 1" ?h] n lenh tk True by simp
      then show ?thesis
        using eq n lenh True top' i by (auto simp: int_norm_iff int_abs_def int_store_def numeral_2_eq_2)
    next
      case nz: False
      then have eq: "int_set_u to i = i\<lparr>i_overflow := False, i_neg := False, i_d := n, i_h := ?h\<rparr>"
        using l \<open>rest = 0\<close> n False by (simp add: int_set_u_def Let_def n_def)
      then show ?thesis
        using n lenh nz tk i by (auto simp: int_norm_def int_abs_def int_store_def)
    qed
  qed
qed

lemma int_init_correct:
  assumes "int_store i"
  shows "int_ok (int_init i) \<and> int_val (int_init i) = 0"
proof -
  obtain x y zs where "i_h i = x # y # zs" by (rule int_store_two [OF assms])
  then show ?thesis
    using assms by (simp add: int_ok_iff int_init_def int_norm_def int_store_def int_abs_def int_val_def)
qed

lemma int_init_frame [simp]: "i_m (int_init i) = i_m i" "\<not> i_neg (int_init i)" "\<not> i_overflow (int_init i)"
  "i_obj (int_init i) = i_obj i"
  by (simp_all add: int_init_def)

lemma int_init_concrete_m [simp]: "i_m (int_init_concrete m) = m"
  by (simp add: int_init_concrete_def)

lemma int_init_concrete_ok:
  assumes "0 < m" "even m" "m \<le> 254"
  shows "int_ok (int_init_concrete m)" "int_val (int_init_concrete m) = 0" 
  unfolding int_init_concrete_def
  by (rule int_init_correct [THEN conjunct1] int_init_correct [THEN conjunct2], simp add: int_store_def assms)+

lemma int_init_254 [simp]:
  "i_m int_init_concrete254 = 254" "int_norm int_init_concrete254" "int_store int_init_concrete254"
  using int_init_concrete_ok [of 254] by (auto simp: int_init_concrete254_def int_ok_iff int_norm_def)

lemma u64_less_base_pow: "4 \<le> m \<Longrightarrow> unat (x :: u64) < base ^ m"
proof -
  assume "4 \<le> m"
  have "unat x < 2 ^ 64" using unsigned_less [of x, where ?'a = nat] by simp
  also have "(2::nat) ^ 64 = base ^ 4" by simp
  also have "\<dots> \<le> base ^ m" unfolding base_pow_le_iff by fact
  finally show ?thesis .
qed

lemma unat_abs_sint:
  fixes x :: u64
  shows "unat (if sint x < 0 then - x else x) = nat \<bar>sint x\<bar>"
proof (cases "sint x < 0")
  case True
  then have u: "uint x = sint x + 2 ^ 64" using uint_eq_sint [of x] by simp
  have "- (2 ^ 63) \<le> sint x" using sint_ge [of x] by simp
  have "uint (- x) = (- uint x) mod 2 ^ 64" by (simp add: uint_word_ariths)
  also have "- uint x = - sint x - 2 ^ 64" using u by simp
  also have "(- sint x - 2 ^ 64) mod 2 ^ 64 = (- sint x) mod 2 ^ 64"
    by (metis minus_mod_self2)
  also have "\<dots> = - sint x" using True \<open>- (2 ^ 63) \<le> sint x\<close> by (simp add: mod_pos_pos_trivial)
  finally show ?thesis using True by (simp add: unat_eq_nat_uint)
next
  case False
  then show ?thesis using uint_eq_sint [of x] by (simp add: unat_eq_nat_uint)
qed

lemma int_set_i_frame [simp]:
  "i_m (int_set_i to i) = i_m i" "i_neg (int_set_i to i) = (sint to < 0)"
  "i_obj (int_set_i to i) = i_obj i" "i_literal (int_set_i to i) = i_literal i"
  by (simp_all add: int_set_i_def Let_def)

lemma int_set_i_eq:
  "int_set_i to i = (int_set_u (if sint to < 0 then - to else to) (i\<lparr>i_overflow := False\<rparr>))\<lparr>i_neg := sint to < 0\<rparr>"
proof -
  have "- INT64_MIN = 9223372036854775808" by (simp add: INT64_MIN_def)
  then show ?thesis by (auto simp: int_set_i_def Let_def)
qed

lemma int_store_upd_ov [simp]: "int_store (i\<lparr>i_overflow := b\<rparr>) = int_store i"
  by (simp add: int_store_def)

lemma int_set_i_correct:
  assumes "int_store i" "fits (i_m i) (sint to)"
  shows "int_ok (int_set_i to i) \<and> int_val (int_set_i to i) = sint to"
proof -
  let ?v = "if sint to < 0 then - to else to"
  have v: "unat ?v = nat \<bar>sint to\<bar>" by (rule unat_abs_sint)
  then have fit: "unat ?v < base ^ i_m i" using assms by (simp add: fits_def)
  let ?i = "i\<lparr>i_overflow := False\<rparr>"
  have "int_norm (int_set_u ?v ?i)" "int_abs (int_set_u ?v ?i) = nat \<bar>sint to\<bar>" "\<not> i_overflow (int_set_u ?v ?i)"
    using int_set_u_correct [of ?i ?v] int_set_u_overflow_iff [of ?i ?v] assms fit v by auto
  then show ?thesis
    unfolding int_set_i_eq int_ok_iff int_val_def by (cases "sint to < 0") simp_all
qed

lemma int_set_u_ok:
  assumes "int_store i" "unat to < base ^ i_m i"
  shows "int_ok (int_set_u to i) \<and> int_val (int_set_u to i) = int (unat to)"
  using int_set_u_correct [OF assms] int_set_u_overflow_iff [OF assms(1), of to] assms(2)
  by (simp add: int_ok_iff int_val_def)

lemma int_set_t_correct:
  assumes v: "int_norm v" and i: "int_store i" and le: "i_d v \<le> i_m i"
  obtains r where "int_set_t v i = Some r" "int_norm r" "int_val r = int_val v" "int_abs r = int_abs v"
    "i_d r = i_d v" "i_m r = i_m i"
    "i_neg r = i_neg v" "i_overflow r = i_overflow v" "i_obj r = i_obj i" "i_literal r = i_literal i"
proof -
  note i' = int_storeD [OF i] 
  let ?n = "2 * ((i_d v + 1) div 2)"
  define H where "H = take ?n (i_h v) @ drop ?n (i_h i)"
  have d: "1 \<le> i_d v" using int_norm_d [OF v] by simp
  have n: "i_d v \<le> ?n" "?n \<le> i_m i" "?n \<le> length (i_h v)" "odd (i_d v) \<longrightarrow> i_d v < ?n"
    using le i' int_abs_even_take(2) [OF v] by presburger+
  then have len: "length (take ?n (i_h v)) = ?n" by simp
  have tk: "take (i_d v) H = take (i_d v) (i_h v)" using n len by (simp add: H_def min_def)
  have nth: "H ! k = i_h v ! k" if "k < ?n" for k
    using that len by (simp add: H_def nth_append)
  have lenH: "length H = i_m i" using n len i' by (simp add: H_def)
  let ?r = "i\<lparr>i_neg := i_neg v, i_overflow := i_overflow v, i_d := i_d v, i_h := H\<rparr>"
  have "int_set_t v i = Some ?r"
    using i' le by (simp add: int_set_t_def Let_def H_def)
  moreover have abs: "int_abs ?r = int_abs v" by (simp add: int_abs_def tk)
  moreover have "int_norm ?r"
    unfolding int_norm_iff abs using v n d i' nth le lenH by (auto simp: int_norm_iff int_store_def)
  moreover have "int_val ?r = int_val v" by (simp add: int_val_def int_abs_def tk)
  ultimately show ?thesis using that [of ?r] by simp
qed

end
