(* ===== verification/BigInt_Mul.thy ===== *)
theory BigInt_Mul
  imports BigInt_Ops
begin

section \<open>Big integers: shift and multiplication\<close>

text \<open>
  \<^verbatim>\<open>int_shift\<close> multiplies or divides by a power of the base. \<^verbatim>\<open>int_mul\<close> always
  returns, and either raises the overflow flag or denotes the product; the flag stays down
  whenever the product fits the destination and the operands are not zero.
\<close>

subsection \<open>Shift\<close>

lemma shift_left_list:
  assumes "s + d \<le> length h"
  shows "memset0 (memmove h s 0 d) 0 s = replicate s 0 @ take d h @ drop (s + d) h"
  using assms by (simp add: memset0_def memmove_def)

lemma shift_right_list:
  assumes "s \<le> d" "d \<le> length h"
  shows "memset0 (memmove h 0 s (d - s)) (d - s) s = take (d - s) (drop s h) @ replicate s 0 @ drop d h"
  using assms by (simp add: memset0_def memmove_def)

lemma int_shift_zero: "int_norm i \<Longrightarrow> int_abs i = 0 \<Longrightarrow> int_shift s i = Some i"
  using int_is_zero_iff [of i] by (simp add: int_shift_def int_is_zero_def Let_def)

lemma int_nonzero_test: "int_norm i \<Longrightarrow> int_abs i \<noteq> 0 \<Longrightarrow> i_d i \<noteq> 1 \<or> i_h i ! 0 \<noteq> 0"
  using int_is_zero_iff [of i] by (auto simp: int_is_zero_def)

lemma int_shift_left_overflow:
  assumes "int_norm i" "int_abs i \<noteq> 0" "i_m i < i_d i + s"
  shows "int_shift (int s) i = Some (i\<lparr>i_overflow := True\<rparr>)"
  using int_nonzero_test [OF assms(1,2)] assms(3) by (simp add: int_shift_def Let_def)

lemma int_shift_left_correct:
  assumes i: "int_norm i" and s: "int_abs i = 0 \<or> i_d i + s \<le> i_m i"
  obtains j where "int_shift (int s) i = Some j" "int_norm j" "int_abs j = int_abs i * base ^ s"
    "int_abs i \<noteq> 0 \<Longrightarrow> i_d j = i_d i + s" "i_m j = i_m i" "i_neg j = i_neg i"
    "i_overflow j = i_overflow i" "i_obj j = i_obj i" "i_literal j = i_literal i"
proof (cases "int_abs i = 0")
  case True
  then show ?thesis using that [of i] int_shift_zero [OF i True] i by simp
next
  case False
  have i': "length (i_h i) = i_m i" "even (i_m i)" "i_m i \<le> 254" "i_d i \<le> i_m i" "1 \<le> i_d i"
    using i by (auto simp: int_norm_def int_store_def)
  have le: "s + i_d i \<le> length (i_h i)" "i_d i + s < 256" using s False i' by simp_all
  define h1 where "h1 = replicate s 0 @ take (i_d i) (i_h i) @ drop (s + i_d i) (i_h i)"
  define h2 where "h2 = (if i_d i + s < i_m i then h1[i_d i + s := 0] else h1)"
  have len: "length h2 = i_m i" using le i' by (simp add: h2_def h1_def)
  have eq: "int_shift (int s) i = Some (i\<lparr>i_h := h2, i_d := i_d i + s\<rparr>)"
    using int_nonzero_test [OF i False] le i' s False
    by (simp add: int_shift_def Let_def shift_left_list h1_def h2_def)
  have tk: "take (i_d i + s) h2 = replicate s 0 @ take (i_d i) (i_h i)"
    using i' le by (simp add: h2_def h1_def)
  let ?j = "i\<lparr>i_h := h2, i_d := i_d i + s\<rparr>"
  have abs: "int_abs ?j = int_abs i * base ^ s"
    by (simp add: int_abs_def tk dval_append)
  have "base ^ (i_d i - 1) \<le> int_abs i"
    using int_norm_top [OF i, of "i_d i"] i' False by (cases "i_d i = 1") auto
  then have top: "base ^ (i_d i - 1) * base ^ s \<le> int_abs i * base ^ s"
    by (rule mult_le_mono1)
  have "base ^ (i_d i + s - 1) \<le> int_abs ?j"
    unfolding abs using top i' by (simp flip: power_add)
  moreover have "odd (i_d i + s) \<Longrightarrow> h2 ! (i_d i + s) = 0"
  proof -
    assume "odd (i_d i + s)"
    then have "i_d i + s < i_m i" using i' s False by (metis nat_less_le)
    then show ?thesis using i' le by (simp add: h2_def h1_def)
  qed
  ultimately have "int_norm ?j"
    unfolding int_norm_iff using i i' s False len by (auto simp: int_norm_iff int_store_def)
  then show ?thesis using that [of ?j] eq abs by simp
qed

lemma int_shift_right1_correct:
  assumes i: "int_norm i" and d: "2 \<le> i_d i"
  obtains j where "int_shift (- 1) i = Some j" "int_norm j" "int_abs j = int_abs i div base"
    "i_d j = i_d i - 1" "i_m j = i_m i" "i_neg j = i_neg i" "i_overflow j = i_overflow i"
proof -
  have i': "length (i_h i) = i_m i" "even (i_m i)" "i_d i \<le> i_m i"
    using i by (auto simp: int_norm_def int_store_def)
  define h1 where "h1 = take (i_d i - 1) (drop 1 (i_h i)) @ [0] @ drop (i_d i) (i_h i)"
  have eq: "int_shift (- 1) i = Some (i\<lparr>i_h := h1, i_d := i_d i - 1\<rparr>)"
    using d i' shift_right_list [of 1 "i_d i" "i_h i"]
    by (simp add: int_shift_def Let_def h1_def)
  let ?j = "i\<lparr>i_h := h1, i_d := i_d i - 1\<rparr>"
  obtain x xs where h: "i_h i = x # xs" using i' d by (cases "i_h i") auto
  have lenxs: "i_d i - 1 \<le> length xs" using h i' by simp
  have tk: "take (i_d i - 1) h1 = take (i_d i - 1) xs" using lenxs by (simp add: h1_def h)
  have "int_abs i = unat x + base * dval (take (i_d i - 1) xs)"
    using d by (cases "i_d i") (simp_all add: int_abs_def h)
  then have abs: "int_abs ?j = int_abs i div base"
    using tk by (simp add: int_abs_def)
  have "base ^ (i_d i - 1) \<le> int_abs i" using i d by (simp add: int_norm_iff)
  moreover obtain k where k: "i_d i = Suc (Suc k)" using d by (metis add_2_eq_Suc le_Suc_ex)
  ultimately have "base ^ k * base div base \<le> int_abs i div base"
    by (intro div_le_mono) simp
  then have top: "base ^ (i_d i - 2) \<le> int_abs ?j" unfolding abs using k by simp
  have "h1 ! (i_d i - 1) = 0" using lenxs by (simp add: h1_def h nth_append)
  moreover have "length h1 = i_m i" using d i' by (simp add: h1_def)
  ultimately have "int_norm ?j"
    unfolding int_norm_iff using i i' d top by (auto simp: int_norm_iff int_store_def numeral_2_eq_2)
  then show ?thesis using that [of ?j] eq abs by simp
qed

subsection \<open>Multiplication\<close>

lemma int_shift_left_Some: "\<exists>j. int_shift (int s) i = Some j \<and> i_m j = i_m i \<and> (int_store i \<longrightarrow> int_store j)"
  by (auto simp: int_shift_def Let_def int_store_def memset0_def memmove_def)

lemma int_set_i_store: "int_store i \<Longrightarrow> int_store (int_set_i to i)"
  by (simp add: int_set_i_eq int_set_u_store)

lemma addPos_keeps_overflow: "i_overflow r \<Longrightarrow> i_overflow (addPos a b r)"
  by (auto simp: addPos_def addPos_finish_def Let_def split: prod.splits)

lemma subAGtB_keeps_overflow: "i_overflow r \<Longrightarrow> i_overflow (subAGtB a b r)"
  by (auto simp: subAGtB_def Let_def split: prod.splits)

lemma int_add_keeps_overflow: "i_overflow r \<Longrightarrow> i_overflow (int_add a b r)"
  by (simp add: int_add_def int_sub_abs_def addPos_keeps_overflow subAGtB_keeps_overflow)

lemma int_mul_row_overflow:
  assumes "i_overflow r" "int_store pp" "int_store r"
  obtains pp' r' where "int_mul_row ad bs rp pp r = Some (pp', r')" "i_overflow r'"
    "int_store pp'" "int_store r'" "i_m r' = i_m r" "i_m pp' = i_m pp"
proof (cases bs)
  case Nil
  then show ?thesis using that assms by simp
next
  case (Cons bd bs')
  let ?pp1 = "int_set_i (ucast (ucast ad * ucast bd :: u32)) pp"
  obtain pp2 where pp2: "int_shift (int rp) ?pp1 = Some pp2" "i_m pp2 = i_m pp" "int_store pp2"
    using int_shift_left_Some [of rp ?pp1] int_set_i_store [OF assms(2)] by auto
  then show ?thesis
    using that assms Cons int_set_i_store [OF assms(2)] int_add_keeps_overflow [OF assms(1)]
      int_add_store [OF assms(3)]
    by (cases "rp + i_d ?pp1 > i_m r") (auto simp: Let_def)
qed

lemma int_mul_rows_overflow:
  assumes "i_overflow r" "int_store pp" "int_store r"
  shows "\<exists>r'. int_mul_rows as bs rpn pp r = Some r' \<and> i_overflow r' \<and> int_store r' \<and> i_m r' = i_m r"
  using assms
proof (induction as arbitrary: rpn pp r)
  case (Cons ad as)
  obtain pp' r' where row: "int_mul_row ad bs rpn pp r = Some (pp', r')" "i_overflow r'"
    "int_store pp'" "int_store r'" "i_m r' = i_m r"
    using int_mul_row_overflow [OF Cons.prems] by blast
  then show ?case using Cons.IH [OF row(2-4), of "rpn + 1"] by auto
qed simp

text \<open>The partial product of two digits.\<close>

lemma sint_ucast_u32: "sint (ucast (w :: u32) :: u64) = int (unat w)"
proof -
  have "int (unat w) < 2 ^ 32" using unsigned_less [of w, where ?'a = nat] by simp
  moreover have "uint (ucast w :: u64) = int (unat w)"
    by (simp add: of_nat_unat unsigned_ucast_eq take_bit_int_eq_self order_less_trans [OF unsigned_less])
  moreover have "sint (ucast w :: u64) < 0 \<Longrightarrow> 2 ^ 63 \<le> uint (ucast w :: u64)"
    using uint_eq_sint [of "ucast w :: u64"] sint_ge [of "ucast w :: u64"] by simp
  ultimately show ?thesis using uint_eq_sint [of "ucast w :: u64"] by (auto split: if_splits)
qed

lemma unat_mult_u16: "unat (ucast (a::u16) * ucast (b::u16) :: u32) = unat a * unat b"
proof -
  have "unat a * unat b \<le> 65535 * 65535" by (intro mult_le_mono) simp_all
  then show ?thesis by (simp add: unat_word_ariths)
qed

lemma int_set_i_u32:
  assumes "int_store pp" "2 \<le> i_m pp"
  shows "int_ok (int_set_i (ucast (w :: u32)) pp)" "int_abs (int_set_i (ucast w) pp) = unat w"
    "i_neg (int_set_i (ucast w) pp) = False" "i_m (int_set_i (ucast w) pp) = i_m pp"
proof -
  have "unat w < base ^ 2" using unsigned_less [of w, where ?'a = nat] by simp
  also have "\<dots> \<le> base ^ i_m pp" unfolding base_pow_le_iff by fact
  finally have "fits (i_m pp) (sint (ucast w :: u64))" by (simp add: fits_def sint_ucast_u32)
  then have *: "int_ok (int_set_i (ucast w) pp)" "int_val (int_set_i (ucast w) pp) = int (unat w)"
    using int_set_i_correct [OF assms(1)] by (simp_all add: sint_ucast_u32)
  then show "int_ok (int_set_i (ucast w) pp)" by simp
  show neg: "i_neg (int_set_i (ucast w) pp) = False" by (simp add: sint_ucast_u32)
  show "int_abs (int_set_i (ucast w) pp) = unat w" using *(2) neg by (metis int_val_def nat_int)
qed simp

lemma mul_pow_digits:
  assumes "int_norm p" "int_abs p \<noteq> 0" "int_abs p * base ^ s < base ^ m"
  shows "i_d p + s \<le> m"
proof -
  have d: "1 \<le> i_d p" using int_norm_d [OF assms(1)] by simp
  have "base ^ (i_d p - 1) \<le> int_abs p"
    using int_norm_top [OF assms(1) d] assms(2) by (cases "i_d p = 1") auto
  then have "base ^ (i_d p - 1 + s) \<le> int_abs p * base ^ s" by (simp add: power_add)
  also note assms(3)
  finally have "i_d p - 1 + s < m" by (simp only: base_pow_less_iff)
  then show ?thesis using d by simp
qed

lemma fits_add_nonneg:
  "\<not> i_neg a \<Longrightarrow> \<not> i_neg b \<Longrightarrow> fits m (int_val a + int_val b) \<longleftrightarrow> int_abs a + int_abs b < base ^ m"
  by (simp add: fits_def int_val_def flip: of_nat_add)

definition mul_inv :: "Int_struct \<Rightarrow> nat \<Rightarrow> Int_struct \<Rightarrow> bool" where
  "mul_inv pp m r \<longleftrightarrow> int_store pp \<and> i_m pp = 254 \<and> int_ok r \<and> \<not> i_neg r \<and> i_m r = m"

lemma int_mul_row_step:
  assumes inv: "mul_inv pp m r" and le: "int_abs r + unat ad * unat bd * base ^ rp < base ^ m" "rp < m"
  obtains pp2 r1 where "mul_inv pp2 m r1" "int_abs r1 = int_abs r + unat ad * unat bd * base ^ rp"
    "int_mul_row ad (bd # bs) rp pp r = int_mul_row ad bs (rp + 1) pp2 r1"
proof -
  let ?w = "ucast ad * ucast bd :: u32"
  let ?pp1 = "int_set_i (ucast ?w) pp"
  have pp: "int_store pp" "2 \<le> i_m pp" and r: "int_norm r" "int_store r" "i_m r = m" "m \<le> 254"
    using inv by (auto simp: mul_inv_def int_ok_iff int_norm_def int_store_def)
  have pp1: "int_norm ?pp1" "int_abs ?pp1 = unat ad * unat bd" "\<not> i_neg ?pp1" "i_m ?pp1 = 254" "\<not> i_overflow ?pp1"
    using int_set_i_u32 [OF pp, of ?w] inv by (auto simp: unat_mult_u16 int_ok_iff mul_inv_def)
  have fit: "rp + i_d ?pp1 \<le> m"
  proof (cases "int_abs ?pp1 = 0")
    case True
    then have "i_d ?pp1 = 1" using int_is_zero_iff [OF pp1(1)] by (simp add: int_is_zero_def)
    then show ?thesis using le by simp
  next
    case False
    then show ?thesis using mul_pow_digits [OF pp1(1) False, of rp m] le pp1(2) by simp
  qed
  have "int_abs ?pp1 = 0 \<or> i_d ?pp1 + rp \<le> i_m ?pp1" using fit r(4) pp1(4) by simp
  then obtain pp2 where sh: "int_shift (int rp) ?pp1 = Some pp2" "int_norm pp2"
      "int_abs pp2 = int_abs ?pp1 * base ^ rp" "i_m pp2 = i_m ?pp1" "i_neg pp2 = i_neg ?pp1"
    by (elim int_shift_left_correct [OF pp1(1)]) blast
  then have pp2: "int_shift (int rp) ?pp1 = Some pp2" "int_norm pp2"
      "int_abs pp2 = unat ad * unat bd * base ^ rp" "i_m pp2 = 254" "\<not> i_neg pp2"
    using pp1 by simp_all
  let ?r1 = "int_add r pp2 r"
  have "fits (i_m r) (int_val r + int_val pp2)"
    using le pp2 inv r by (subst fits_add_nonneg) (simp_all add: mul_inv_def)
  from int_add_correct [OF r(1) pp2(2) r(2) this]
  have r1: "int_norm ?r1" "int_val ?r1 = int_val r + int_val pp2" "\<not> i_overflow ?r1"
    using inv by (auto simp: mul_inv_def int_ok_iff)
  have neg: "\<not> i_neg ?r1" using inv pp2 by (simp add: int_add_def mul_inv_def)
  show ?thesis
  proof (rule that [of pp2 ?r1])
    show "mul_inv pp2 m ?r1"
      using pp2 r1 neg r by (simp add: mul_inv_def int_ok_iff int_norm_def)
    show "int_abs ?r1 = int_abs r + unat ad * unat bd * base ^ rp"
      using r1(2) neg pp2(5) inv unfolding pp2(3) [symmetric] by (simp add: int_val_def mul_inv_def)
    show "int_mul_row ad (bd # bs) rp pp r = int_mul_row ad bs (rp + 1) pp2 ?r1"
      using fit r pp2(1) r1(3) by (simp add: Let_def)
  qed
qed

lemma int_mul_row_ov:
  assumes inv: "mul_inv pp m r"
    and big: "\<not> (int_abs r + unat ad * unat bd * base ^ rp < base ^ m \<and> rp < m)"
  obtains pp' r' where "int_mul_row ad (bd # bs) rp pp r = Some (pp', r')" "i_overflow r'"
    "int_store pp'" "i_m pp' = 254" "int_store r'" "i_m r' = m"
proof -
  let ?w = "ucast ad * ucast bd :: u32"
  let ?pp1 = "int_set_i (ucast ?w) pp"
  have pp: "int_store pp" "2 \<le> i_m pp" and r: "int_norm r" "int_store r" "i_m r = m" "m \<le> 254"
    using inv by (auto simp: mul_inv_def int_ok_iff int_norm_def int_store_def)
  have pp1: "int_norm ?pp1" "int_abs ?pp1 = unat ad * unat bd" "\<not> i_neg ?pp1" "i_m ?pp1 = 254"
    using int_set_i_u32 [OF pp, of ?w] inv by (auto simp: unat_mult_u16 int_ok_iff mul_inv_def)
  have st1: "int_store ?pp1" using pp1 by (simp add: int_norm_def)
  show ?thesis
  proof (cases "rp + i_d ?pp1 > m")
    case True
    then show ?thesis
      using that [of ?pp1 "r\<lparr>i_overflow := True\<rparr>"] pp1 r st1 by (simp add: Let_def)
  next
    case False
    then have "int_abs ?pp1 = 0 \<or> i_d ?pp1 + rp \<le> i_m ?pp1" using r(4) pp1(4) by simp
    then obtain pp2 where sh: "int_shift (int rp) ?pp1 = Some pp2" "int_norm pp2"
        "int_abs pp2 = int_abs ?pp1 * base ^ rp" "i_m pp2 = i_m ?pp1" "i_neg pp2 = i_neg ?pp1"
      by (elim int_shift_left_correct [OF pp1(1)]) blast
    have "rp < m" using False int_norm_d [OF pp1(1)] by simp
    then have "\<not> fits (i_m r) (int_val r + int_val pp2)"
      using big sh pp1 inv r by (subst fits_add_nonneg) (simp_all add: mul_inv_def)
    then have "i_overflow (int_add r pp2 r)" using int_add_overflow [OF r(1) sh(2) r(2)] by simp
    then show ?thesis
      using that [of pp2 "int_add r pp2 r"] sh False r pp1 int_add_store [OF r(2)]
      by (simp add: Let_def int_norm_def)
  qed
qed

text \<open>One row: either the flag is raised, or the row has been added.\<close>

lemma int_mul_row_total:
  assumes "mul_inv pp m r"
  shows "\<exists>pp' r'. int_mul_row ad bs rp pp r = Some (pp', r') \<and>
    (if bs = [] \<or> (int_abs r + unat ad * dval bs * base ^ rp < base ^ m \<and> rp + length bs \<le> m)
     then mul_inv pp' m r' \<and> int_abs r' = int_abs r + unat ad * dval bs * base ^ rp
     else (int_store pp' \<and> i_m pp' = 254 \<and> int_store r' \<and> i_m r' = m \<and>
       (i_overflow r' \<or>
        (mul_inv pp' m r' \<and> int_abs r' = int_abs r + unat ad * dval bs * base ^ rp))))"
  using assms
proof (induction bs arbitrary: rp pp r)
  case (Cons bd bs)
  let ?v = "unat ad * unat bd * base ^ rp"
  have split: "unat ad * dval (bd # bs) * base ^ rp = ?v + unat ad * dval bs * base ^ (rp + 1)"
    by (simp add: algebra_simps)
  show ?case
  proof (cases "int_abs r + ?v < base ^ m \<and> rp < m")
    case True
    then obtain pp2 r1 where st: "mul_inv pp2 m r1" "int_abs r1 = int_abs r + ?v"
      "int_mul_row ad (bd # bs) rp pp r = int_mul_row ad bs (rp + 1) pp2 r1"
      by (elim conjE int_mul_row_step [OF Cons.prems])
    have inv_ov: "mul_inv pp' m r' \<Longrightarrow> int_store pp' \<and> i_m pp' = 254 \<and> int_store r' \<and> i_m r' = m" for pp' r'
      by (auto simp: mul_inv_def int_ok_iff int_norm_def)
    show ?thesis
      using Cons.IH [OF st(1), of "rp + 1"] inv_ov unfolding st(2,3) split
      by (auto simp: add.assoc split: if_splits)
  next
    case False
    then obtain pp' r' where ov: "int_mul_row ad (bd # bs) rp pp r = Some (pp', r')" "i_overflow r'"
      "int_store pp'" "i_m pp' = 254" "int_store r'" "i_m r' = m"
      by (rule int_mul_row_ov [OF Cons.prems])
    moreover have "\<not> (int_abs r + unat ad * dval (bd # bs) * base ^ rp < base ^ m \<and> rp + length (bd # bs) \<le> m)"
      using False unfolding split by auto
    ultimately show ?thesis by auto
  qed
qed (simp add: mul_inv_def)

lemma int_mul_rows_total:
  assumes "mul_inv pp m r"
  shows "\<exists>r'. int_mul_rows as bs rpn pp r = Some r' \<and> int_store r' \<and> i_m r' = m \<and>
    (i_overflow r' \<or> (int_ok r' \<and> \<not> i_neg r' \<and> int_abs r' = int_abs r + dval as * dval bs * base ^ rpn)) \<and>
    (int_abs r + dval as * dval bs * base ^ rpn < base ^ m \<and> rpn + length as + length bs \<le> m + 1
       \<longrightarrow> \<not> i_overflow r')"
  using assms
proof (induction as arbitrary: rpn pp r)
  case Nil
  then show ?case by (auto simp: mul_inv_def int_ok_iff int_norm_def)
next
  case (Cons ad as)
  let ?v = "unat ad * dval bs * base ^ rpn"
  have split: "dval (ad # as) * dval bs * base ^ rpn = ?v + dval as * dval bs * base ^ (rpn + 1)"
    by (simp add: algebra_simps)
  obtain pp' r' where row: "int_mul_row ad bs rpn pp r = Some (pp', r')"
    and fit: "int_abs r + ?v < base ^ m \<and> rpn + length bs \<le> m \<Longrightarrow> mul_inv pp' m r' \<and> int_abs r' = int_abs r + ?v"
    and any: "i_overflow r' \<and> int_store pp' \<and> int_store r' \<and> i_m r' = m \<or>
      mul_inv pp' m r' \<and> int_abs r' = int_abs r + ?v"
    using int_mul_row_total [OF Cons.prems, of ad bs rpn] by (auto split: if_splits)
  from any show ?case
  proof
    assume ov: "i_overflow r' \<and> int_store pp' \<and> int_store r' \<and> i_m r' = m"
    then have "\<not> (int_abs r + ?v < base ^ m \<and> rpn + length bs \<le> m)"
      using fit by (auto simp: mul_inv_def int_ok_iff)
    then have "\<not> (int_abs r + dval (ad # as) * dval bs * base ^ rpn < base ^ m \<and> rpn + length (ad # as) + length bs \<le> m + 1)"
      unfolding split by auto
    then show ?thesis
      using int_mul_rows_overflow [of r' pp' as bs "rpn + 1"] ov row by auto
  next
    assume inv: "mul_inv pp' m r' \<and> int_abs r' = int_abs r + ?v"
    show ?thesis
      using Cons.IH [OF conjunct1 [OF inv], of "rpn + 1"] inv row unfolding split
      by (auto simp: add.assoc)
  qed
qed

lemma int_mul_total:
  assumes a: "int_norm a" and b: "int_norm b" and r: "int_store r"
  obtains r' where "int_mul a b r = Some r'" "int_store r'" "i_m r' = i_m r"
    "i_overflow r' \<or> int_ok r' \<and> int_val r' = int_val a * int_val b \<and> int_abs r' = int_abs a * int_abs b"
    "int_abs a * int_abs b < base ^ i_m r \<and> i_d a + i_d b \<le> i_m r + 1 \<longrightarrow> \<not> i_overflow r'"
proof -
  have "int_ok (int_set_i 0 r) \<and> int_val (int_set_i 0 r) = sint (0 :: u64)"
    by (rule int_set_i_correct [OF r]) (simp add: fits_def)
  then have z: "int_ok (int_set_i 0 r)" "int_abs (int_set_i 0 r) = 0" "\<not> i_neg (int_set_i 0 r)"
    by (auto simp: int_val_def split: if_splits)
  then have "mul_inv int_init_concrete254 (i_m r) (int_set_i 0 r)"
    by (simp add: mul_inv_def)
  from int_mul_rows_total [OF this, of "take (i_d a) (i_h a)" "take (i_d b) (i_h b)" 0]
  obtain r1 where r1: "int_mul_rows (take (i_d a) (i_h a)) (take (i_d b) (i_h b)) 0 int_init_concrete254 (int_set_i 0 r) = Some r1"
    "int_store r1" "i_m r1 = i_m r"
    "i_overflow r1 \<or> int_ok r1 \<and> \<not> i_neg r1 \<and> int_abs r1 = int_abs a * int_abs b"
    "int_abs a * int_abs b < base ^ i_m r \<and> i_d a + i_d b \<le> i_m r + 1 \<longrightarrow> \<not> i_overflow r1"
    using z(2) int_norm_dims [OF a] int_norm_dims [OF b]
    unfolding int_abs_def [of a, symmetric] int_abs_def [of b, symmetric] by auto
  let ?r = "r1\<lparr>i_neg := (i_neg a \<noteq> i_neg b)\<rparr>"
  have "int_mul a b r = Some ?r" by (simp add: int_mul_def r1(1))
  moreover have "i_overflow ?r \<or> int_ok ?r \<and> int_val ?r = int_val a * int_val b \<and> int_abs ?r = int_abs a * int_abs b"
    using r1(4) by (auto simp: int_ok_iff int_val_def)
  ultimately show ?thesis using that [of ?r] r1 by auto
qed

text \<open>Two non-zero operands have a product of at least as many digits as the check needs.\<close>

lemma mul_digits:
  assumes a: "int_norm a" and b: "int_norm b" and "int_abs a \<noteq> 0" "int_abs b \<noteq> 0"
    and "int_abs a * int_abs b < base ^ m"
  shows "i_d a + i_d b \<le> m + 1"
proof -
  have d: "1 \<le> i_d a" "1 \<le> i_d b" using int_norm_d [OF a] int_norm_d [OF b] by simp_all
  have "base ^ (i_d a - 1) \<le> int_abs a" "base ^ (i_d b - 1) \<le> int_abs b"
    using int_norm_top [OF a d(1)] int_norm_top [OF b d(2)] assms(3,4)
    by (cases "i_d a = 1"; cases "i_d b = 1"; auto)+
  then have "base ^ (i_d a - 1) * base ^ (i_d b - 1) \<le> int_abs a * int_abs b" by (rule mult_le_mono)
  also note assms(5)
  finally have "i_d a - 1 + (i_d b - 1) < m" by (simp only: base_pow_less_iff flip: power_add)
  then show ?thesis using d by linarith
qed

lemma int_mul_correct:
  assumes a: "int_norm a" and b: "int_norm b" and r: "int_store r"
    and fit: "int_abs a * int_abs b < base ^ i_m r"
    and nz: "int_val a \<noteq> 0 \<and> int_val b \<noteq> 0 \<or> i_d a + i_d b \<le> i_m r + 1"
  obtains r' where "int_mul a b r = Some r'" "int_ok r'" "i_m r' = i_m r"
    "int_val r' = int_val a * int_val b" "int_abs r' = int_abs a * int_abs b"
proof -
  have dig: "i_d a + i_d b \<le> i_m r + 1"
    using nz mul_digits [OF a b _ _ fit] by (auto simp: int_val_def split: if_splits)
  obtain r' where r': "int_mul a b r = Some r'" "int_store r'" "i_m r' = i_m r"
    "i_overflow r' \<or> int_ok r' \<and> int_val r' = int_val a * int_val b \<and> int_abs r' = int_abs a * int_abs b"
    "int_abs a * int_abs b < base ^ i_m r \<and> i_d a + i_d b \<le> i_m r + 1 \<longrightarrow> \<not> i_overflow r'"
    by (rule int_mul_total [OF a b r])
  then show ?thesis using that [of r'] fit dig by auto
qed

end
