(* ===== verification/BigInt_Div.thy ===== *)
theory BigInt_Div
  imports BigInt_Mul "HOL-Library.Signed_Division"
begin

section \<open>Big integers: division\<close>

text \<open>
  \<^verbatim>\<open>int_div\<close> is total and correct: its loop ends, no assertion in it fails, and the quotient
  and the remainder are those of truncating division, the remainder adjusted by the divisor
  when the signs differ. The invariant \<open>div_inv\<close> ties the shifting denominator, the reducing
  numerator and the quotient together; every iteration lowers the shift or the numerator.
\<close>

subsection \<open>Digits of the reducing numerator\<close>

lemma dval_div_pow: "dval xs div base ^ k = dval (drop k xs)"
proof (cases "k \<le> length xs")
  case True
  have "dval xs = dval (take k xs) + base ^ k * dval (drop k xs)"
    using dval_append [of "take k xs" "drop k xs"] True by simp
  moreover have "dval (take k xs) < base ^ k" using dval_less [of "take k xs"] True by simp
  ultimately show ?thesis by simp
next
  case False
  then have "base ^ length xs \<le> base ^ k" unfolding base_pow_le_iff by simp
  with dval_less [of xs] have "dval xs < base ^ k" by linarith
  then show ?thesis using False by simp
qed

lemma dval_digit: "k < length xs \<Longrightarrow> dval xs div base ^ k mod base = unat (xs ! k)"
  by (simp add: dval_div_pow Cons_nth_drop_Suc [symmetric])

lemma dval_take_zeros:
  "a \<le> b \<Longrightarrow> b \<le> length xs \<Longrightarrow> \<forall>k. a \<le> k \<and> k < b \<longrightarrow> xs ! k = 0 \<Longrightarrow> dval (take b xs) = dval (take a xs)"
proof (induction b)
  case (Suc b)
  then show ?case by (cases "a = Suc b") (simp_all add: dval_take_Suc)
qed simp

text \<open>The numerator of the guess holds the two leading digits of the reducing numerator.\<close>

lemma guessNumerator_correct:
  assumes rn: "int_norm (reducingNumerator s)" and n: "nDigit_of s = int n" "1 \<le> n" "n \<le> N"
    and N: "N \<le> i_m (reducingNumerator s)"
    and zeros: "\<forall>k. i_d (reducingNumerator s) \<le> k \<and> k < N \<longrightarrow> i_h (reducingNumerator s) ! k = 0"
    and small: "int_abs (reducingNumerator s) < base ^ (n + 1)"
  obtains g where "guessNumerator s = Some g" "unat g = int_abs (reducingNumerator s) div base ^ (n - 1)"
proof -
  let ?h = "i_h (reducingNumerator s)" and ?d = "i_d (reducingNumerator s)" and ?X = "int_abs (reducingNumerator s)"
  define hi where "hi = (if int n \<ge> int ?d then 0 else ?h ! n)"
  have len: "length ?h = i_m (reducingNumerator s)" "?d \<le> length ?h"
    using rn by (auto simp: int_norm_def int_store_def)
  have X: "dval (take (max ?d N) ?h) = ?X"
    unfolding int_abs_def
    by (rule dval_take_zeros) (use zeros N len in \<open>auto simp: less_max_iff_disj\<close>)
  have lo: "?X div base ^ (n - 1) mod base = unat (?h ! (n - 1))"
    using dval_digit [of "n - 1" "take (max ?d N) ?h"] n len N unfolding X by simp
  have hi': "?X div base ^ n = unat hi"
  proof (cases "?d \<le> n")
    case True
    then have "?X < base ^ n"
      using int_abs_less [OF rn] by (meson base_pow_le_iff order_less_le_trans)
    then show ?thesis using True by (simp add: hi_def)
  next
    case False
    then have "?X div base ^ n mod base = unat (?h ! n)"
      using dval_digit [of n "take (max ?d N) ?h"] len unfolding X by simp
    moreover have "?X div base ^ n < base"
      using small by (simp add: less_mult_imp_div_less mult.commute)
    ultimately show ?thesis using False by (simp add: hi_def)
  qed
  have pw: "base ^ n = base ^ (n - 1) * base" using n by (metis Suc_diff_1 One_nat_def Suc_le_lessD power_Suc2)
  have "?X div base ^ (n - 1) div base = ?X div base ^ n"
    unfolding pw by (simp add: div_mult2_eq)
  then have v: "unat (?h ! (n - 1)) + base * unat hi = ?X div base ^ (n - 1)"
    unfolding hi' [symmetric] lo [symmetric] by (metis mod_mult_div_eq)
  have "unat (?h ! (n - 1)) + base * unat hi \<le> 65535 + base * 65535"
    by (intro add_mono mult_le_mono2) simp_all
  then have "unat (word_of_nat (unat (?h ! (n - 1)) + base * unat hi) :: u32) = ?X div base ^ (n - 1)"
    unfolding unat_of_nat v by simp
  moreover have "guessNumerator s = Some (word_of_nat (unat (?h ! (n - 1)) + base * unat hi))"
    using n by (simp add: guessNumerator_def hi_def Let_def nat_diff_distrib)
  ultimately show ?thesis using that by blast
qed

text \<open>A guess that is not zero is never too high.\<close>

lemma guess_le:
  assumes d: "dd < t * base ^ (D - 1)" "1 \<le> D" and g: "g = X div base ^ (sh + D - 1) div t"
  shows "g * (dd * base ^ sh) \<le> X"
proof -
  have e: "base ^ (D - 1) * base ^ sh = base ^ (sh + D - 1)"
    using d(2) by (simp add: add.commute flip: power_add)
  have "dd * base ^ sh \<le> t * base ^ (D - 1) * base ^ sh"
    using d(1) by (intro mult_le_mono1) simp
  then have "g * (dd * base ^ sh) \<le> g * (t * base ^ (sh + D - 1))"
    by (intro mult_le_mono2) (simp only: mult.assoc e)
  also have "\<dots> = g * t * base ^ (sh + D - 1)" by simp
  also have "\<dots> \<le> X div base ^ (sh + D - 1) * base ^ (sh + D - 1)"
    unfolding g by (intro mult_le_mono1) (rule div_times_less_eq_dividend)
  also have "\<dots> \<le> X" by (rule div_times_less_eq_dividend)
  finally show ?thesis .
qed

lemma subAGtB_above:
  assumes a: "int_norm a" and b: "int_norm b" and r: "int_store r" and le: "int_abs b \<le> int_abs a"
    and k: "i_d a \<le> k" "k < i_m r"
  shows "i_h (subAGtB a b r) ! k = i_h r ! k \<or> i_h (subAGtB a b r) ! k = 0"
proof -
  obtain ds where ds: "length ds = i_d a" "dval ds = int_abs a - int_abs b"
    and eq: "subAGtB a b r =
       (let w = take (i_m r) ds; h1 = w @ drop (length w) (i_h r)
        in if dval (drop (i_m r) ds) \<noteq> 0 then r\<lparr>i_overflow := True, i_h := h1\<rparr>
         else let d1 = cast8 (length w);
                  h2 = (if odd d1 then h1[d1 := 0] else h1)
              in r\<lparr>i_h := h2, i_d := strip_zeros h2 d1\<rparr>)"
    by (rule subAGtB_result [OF a b r le])
  have "length (take (i_m r) ds) = i_d a" using ds k by simp
  then show ?thesis
    unfolding eq using k int_storeD [OF r] ds
    by (auto simp: Let_def nth_append nth_list_update)
qed

subsection \<open>The invariant of the loop\<close>

definition div_inv :: "nat \<Rightarrow> nat \<Rightarrow> Int_struct \<Rightarrow> nat \<Rightarrow> div_state \<Rightarrow> bool" where
  "div_inv A N d m s \<longleftrightarrow>
     int_ok (reducingNumerator s) \<and> i_m (reducingNumerator s) = 254 \<and>
     int_norm (shiftingDenominator s) \<and> i_m (shiftingDenominator s) = 254 \<and>
     int_store (qDigit s) \<and> i_m (qDigit s) = 254 \<and> int_store (reduceBy s) \<and> i_m (reduceBy s) = 254 \<and>
     int_ok (quot s) \<and> i_m (quot s) = m \<and> \<not> i_neg (reducingNumerator s) \<and>
     0 \<le> shift_of s \<and> nDigit_of s = shift_of s + int (i_d d) \<and> nDigit_of s \<le> int N \<and> N \<le> 254 \<and>
     int_abs (shiftingDenominator s) = int_abs d * base ^ nat (shift_of s) \<and>
     i_d (shiftingDenominator s) = nat (nDigit_of s) \<and>
     int_abs (reducingNumerator s) < base ^ (nat (nDigit_of s) + 1) \<and>
     (\<forall>k. i_d (reducingNumerator s) \<le> k \<and> k < N \<longrightarrow> i_h (reducingNumerator s) ! k = 0) \<and>
     A = int_abs (reducingNumerator s) + int_abs (quot s) * int_abs (shiftingDenominator s)"

text \<open>What the first half of the loop body establishes when it continues.\<close>

lemma div_inv_quot_le:
  assumes "A = X + Q * (dd * base ^ sh)" "0 < dd"
  shows "Q * base ^ sh \<le> A div dd"
proof -
  have "Q * base ^ sh * dd \<le> A" using assms by (simp add: mult.assoc mult.left_commute)
  then show ?thesis using assms by (simp add: less_eq_div_iff_mult_less_eq)
qed

lemma int_div_shift_correct:
  assumes inv: "div_inv A N d m s" and d: "int_norm d" "0 < int_abs d" and fit: "A div int_abs d < base ^ m"
  obtains (stop) "int_div_shift s = Some (Break s)" "shift_of s = 0" "int_abs (reducingNumerator s) < int_abs d"
  | (shift) s1 where "int_div_shift s = Some (Next s1)" "div_inv A N d m s1" "shift_of s1 = shift_of s - 1" "0 < shift_of s"
      "reducingNumerator s1 = reducingNumerator s"
  | (keep) "int_div_shift s = Some (Next s)" "int_abs (shiftingDenominator s) \<le> int_abs (reducingNumerator s)"
proof (cases "int_abs (reducingNumerator s) < int_abs (shiftingDenominator s)")
  case False
  then have "int_is_abs (reducingNumerator s) (shiftingDenominator s) \<noteq> INT_LT"
    using inv by (simp add: div_inv_def int_ok_iff int_is_abs_correct comp_of_def)
  then show ?thesis using keep False by (simp add: int_div_shift_def)
next
  case lt: True
  then have cmp: "int_is_abs (reducingNumerator s) (shiftingDenominator s) = INT_LT"
    using inv by (simp add: div_inv_def int_ok_iff int_is_abs_correct comp_of_def)
  show ?thesis
  proof (cases "shift_of s = 0")
    case True
    then show ?thesis using stop cmp lt inv by (simp add: int_div_shift_def div_inv_def)
  next
    case False
    have dd: "1 \<le> i_d d" using int_norm_d [OF d(1)] by simp
    define sh where "sh = nat (shift_of s) - 1"
    have sh: "shift_of s = int (Suc sh)" using False inv by (simp add: sh_def div_inv_def)
    have sd: "int_norm (shiftingDenominator s)" "i_d (shiftingDenominator s) = Suc sh + i_d d"
      "int_abs (shiftingDenominator s) = int_abs d * base ^ Suc sh"
      using inv sh by (auto simp: div_inv_def nat_add_distrib)
    have two: "2 \<le> i_d (shiftingDenominator s)" using sd(2) dd by simp
    obtain sd1 where sd1: "int_shift (- 1) (shiftingDenominator s) = Some sd1" "int_norm sd1"
      "int_abs sd1 = int_abs (shiftingDenominator s) div base" "i_d sd1 = i_d (shiftingDenominator s) - 1"
      "i_m sd1 = i_m (shiftingDenominator s)"
      by (rule int_shift_right1_correct [OF sd(1) two]) blast
    have abs1: "int_abs sd1 = int_abs d * base ^ sh" unfolding sd1(3) sd(3) by simp
    have q: "int_norm (quot s)" "i_m (quot s) = m" "\<not> i_overflow (quot s)" using inv by (auto simp: div_inv_def int_ok_iff)
    have A: "A = int_abs (reducingNumerator s) + int_abs (quot s) * (int_abs d * base ^ Suc sh)"
      using inv sd by (simp add: div_inv_def)
    have "int_abs (quot s) * base ^ 1 \<le> int_abs (quot s) * base ^ Suc sh" by simp
    also have "\<dots> < base ^ m" using div_inv_quot_le [OF A d(2)] fit by simp
    finally have "int_abs (quot s) = 0 \<or> i_d (quot s) + 1 \<le> i_m (quot s)"
      using mul_pow_digits [OF q(1), of 1 m] q by auto
    then obtain q1 where q1: "int_shift (int 1) (quot s) = Some q1" "int_norm q1" "int_abs q1 = int_abs (quot s) * base ^ 1"
      "i_m q1 = i_m (quot s)" "i_overflow q1 = i_overflow (quot s)"
      by (elim int_shift_left_correct [OF q(1)]) blast
    let ?s1 = "s\<lparr>shift_of := shift_of s - 1, nDigit_of := nDigit_of s - 1,
                         shiftingDenominator := sd1, quot := q1\<rparr>"
    have step: "int_div_shift s = Some (Next ?s1)"
      using cmp False sd1 q1 q by (simp add: int_div_shift_def)
    have "int_abs (reducingNumerator s) < base ^ (Suc sh + i_d d)"
      using lt int_abs_less [OF sd(1)] sd(2) by simp
    moreover have "A = int_abs (reducingNumerator s) + int_abs q1 * int_abs sd1"
      using A q1 abs1 by simp
    moreover have nD: "nDigit_of s = int (Suc sh + i_d d)" using inv sh by (simp add: div_inv_def)
    moreover have d1: "i_d sd1 = sh + i_d d" "i_m sd1 = 254" using sd1 sd inv by (simp_all add: div_inv_def)
    moreover have "int_ok q1" "i_m q1 = m" using q q1 by (simp_all add: int_ok_iff)
    moreover note sd1(2) abs1
    ultimately have "div_inv A N d m ?s1"
      using inv unfolding div_inv_def by (simp add: sh nat_add_distrib)
    then show ?thesis using shift [of ?s1] step sh by simp
  qed
qed

subsection \<open>Reducing by a guess\<close>

lemma unat_ucast_16_32_Suc: "unat (ucast (x :: u16) + 1 :: u32) = unat x + 1"
  using add2_u32 [of x 1] by simp

lemma top_digit_bound:
  assumes "int_norm d"
  shows "int_abs d < (unat (i_h d ! (i_d d - 1)) + 1) * base ^ (i_d d - 1)"
proof -
  have d: "i_d d - 1 < length (i_h d)" "Suc (i_d d - 1) = i_d d" using assms by (auto simp: int_norm_def int_store_def)
  have "int_abs d = dval (take (i_d d - 1) (i_h d)) + base ^ (i_d d - 1) * unat (i_h d ! (i_d d - 1))"
    using dval_take_Suc [OF d(1)] d(2) by (simp add: int_abs_def)
  moreover have "dval (take (i_d d - 1) (i_h d)) < base ^ (i_d d - 1)"
    using dval_less [of "take (i_d d - 1) (i_h d)"] d by (simp add: min_def split: if_splits)
  ultimately show ?thesis by (simp add: algebra_simps)
qed

lemma int_div_reduce_correct:
  assumes inv: "div_inv A N d m s" and d: "int_norm d" "0 < int_abs d" and fit: "A div int_abs d < base ^ m"
    and td: "td = ucast (i_h d ! (i_d d - 1)) + 1"
  obtains s1 where "int_div_reduce td s = Some s1" "div_inv A N d m s1" "shift_of s1 = shift_of s"
    "int_abs (reducingNumerator s1) \<le> int_abs (reducingNumerator s)"
    "int_abs (shiftingDenominator s) \<le> int_abs (reducingNumerator s) \<longrightarrow>
       int_abs (reducingNumerator s1) < int_abs (reducingNumerator s)"
proof -
  let ?X = "int_abs (reducingNumerator s)" and ?SD = "int_abs (shiftingDenominator s)"
  define sh where "sh = nat (shift_of s)"
  define D where "D = i_d d"
  have D: "1 \<le> D" using int_norm_d [OF d(1)] by (simp add: D_def)
  have n: "nDigit_of s = int (sh + D)" "sh + D \<le> N" "N \<le> 254" "shift_of s = int sh"
    using inv by (auto simp: div_inv_def sh_def D_def)
  have rn: "int_ok (reducingNumerator s)" "int_norm (reducingNumerator s)" "int_store (reducingNumerator s)"
    "i_m (reducingNumerator s) = 254" "?X < base ^ (sh + D + 1)"
    "\<forall>k. i_d (reducingNumerator s) \<le> k \<and> k < N \<longrightarrow> i_h (reducingNumerator s) ! k = 0"
    using inv n by (auto simp: div_inv_def int_ok_iff int_norm_def nat_add_distrib)
  have sd: "int_norm (shiftingDenominator s)" "?SD = int_abs d * base ^ sh" "i_m (shiftingDenominator s) = 254"
    using inv by (auto simp: div_inv_def sh_def)
  then have SD: "0 < ?SD" using d by simp
  obtain g where g: "guessNumerator s = Some g" "unat g = ?X div base ^ (sh + D - 1)"
    by (rule guessNumerator_correct [OF rn(2) n(1) _ n(2) _ rn(6,5)]) (use D n rn in simp_all)
  define guess where "guess = (if g div td = 0 then 1 else g div td)"
  define qd where "qd = int_set_i (ucast guess) (qDigit s)"
  have tdv: "unat td = unat (i_h d ! (D - 1)) + 1" by (simp add: td unat_ucast_16_32_Suc D_def)
  have gd: "unat (g div td) = ?X div base ^ (sh + D - 1) div unat td"
    using g by (simp add: unat_div)
  have ok: "unat (g div td) * ?SD \<le> ?X"
    unfolding sd(2) by (rule guess_le [OF _ D gd]) (use top_digit_bound [OF d(1)] in \<open>simp add: tdv D_def\<close>)
  have gpos: "0 < unat guess" by (simp add: guess_def unat_gt_0 unat_eq_0)
  have gle: "unat guess * ?SD \<le> ?X \<or> unat guess = 1"
    using ok by (auto simp: guess_def)
  have qs: "int_store (qDigit s)" "2 \<le> i_m (qDigit s)" "i_m (qDigit s) = 254" using inv by (auto simp: div_inv_def)
  note qd = int_set_i_u32 [OF qs(1,2), of guess, folded qd_def]
  have XB: "?X < base ^ 254"
    using int_abs_less [OF rn(2)] int_norm_d [OF rn(2)] rn(4) by (meson base_pow_le_iff order_less_le_trans)
  have SDB: "?SD < base ^ 254"
    using int_abs_less [OF sd(1)] int_norm_d [OF sd(1)] sd(3) by (meson base_pow_le_iff order_less_le_trans)
  have rb: "int_store (reduceBy s)" "i_m (reduceBy s) = 254" using inv by (auto simp: div_inv_def)
  have prod: "?SD * int_abs qd < base ^ i_m (reduceBy s)"
    unfolding qd(2) rb(2) using gle XB SDB by (auto simp: mult.commute)
  have nz: "int_val (shiftingDenominator s) \<noteq> 0 \<and> int_val qd \<noteq> 0 \<or> i_d (shiftingDenominator s) + i_d qd \<le> i_m (reduceBy s) + 1"
    using SD gpos qd(2) by (simp add: int_val_def)
  obtain rb' where rb': "int_mul (shiftingDenominator s) qd (reduceBy s) = Some rb'" "int_ok rb'"
    "i_m rb' = i_m (reduceBy s)" "int_abs rb' = ?SD * int_abs qd"
    by (rule int_mul_correct [OF sd(1) int_ok_norm [OF qd(1)] rb(1) prod nz]) blast
  have R: "int_abs rb' = unat guess * ?SD" unfolding rb'(4) qd(2) by simp
  let ?s1 = "s\<lparr>qDigit := qd, reduceBy := rb'\<rparr>"
  let ?rn' = "subAGtB (reducingNumerator s) rb' (reducingNumerator s)"
  let ?q' = "addPos qd (quot s) (quot s)"
  have cmp: "int_is_abs (reducingNumerator s) rb' \<noteq> INT_LT \<longleftrightarrow> unat guess * ?SD \<le> ?X"
    using int_is_abs_correct [OF rn(2) int_ok_norm [OF rb'(2)]] by (auto simp: comp_of_def R)
  have step: "int_div_reduce td s = Some (if unat guess * ?SD \<le> ?X
      then ?s1\<lparr>reducingNumerator := ?rn', quot := ?q'\<rparr> else ?s1)"
    unfolding int_div_reduce_def by (simp add: g rb' guess_def [symmetric] qd_def [symmetric] cmp)
  have st: "int_store qd" "int_store rb'" "i_m qd = 254" "i_m rb' = 254"
    using qd rb' qs rb by (auto simp: int_ok_def)
  show ?thesis
  proof (cases "unat guess * ?SD \<le> ?X")
    case False
    then have "\<not> ?SD \<le> ?X" using gle by auto
    moreover have "div_inv A N d m ?s1" using inv st by (auto simp: div_inv_def)
    ultimately show ?thesis using that [of ?s1] step False by simp
  next
    case True
    let ?s2 = "?s1\<lparr>reducingNumerator := ?rn', quot := ?q'\<rparr>"
    have le: "int_abs rb' \<le> ?X" using True R by simp
    have sub: "int_norm ?rn'" "int_abs ?rn' = ?X - unat guess * ?SD" "\<not> i_overflow ?rn'"
      "\<forall>k. i_d ?rn' \<le> k \<and> k < i_d (reducingNumerator s) \<and> k < i_m (reducingNumerator s) \<longrightarrow> i_h ?rn' ! k = 0"
      "i_d ?rn' \<le> i_d (reducingNumerator s)"
      using subAGtB_correct [OF rn(2) int_ok_norm [OF rb'(2)] rn(3) le] XB rn R by (auto simp: int_ok_iff)
    have z: "i_h ?rn' ! k = 0" if "i_d ?rn' \<le> k" "k < N" for k
      using sub(4) subAGtB_above [OF rn(2) int_ok_norm [OF rb'(2)] rn(3) le, of k] that rn n
      by (cases "k < i_d (reducingNumerator s)") force+
    have q: "int_ok (quot s)" "int_store (quot s)" "i_m (quot s) = m" using inv by (auto simp: div_inv_def int_ok_def)
    have A: "A = int_abs ?rn' + (int_abs (quot s) + unat guess) * (int_abs d * base ^ sh)"
      using inv True sd(2) sub(2) unfolding div_inv_def by (simp add: algebra_simps)
    have "int_abs (quot s) + unat guess \<le> (int_abs (quot s) + unat guess) * base ^ sh" by simp
    also have "\<dots> < base ^ m" using div_inv_quot_le [OF A d(2)] fit by simp
    finally have add: "int_ok ?q'" "int_abs ?q' = int_abs (quot s) + unat guess"
      using addPos_correct [OF int_ok_norm [OF qd(1)] int_ok_norm [OF q(1)] q(2)] q qd by (auto simp: int_ok_iff)
    have "0 < unat guess * ?SD" using SD gpos by simp
    then have smaller: "int_abs ?rn' < ?X" using sub(2) True by linarith
    have "div_inv A N d m ?s2"
      using inv st sub(1-3) z add A sd(2) smaller rn q by (auto simp: div_inv_def int_ok_iff sh_def)
    then show ?thesis using that [of ?s2] step True smaller by simp
  qed
qed

subsection \<open>The loop ends\<close>

lemma int_div_loop_correct:
  assumes d: "int_norm d" "0 < int_abs d" and fit: "A div int_abs d < base ^ m"
    and td: "td = ucast (i_h d ! (i_d d - 1)) + 1" and inv: "div_inv A N d m s"
  shows "\<exists>s'. int_div_loop td s = Some (False, s') \<and> div_inv A N d m s' \<and> shift_of s' = 0 \<and>
    int_abs (reducingNumerator s') < int_abs d"
  using inv
proof (induction s rule: wf_induct_rule [OF wf_measures, of "[\<lambda>s. nat (shift_of s), \<lambda>s. int_abs (reducingNumerator s)]"])
  case (1 s)
  have rec: "\<exists>s'. int_div_loop td s = Some (False, s') \<and> div_inv A N d m s' \<and> shift_of s' = 0 \<and>
    int_abs (reducingNumerator s') < int_abs d"
    if next': "int_div_shift s = Some (Next s1)" and inv1: "div_inv A N d m s1"
      and dec: "shift_of s1 < shift_of s \<or> shift_of s1 = shift_of s \<and> s1 = s \<and>
        int_abs (shiftingDenominator s) \<le> int_abs (reducingNumerator s)" for s1
  proof -
    obtain s2 where s2: "int_div_reduce td s1 = Some s2" "div_inv A N d m s2" "shift_of s2 = shift_of s1"
      "int_abs (shiftingDenominator s1) \<le> int_abs (reducingNumerator s1) \<longrightarrow>
       int_abs (reducingNumerator s2) < int_abs (reducingNumerator s1)"
      by (rule int_div_reduce_correct [OF inv1 d fit td]) blast
    have "0 \<le> shift_of s2" using s2(2) by (simp add: div_inv_def)
    then have "(s2, s) \<in> measures [\<lambda>s. nat (shift_of s), \<lambda>s. int_abs (reducingNumerator s)]"
      using dec s2 by (auto simp: nat_less_eq_zless)
    moreover have "int_div_loop td s = int_div_loop td s2"
      by (subst int_div_loop.simps) (simp add: int_div_step_def next' s2)
    ultimately show ?thesis using "1.IH" s2 by simp
  qed
  from "1.prems" d fit show ?case
  proof (cases rule: int_div_shift_correct)
    case stop
    then have "int_div_loop td s = Some (False, s)"
      by (subst int_div_loop.simps) (simp add: int_div_step_def)
    then show ?thesis using stop "1.prems" by simp
  next
    case (shift s1)
    then show ?thesis using rec [of s1] by simp
  next
    case keep
    then show ?thesis using rec [of s] "1.prems" by simp
  qed
qed

subsection \<open>The state before the loop\<close>

lemma int_div_start_correct:
  assumes n: "int_ok n" and d: "int_norm d" "0 < int_abs d" and q: "int_store q" and le: "int_abs d \<le> int_abs n"
  obtains s where "int_div_start n d q = Some s" "div_inv (int_abs n) (i_d n) d (i_m q) s"
proof -
  have dims: "1 \<le> i_d n" "i_d n \<le> 254" "1 \<le> i_d d" "i_d d \<le> 254" "\<not> i_overflow n"
    using int_norm_d [OF int_ok_norm [OF n]] int_norm_d [OF d(1)] n by (auto simp: int_ok_iff)
  have dn: "i_d d \<le> i_d n" using int_abs_d_less [OF int_ok_norm [OF n] d(1)] le by linarith
  obtain rn where rn: "int_set_t n int_init_concrete254 = Some rn" "int_norm rn" "int_abs rn = int_abs n" "i_d rn = i_d n"
    "i_m rn = 254" "i_overflow rn = i_overflow n"
    by (rule int_set_t_correct [OF int_ok_norm [OF n], of int_init_concrete254]) (use dims in simp_all)
  obtain sd where sd: "int_set_t d int_init_concrete254 = Some sd" "int_norm sd" "int_abs sd = int_abs d" "i_d sd = i_d d"
    "i_m sd = 254"
    by (rule int_set_t_correct [OF d(1), of int_init_concrete254]) (use dims in simp_all)
  let ?rn = "rn\<lparr>i_neg := False\<rparr>" and ?sd = "sd\<lparr>i_neg := False\<rparr>"
  let ?st = "\<lambda>sd sh nd. \<lparr>reducingNumerator = ?rn, shiftingDenominator = sd, qDigit = int_init_concrete254,
              reduceBy = int_init_concrete254, quot = int_init q, shift_of = sh, nDigit_of = nd\<rparr>"
  have inv: "div_inv (int_abs n) (i_d n) d (i_m q) (?st sd' sh nd)"
    if "int_norm sd'" "int_abs sd' = int_abs d * base ^ nat sh" "i_d sd' = nat sh + i_d d" "i_m sd' = 254"
      "0 \<le> sh" "nd = sh + int (i_d d)" "nd = int (i_d n) \<or> nd = int (i_d n) - 1" for sd' sh nd
  proof -
    have "base ^ i_d n \<le> base ^ (nat nd + 1)" unfolding base_pow_le_iff using that(7) by auto
    then have "int_abs n < base ^ (nat nd + 1)"
      using int_abs_less [OF int_ok_norm [OF n]] by linarith
    moreover have "int_ok (int_init q)" "int_abs (int_init q) = 0"
      using int_init_correct [OF q] by (auto simp: int_val_def split: if_splits)
    ultimately show ?thesis
      using that rn dims dn by (auto simp: div_inv_def int_ok_iff nat_add_distrib)
  qed
  consider "i_d n = i_d d" | "i_d n = i_d d + 1" | "i_d d + 1 < i_d n" using dn by linarith
  then show ?thesis
  proof cases
    case 1
    then show ?thesis
      using that [of "?st ?sd 0 (int (i_d n))"] inv [of ?sd 0 "int (i_d n)"] rn sd
      by (simp add: int_div_start_def)
  next
    case 2
    then show ?thesis
      using that [of "?st ?sd 0 (int (i_d n) - 1)"] inv [of ?sd 0 "int (i_d n) - 1"] rn sd
      by (simp add: int_div_start_def)
  next
    case 3
    define k where "k = i_d n - i_d d - 1"
    have k: "int (i_d n) - int (i_d d) - 1 = int k" "1 \<le> k" "k + i_d d \<le> 254" "int (i_d n) = int k + int (i_d d) + 1"
      using 3 dims by (auto simp: k_def)
    obtain sd1 where sd1: "int_shift (int k) ?sd = Some sd1" "int_norm sd1" "int_abs sd1 = int_abs ?sd * base ^ k"
      "int_abs ?sd \<noteq> 0 \<Longrightarrow> i_d sd1 = i_d ?sd + k" "i_m sd1 = i_m ?sd"
      by (rule int_shift_left_correct [of ?sd k]) (use sd k in simp_all)
    show ?thesis
      using that [of "?st sd1 (int k) (int (i_d n) - 1)"] inv [of sd1 "int k" "int (i_d n) - 1"] rn sd sd1 d k
      by (simp add: int_div_start_def Let_def)
  qed
qed

subsection \<open>Quotient and remainder\<close>

text \<open>
  The remainder of the language: the one of truncating division, with the divisor added when
  the dividend is not zero and the signs differ.
\<close>

definition yarg_mod :: "int \<Rightarrow> int \<Rightarrow> int" where
  "yarg_mod a b = (if a \<noteq> 0 \<and> (a < 0) \<noteq> (b < 0) then a smod b + b else a smod b)"

lemma abs_int_val [simp]: "\<bar>int_val i\<bar> = int (int_abs i)"
  by (simp add: int_val_def)

lemma fits_base: "fits m v \<longleftrightarrow> \<bar>v\<bar> < int (base ^ m)"
  by (simp add: fits_def nat_less_iff)

lemma fits_le: "\<bar>v\<bar> \<le> \<bar>w\<bar> \<Longrightarrow> fits m w \<Longrightarrow> fits m v"
  by (simp add: fits_base)

lemma fits_val: "int_norm i \<Longrightarrow> i_d i \<le> m \<Longrightarrow> fits m (int_val i)"
proof -
  assume i: "int_norm i" "i_d i \<le> m"
  have "int_abs i < base ^ i_d i" by (rule int_abs_less [OF i(1)])
  also have "\<dots> \<le> base ^ m" unfolding base_pow_le_iff by (rule i(2))
  finally show ?thesis by (simp add: fits_def)
qed

lemma opposite_signs_val:
  assumes "int_val n \<noteq> 0" "int_val d \<noteq> 0"
  shows "opposite_signs n d \<longleftrightarrow> (int_val n < 0) \<noteq> (int_val d < 0)"
  using assms by (auto simp: opposite_signs_def int_val_def split: if_splits)

lemma int_is_zero_val: "int_norm i \<Longrightarrow> int_is_zero i \<longleftrightarrow> int_val i = 0"
  by (simp add: int_is_zero_iff int_val_def)

text \<open>The adjustment of the remainder, shared by both exits of the routine.\<close>

lemma adjust_fits:
  fixes v d :: int
  assumes "\<bar>v\<bar> \<le> \<bar>d\<bar>" "v \<noteq> 0 \<longrightarrow> (v < 0) \<noteq> (d < 0)" "fits m d"
  shows "fits m (v + d)"
  using assms(3) by (rule fits_le [rotated]) (use assms in auto)

lemma int_div_remainder_correct:
  assumes n: "int_norm n" "int_val n \<noteq> 0" and d: "int_norm d" "int_val d \<noteq> 0"
    and rn: "int_ok rn" "int_abs rn = int_abs n mod int_abs d"
    and r: "int_store r" "i_d d \<le> i_m r"
  obtains r' where "int_div_remainder n d rn (Some r) = Some (Some r')" "int_ok r'" "i_m r' = i_m r"
    "int_val r' = yarg_mod (int_val n) (int_val d)"
proof -
  have dpos: "0 < int_abs d" using d(2) by (auto simp: int_val_def split: if_splits)
  then have lt: "int_abs rn < int_abs d" using rn(2) by simp
  then have "i_d rn \<le> i_m r" using int_abs_d_less [OF d(1) int_ok_norm [OF rn(1)]] r by linarith
  then obtain r1 where r1: "int_set_t rn r = Some r1" "int_norm r1" "int_abs r1 = int_abs rn" "i_m r1 = i_m r"
    "i_overflow r1 = i_overflow rn"
    by (rule int_set_t_correct [OF int_ok_norm [OF rn(1)] r(1)]) blast
  let ?r2 = "r1\<lparr>i_neg := i_neg n\<rparr>"
  have s2: "int_norm ?r2" "int_store ?r2" "\<not> i_overflow ?r2" using r1 rn by (auto simp: int_ok_iff int_norm_def)
  have v2: "int_val ?r2 = int_val n smod int_val d"
    using n(2) rn(2) r1(3) by (auto simp: int_val_def signed_modulo_int_def zmod_int sgn_if)
  have fd: "fits (i_m r) (int_val d)" by (rule fits_val [OF d(1) r(2)])
  have "int_ok (int_add ?r2 d ?r2) \<and> int_val (int_add ?r2 d ?r2) = int_val n smod int_val d + int_val d"
    if "opposite_signs n d"
  proof -
    have "fits (i_m r) (int_val ?r2 + int_val d)"
      by (rule adjust_fits [OF _ _ fd])
        (use that lt in \<open>auto simp: r1 opposite_signs_def int_val_def split: if_splits\<close>)
    then have "fits (i_m ?r2) (int_val ?r2 + int_val d)" by (simp add: r1)
    then show ?thesis using int_add_correct [OF s2(1) d(1) s2(2)] s2(3) v2 by (simp add: int_ok_iff)
  qed
  moreover have "int_ok ?r2" using s2 by (simp add: int_ok_iff)
  moreover have "int_div_remainder n d rn (Some r) = Some (Some (if opposite_signs n d then int_add ?r2 d ?r2 else ?r2))"
    using r1 n by (simp add: int_div_remainder_def int_is_zero_val Let_def)
  moreover have "opposite_signs n d \<longleftrightarrow> (int_val n < 0) \<noteq> (int_val d < 0)" by (rule opposite_signs_val [OF n(2) d(2)])
  ultimately show ?thesis
    using that [of "if opposite_signs n d then int_add ?r2 d ?r2 else ?r2"] n v2 r1(4) by (simp add: yarg_mod_def)
qed

lemma div_eq_of_mult: "(A :: nat) = X + Q * D \<Longrightarrow> X < D \<Longrightarrow> A div D = Q \<and> A mod D = X"
  by simp

lemma int_div_loop_result:
  assumes n: "int_ok n" and d: "int_norm d" "0 < int_abs d" and q: "int_store q" and le: "int_abs d \<le> int_abs n"
    and fit: "int_abs n div int_abs d < base ^ i_m q"
  obtains s0 s where "int_div_start n d q = Some s0" "int_div_loop (ucast (i_h d ! (i_d d - 1)) + 1) s0 = Some (False, s)"
    "int_ok (quot s)" "i_m (quot s) = i_m q" "int_abs (quot s) = int_abs n div int_abs d"
    "int_ok (reducingNumerator s)" "int_abs (reducingNumerator s) = int_abs n mod int_abs d"
proof -
  obtain s0 where s0: "int_div_start n d q = Some s0" "div_inv (int_abs n) (i_d n) d (i_m q) s0"
    by (rule int_div_start_correct [OF n d q le])
  obtain s where s: "int_div_loop (ucast (i_h d ! (i_d d - 1)) + 1) s0 = Some (False, s)"
    "div_inv (int_abs n) (i_d n) d (i_m q) s" "shift_of s = 0" "int_abs (reducingNumerator s) < int_abs d"
    using int_div_loop_correct [OF d fit refl s0(2)] by blast
  then have "int_abs n = int_abs (reducingNumerator s) + int_abs (quot s) * int_abs d"
    by (simp add: div_inv_def)
  from div_eq_of_mult [OF this s(4)] s s0 show ?thesis using that by (auto simp: div_inv_def)
qed

lemma int_norm_top_nonzero: "int_norm d \<Longrightarrow> 0 < int_abs d \<Longrightarrow> i_h d ! (i_d d - 1) \<noteq> 0"
  using int_is_zero_iff [of d] by (cases "i_d d = 1") (auto simp: int_norm_def int_is_zero_def)

definition div_result :: "Int_struct \<Rightarrow> Int_struct \<Rightarrow> Int_struct \<Rightarrow> Int_struct option \<Rightarrow> Int_struct \<Rightarrow> Int_struct option \<Rightarrow> bool" where
  "div_result n d q ro q' ro' \<longleftrightarrow>
     int_ok q' \<and> i_m q' = i_m q \<and> int_val q' = int_val n sdiv int_val d \<and>
     (case ro of
        None \<Rightarrow> ro' = None
      | Some r \<Rightarrow> (case ro' of None \<Rightarrow> False
                  | Some r' \<Rightarrow> int_ok r' \<and> i_m r' = i_m r \<and> int_val r' = yarg_mod (int_val n) (int_val d)))"

text \<open>The destination of the remainder is large enough.\<close>

definition rem_room :: "Int_struct \<Rightarrow> Int_struct \<Rightarrow> Int_struct option \<Rightarrow> bool" where
  "rem_room n d ro \<longleftrightarrow>
     (case ro of
        None \<Rightarrow> True
      | Some r \<Rightarrow> int_store r \<and> \<not> i_overflow r \<and>
          (i_d d \<le> i_m r \<or>
           int_abs n < int_abs d \<and> i_d n \<le> i_m r \<and> (int_val n = 0 \<or> \<not> opposite_signs n d)))"

lemma int_div_small:
  assumes n: "int_ok n" and d: "int_norm d" "int_val d \<noteq> 0" and q: "int_store q" and lt: "int_abs n < int_abs d"
    and ro: "rem_room n d ro"
  shows "\<exists>q' ro'. int_div n d q ro = Some (q', ro') \<and> div_result n d q ro q' ro'"
proof -
  note nn = int_ok_norm [OF n]
  have cmp: "int_is_abs n d = INT_LT" using lt by (simp add: int_is_abs_correct [OF nn d(1)] comp_of_def)
  have quo: "int_val n sdiv int_val d = 0" "int_val n smod int_val d = int_val n"
    using lt sgn_mult_abs [of "int_val n"] by (simp_all add: signed_divide_int_def signed_modulo_int_def)
  have nd: "i_d n \<le> i_d d" using int_abs_d_less [OF d(1) nn] lt by linarith
  have qi: "int_ok (int_init q)" "int_val (int_init q) = 0" using int_init_correct [OF q] by auto
  show ?thesis
  proof (cases ro)
    case None
    then show ?thesis using cmp qi quo by (simp add: int_div_def div_result_def)
  next
    case (Some r)
    then have r: "int_store r" "\<not> i_overflow r" "i_d n \<le> i_m r"
      "int_val n \<noteq> 0 \<and> opposite_signs n d \<longrightarrow> i_d d \<le> i_m r"
      using ro nd by (auto simp: rem_room_def)
    show ?thesis
    proof (cases "int_val n \<noteq> 0 \<and> opposite_signs n d")
      case True
      have "fits (i_m r) (int_val n + int_val d)"
        by (rule adjust_fits) (use True lt d fits_val [OF d(1)] r(4) in \<open>auto simp: opposite_signs_val\<close>)
      from int_add_correct [OF nn d(1) r(1) this] True opposite_signs_val [of n d] show ?thesis
        using cmp qi quo Some r nn d by (simp add: int_div_def div_result_def int_is_zero_val yarg_mod_def int_ok_iff)
    next
      case False
      obtain r' where r': "int_set_t n r = Some r'" "int_norm r'" "int_val r' = int_val n" "i_m r' = i_m r" "i_overflow r' = i_overflow n"
        by (rule int_set_t_correct [OF nn r(1,3)]) blast
      then show ?thesis
        using cmp qi quo Some False nn d n
        by (auto simp: int_div_def div_result_def int_is_zero_val yarg_mod_def opposite_signs_val int_ok_iff)
    qed
  qed
qed

lemma int_div_large:
  assumes n: "int_ok n" and d: "int_norm d" "int_val d \<noteq> 0" and q: "int_store q" and le: "int_abs d \<le> int_abs n"
    and fit: "int_abs n div int_abs d < base ^ i_m q"
    and ro: "rem_room n d ro"
  shows "\<exists>q' ro'. int_div n d q ro = Some (q', ro') \<and> div_result n d q ro q' ro'"
proof -
  note nn = int_ok_norm [OF n]
  have dpos: "0 < int_abs d" using d(2) by (auto simp: int_val_def split: if_splits)
  then have nz: "int_val n \<noteq> 0" using le by (auto simp: int_val_def split: if_splits)
  have cmp: "int_is_abs n d \<noteq> INT_LT" using le by (simp add: int_is_abs_correct [OF nn d(1)] comp_of_def)
  obtain s0 s where s: "int_div_start n d q = Some s0" "int_div_loop (ucast (i_h d ! (i_d d - 1)) + 1) s0 = Some (False, s)"
    "int_ok (quot s)" "i_m (quot s) = i_m q" "int_abs (quot s) = int_abs n div int_abs d"
    "int_ok (reducingNumerator s)" "int_abs (reducingNumerator s) = int_abs n mod int_abs d"
    by (rule int_div_loop_result [OF n d(1) dpos q le fit])
  let ?q = "(quot s)\<lparr>i_neg := (i_neg n \<noteq> i_neg d)\<rparr>"
  have main: "int_div_main n d q ro = map_option (\<lambda>ro'. (?q, ro')) (int_div_remainder n d (reducingNumerator s) ro)" for ro
    using int_norm_top_nonzero [OF d(1) dpos] s
    by (cases "int_div_remainder n d (reducingNumerator s) ro") (simp_all add: int_div_main_def Let_def)
  have qv: "int_ok ?q" "i_m ?q = i_m q" "int_val ?q = int_val n sdiv int_val d"
    using s nz d(2) by (auto simp: int_ok_iff int_val_def signed_divide_int_def zdiv_int sgn_if split: if_splits)
  show ?thesis
  proof (cases ro)
    case None
    then show ?thesis using main qv cmp by (simp add: int_div_def div_result_def int_div_remainder_def)
  next
    case (Some r)
    then have r: "int_store r" "i_d d \<le> i_m r" using ro le by (auto simp: rem_room_def)
    obtain r' where "int_div_remainder n d (reducingNumerator s) (Some r) = Some (Some r')" "int_ok r'" "i_m r' = i_m r"
      "int_val r' = yarg_mod (int_val n) (int_val d)"
      by (rule int_div_remainder_correct [OF nn nz d s(6,7) r])
    then show ?thesis using main qv cmp Some r by (simp add: int_div_def div_result_def)
  qed
qed

text \<open>No assertion of the division fails, its loop ends, and it divides.\<close>

lemma int_div_correct:
  assumes "int_ok n" "int_norm d" "int_val d \<noteq> 0" "int_store q"
    and "int_abs n div int_abs d < base ^ i_m q"
    and "rem_room n d ro"
  obtains q' ro' where "int_div n d q ro = Some (q', ro')" "div_result n d q ro q' ro'"
  using int_div_small [OF assms(1-4) _ assms(6)] int_div_large [OF assms(1-4) _ assms(5,6)]
  by (meson not_less)

end
