(* ===== verification/BigInt_Text.thy ===== *)
theory BigInt_Text
  imports BigInt_Div
begin

section \<open>Big integers: conversions to machine integers and decimal text\<close>

text \<open>
  The output routines of \<^verbatim>\<open>big-int.c\<close> (\<^verbatim>\<open>int_to_i64\<close> to \<^verbatim>\<open>int_to_u32\<close>, \<^verbatim>\<open>int_to_s\<close>) and
  the input routine \<^verbatim>\<open>int_set_s\<close>, with the macro \<^verbatim>\<open>INT_DIGITS_FOR_S\<close> that sizes the
  destination of a decimal literal. Text written into the caller's buffer is the string from
  \<^verbatim>\<open>out\<close> to the end of the buffer; the number of free characters before \<^verbatim>\<open>out\<close> is kept
  beside it, and a write before the start of the buffer is \<open>None\<close>.
\<close>

subsection \<open>Definitions\<close>

definition FourDigits :: "Int_struct \<Rightarrow> u64" where
  "FourDigits i = ucast (w32 (i_h i) 0) + push_bit 32 (if i_d i \<le> 2 then 0 else ucast (w32 (i_h i) 1))"

definition int_to_i64 :: "Int_struct \<Rightarrow> u64" where
  "int_to_i64 i =
     (let r = FourDigits i
      in if i_neg i then (if r \<ge> 0x8000000000000000 then INT64_MIN else - r)
         else r AND 0x7FFFFFFFFFFFFFFF)"

definition int_to_u64 :: "Int_struct \<Rightarrow> u64" where
  "int_to_u64 i = (if i_neg i then 0 else FourDigits i)"

definition int_to_i32 :: "Int_struct \<Rightarrow> u32" where
  "int_to_i32 i =
     (let r = w32 (i_h i) 0
      in if i_neg i then - (if r > 0x80000000 then - 0x80000000 else r)
         else if r > 0x7FFFFFFF then 0x7FFFFFFF else r)"

definition int_to_u32 :: "Int_struct \<Rightarrow> u32" where
  "int_to_u32 i = w32 (i_h i) 0"

definition ten :: Int_struct where
  "ten = \<lparr>i_neg = False, i_overflow = False, i_obj = False, i_literal = False, i_d = 1, i_m = 2,
     i_h = halves 10\<rparr>"

definition tenToTheNineteen :: Int_struct where
  "tenToTheNineteen = \<lparr>i_neg = False, i_overflow = False, i_obj = False, i_literal = False,
     i_d = 4, i_m = 4, i_h = halves 2313682944 @ halves 2328306436\<rparr>"

definition INT_DIGITS_FOR_S :: "nat \<Rightarrow> nat" where
  "INT_DIGITS_FOR_S STRLEN = (1651124 + STRLEN * 342808) div 1651125"

definition INT_STRLEN_FOR_INT254 :: nat where
  "INT_STRLEN_FOR_INT254 = 1226"

fun int_set_s_loop :: "string \<Rightarrow> Int_struct \<Rightarrow> Int_struct \<Rightarrow> Int_struct \<Rightarrow> Int_struct option" where
  "int_set_s_loop [] digit acc i = Some i"
| "int_set_s_loop (c # cs) digit acc i = do {
     acc1 \<leftarrow> int_mul ten i acc;
     let digit1 = int_set_i (word_of_int (int (of_char c) - 48)) digit;
     int_set_s_loop cs digit1 acc1 (int_add acc1 digit1 i)
   }"

definition int_set_s :: "string \<Rightarrow> Int_struct \<Rightarrow> Int_struct option" where
  "int_set_s s i =
     (let (neg, s1) = (if s \<noteq> [] \<and> hd s = CHR ''-'' then (True, tl s) else (False, s))
      in do {
        r \<leftarrow> int_set_s_loop s1 int_init_concrete2 int_init_concrete254 (int_init i);
        Some (r\<lparr>i_neg := neg\<rparr>)
      })"

fun int_to_s_chunk :: "nat \<Rightarrow> bool \<Rightarrow> u64 \<Rightarrow> nat \<times> string \<Rightarrow> nat \<times> string" where
  "int_to_s_chunk 0 leading rem (room, out) = (room, out)"
| "int_to_s_chunk (Suc c) leading rem (room, out) =
     (if room = 0 then (room, out)
      else let ch = char_of (unat (rem mod 10 + 48))
           in int_to_s_chunk c leading (rem div 10)
                (if \<not> leading \<or> rem \<noteq> 0 then (room - 1, ch # out) else (room, out)))"

partial_function (option) int_to_s_loop ::
  "Int_struct \<Rightarrow> Int_struct \<Rightarrow> nat \<times> string \<Rightarrow> (nat \<times> string) option" where
  "int_to_s_loop v r buf =
     (if int_is_zero v then Some buf
      else Option.bind (int_div v tenToTheNineteen v (Some r)) (\<lambda>(v1, ro).
        case ro of
          None \<Rightarrow> None
        | Some r1 \<Rightarrow>
            int_to_s_loop v1 r1 (int_to_s_chunk 19 (int_is_zero v1) (FourDigits r1) buf)))"

definition int_to_s :: "Int_struct \<Rightarrow> nat \<Rightarrow> string option" where
  "int_to_s i n = do {
     v \<leftarrow> int_set_t i int_init_concrete254;
     (room, out) \<leftarrow> int_to_s_loop (v\<lparr>i_neg := False\<rparr>) int_init_concrete4 (n - 1, []);
     if out = [] then (if room = 0 then None else Some ''0'')
     else if i_neg i then (if room = 0 then None else Some (CHR ''-'' # out))
     else Some out
   }"

subsection \<open>Machine integers\<close>

lemma int_abs_w32:
  assumes "int_norm i" "i_d i \<le> 2"
  shows "int_abs i = unat (w32 (i_h i) 0)"
proof -
  have "2 * ((i_d i + 1) div 2) = 2" using assms int_norm_d [OF assms(1)] by auto
  then show ?thesis
    using int_abs_even_take [OF assms(1)] dval_take_2Suc [of 0 "i_h i"] by simp
qed

lemma unat_FourDigits:
  assumes "int_norm i"
  shows "unat (FourDigits i) = unat (w32 (i_h i) 0) + 2 ^ 32 * (if i_d i \<le> 2 then 0 else unat (w32 (i_h i) 1))"
proof -
  have u: "unat (ucast (w :: u32) :: u64) = unat w" for w
    using unsigned_less [of w, where ?'a = nat] by (simp add: unsigned_ucast_eq take_bit_nat_eq_self)
  have b: "unat (w :: u32) < 2 ^ 32" for w using unsigned_less [of w, where ?'a = nat] by simp
  have p: "unat (push_bit 32 (ucast w :: u64)) = 2 ^ 32 * unat w" for w :: u32
    using b [of w] by (simp add: push_bit_eq_mult unat_word_ariths u)
  have a: "unat (x + y :: u64) = unat x + unat y" if "unat x < 2 ^ 32" "unat y \<le> 2 ^ 32 * (2 ^ 32 - 1)" for x y
    using that by (simp add: unat_word_ariths)
  show ?thesis
  proof (cases "i_d i \<le> 2")
    case False
    have "2 ^ 32 * unat (w32 (i_h i) 1) \<le> 2 ^ 32 * (2 ^ 32 - 1)" using b [of "w32 (i_h i) 1"] by simp
    then show ?thesis using False b by (simp add: FourDigits_def a u p)
  qed (simp add: FourDigits_def u)
qed

lemma FourDigits_correct:
  assumes "int_norm i" "i_d i \<le> 4"
  shows "unat (FourDigits i) = int_abs i"
proof (cases "i_d i \<le> 2")
  case True
  then show ?thesis using unat_FourDigits [OF assms(1)] int_abs_w32 [OF assms(1)] by simp
next
  case False
  then have e: "2 * ((i_d i + 1) div 2) = 4" using assms by auto
  have "4 \<le> length (i_h i)" using int_abs_even_take(2) [OF assms(1)] e by simp
  then have "int_abs i = unat (w32 (i_h i) 0) + base ^ 2 * unat (w32 (i_h i) 1)"
    using int_abs_even_take(1) [OF assms(1)] dval_take_2Suc [of 0 "i_h i"] dval_take_2Suc [of 1 "i_h i"]
    unfolding e by simp
  then show ?thesis using unat_FourDigits [OF assms(1)] False by simp
qed

lemma int_d_bound:
  assumes "int_norm i" "int_abs i < base ^ k" "0 < k"
  shows "i_d i \<le> k"
proof (rule ccontr)
  assume "\<not> i_d i \<le> k"
  then have "base ^ (i_d i - 1) \<le> int_abs i" "base ^ k \<le> base ^ (i_d i - 1)"
    using int_norm_top [OF assms(1), of "i_d i"] assms(3) by auto
  then show False using assms(2) by linarith
qed

lemma int_to_u64_correct:
  assumes "int_norm i" "0 \<le> int_val i" "int_val i < 2 ^ 64" "\<not> i_neg i"
  shows "int (unat (int_to_u64 i)) = int_val i"
proof -
  have "int (int_abs i) < int (base ^ 4)" using assms by (simp add: int_val_def)
  then have "int_abs i < base ^ 4" by (simp only: of_nat_less_iff)
  then have "i_d i \<le> 4" by (rule int_d_bound [OF assms(1)]) simp
  then show ?thesis using FourDigits_correct [OF assms(1)] assms by (simp add: int_to_u64_def int_val_def)
qed

text \<open>A word whose unsigned value is below half the range reads the same signed.\<close>

lemma unat_eq_sint:
  fixes w :: "'a::len word"
  shows "int (unat w) = (if sint w < 0 then sint w + 2 ^ LENGTH('a) else sint w)"
  using uint_eq_sint [of w] by (simp add: of_nat_unat)

lemma int_unat_minus:
  fixes w :: "'a::len word"
  assumes "w \<noteq> 0"
  shows "int (unat (- w)) = 2 ^ LENGTH('a) - int (unat w)"
proof -
  have "uint (- w) = (- uint w) mod 2 ^ LENGTH('a)" by (simp add: uint_word_ariths)
  also have "\<dots> = 2 ^ LENGTH('a) - uint w"
    using assms unsigned_less [of w, where ?'a = int] by (simp add: zmod_zminus1_eq_if uint_0_iff)
  finally show ?thesis by (simp add: of_nat_unat)
qed

lemma sint_small_u64: "unat (w :: u64) < 2 ^ 63 \<Longrightarrow> sint w = int (unat w)"
  using unat_eq_sint [of w] sint_ge [of w] by (auto split: if_splits)

lemma sint_small_u32: "unat (w :: u32) < 2 ^ 31 \<Longrightarrow> sint w = int (unat w)"
  using unat_eq_sint [of w] sint_ge [of w] by (auto split: if_splits)

lemma sint_minus_u64: "unat (w :: u64) \<le> 2 ^ 63 \<Longrightarrow> sint (- w) = - int (unat w)"
  using int_unat_minus [of w] unat_eq_sint [of "- w"] sint_lt [of "- w"]
  by (cases "w = 0") (auto split: if_splits)

lemma sint_minus_u32: "unat (w :: u32) \<le> 2 ^ 31 \<Longrightarrow> sint (- w) = - int (unat w)"
  using int_unat_minus [of w] unat_eq_sint [of "- w"] sint_lt [of "- w"]
  by (cases "w = 0") (auto split: if_splits)

lemma and_mask63: "unat (w :: u64) < 2 ^ 63 \<Longrightarrow> w AND 0x7FFFFFFFFFFFFFFF = w"
proof -
  assume w: "unat w < 2 ^ 63"
  have "(0x7FFFFFFFFFFFFFFF :: u64) = mask 63" by (simp add: mask_eq_exp_minus_1)
  then have "w AND 0x7FFFFFFFFFFFFFFF = take_bit 63 w" by (simp add: take_bit_eq_mask)
  also have "unat \<dots> = unat w" using w by (simp add: unsigned_take_bit_eq take_bit_nat_eq_self)
  finally show ?thesis by (simp add: word_unat_eq_iff)
qed

lemma int_to_i64_correct:
  assumes i: "int_norm i" and v: "- (2 ^ 63) \<le> int_val i" "int_val i < 2 ^ 63"
  shows "sint (int_to_i64 i) = int_val i"
proof -
  have abs: "int_abs i \<le> 2 ^ 63" using v by (simp add: int_val_def split: if_splits)
  have "i_d i \<le> 4" by (rule int_d_bound [OF i]) (use abs in simp_all)
  note F = FourDigits_correct [OF i this]
  show ?thesis
  proof (cases "i_neg i")
    case True
    have "sint (- FourDigits i) = int_val i"
      using sint_minus_u64 [of "FourDigits i"] F abs True by (simp add: int_val_def)
    moreover have "int_to_i64 i = - FourDigits i"
    proof (cases "FourDigits i \<ge> 0x8000000000000000")
      case big: True
      then have "FourDigits i = 0x8000000000000000" using F abs by (simp add: word_le_nat_alt word_unat_eq_iff)
      then show ?thesis using True by (simp add: int_to_i64_def INT64_MIN_def)
    qed (use True in \<open>simp add: int_to_i64_def\<close>)
    ultimately show ?thesis by simp
  next
    case False
    then have "unat (FourDigits i) < 2 ^ 63" using F v by (simp add: int_val_def)
    then show ?thesis
      using False F by (simp add: int_to_i64_def and_mask63 sint_small_u64 int_val_def)
  qed
qed

lemma int_to_i32_correct:
  assumes i: "int_norm i" and v: "- (2 ^ 31) \<le> int_val i" "int_val i < 2 ^ 31"
  shows "sint (int_to_i32 i) = int_val i"
proof -
  have abs: "int_abs i \<le> 2 ^ 31" using v by (simp add: int_val_def split: if_splits)
  have "i_d i \<le> 2" by (rule int_d_bound [OF i]) (use abs in simp_all)
  note F = int_abs_w32 [OF i this]
  then show ?thesis
    using v abs sint_minus_u32 [of "w32 (i_h i) 0"] sint_small_u32 [of "w32 (i_h i) 0"]
    by (cases "i_neg i") (auto simp: int_to_i32_def int_val_def Let_def word_less_nat_alt)
qed

lemma int_to_u32_correct:
  assumes i: "int_norm i" and v: "0 \<le> int_val i" "int_val i < 2 ^ 32"
  shows "int (unat (int_to_u32 i)) = int_val i"
proof -
  have abs: "int_abs i < 2 ^ 32" using v by (simp add: int_val_def split: if_splits)
  have "i_d i \<le> 2" by (rule int_d_bound [OF i]) (use abs in simp_all)
  then show ?thesis using int_abs_w32 [OF i] v by (simp add: int_to_u32_def int_val_def split: if_splits)
qed

lemma int_is_range_correct:
  assumes i: "int_norm i"
  shows "int_is_range i l u =
    (if int_val i > int (unat u) then INT_ABOVE else if int_val i < sint l then INT_BELOW else INT_WITHIN)"
proof -
  let ?t = "int_set_u u int_init_concrete254"
  have t: "int_ok ?t" "int_val ?t = int (unat u)"
    using int_set_u_ok [of int_init_concrete254 u] u64_less_base_pow [of 254 u] by auto
  have "fits 254 (sint l)"
    using u64_less_base_pow [of 254 "if sint l < 0 then - l else l"] unat_abs_sint [of l] by (simp add: fits_def)
  then have "int_ok (int_set_i l ?t)" "int_val (int_set_i l ?t) = sint l"
    using int_set_i_correct [of ?t l] t by (auto simp: int_ok_def)
  then show ?thesis
    using t i by (auto simp: int_is_range_def Let_def int_is_correct int_ok_iff comp_of_def)
qed

subsection \<open>Decimal numerals\<close>

definition digit_char :: "nat \<Rightarrow> char" where
  "digit_char d = char_of (48 + d)"

fun decs :: "nat \<Rightarrow> string" where
  "decs n = (if n = 0 then [] else decs (n div 10) @ [digit_char (n mod 10)])"

declare decs.simps [simp del]

definition dec :: "nat \<Rightarrow> string" where
  "dec n = (if n = 0 then ''0'' else decs n)"

definition dec_int :: "int \<Rightarrow> string" where
  "dec_int v = (if v < 0 then CHR ''-'' # dec (nat (- v)) else dec (nat v))"

definition undec :: "nat \<Rightarrow> string \<Rightarrow> nat" where
  "undec = foldl (\<lambda>v c. v * 10 + (of_char c - 48))"

definition all_digits :: "string \<Rightarrow> bool" where
  "all_digits s \<longleftrightarrow> (\<forall>c \<in> set s. 48 \<le> (of_char c :: nat) \<and> (of_char c :: nat) < 58)"

lemma of_digit_char [simp]: "d < 10 \<Longrightarrow> of_char (digit_char d) = 48 + d"
  by (simp add: digit_char_def)

lemma decs_0 [simp]: "decs 0 = []"
  by (simp add: decs.simps)

lemma undec_append: "undec v (xs @ ys) = undec (undec v xs) ys"
  by (simp add: undec_def)

lemma undec_decs: "undec 0 (decs n) = n"
proof (induction n rule: decs.induct)
  case (1 n)
  then show ?case by (subst decs.simps) (simp add: undec_append undec_def)
qed

lemma undec_dec: "undec 0 (dec n) = n"
  using undec_decs [of n] by (simp add: dec_def undec_def)

lemma all_digits_decs: "all_digits (decs n)"
proof (induction n rule: decs.induct)
  case (1 n)
  then show ?case by (subst decs.simps) (auto simp: all_digits_def)
qed

lemma all_digits_dec: "all_digits (dec n)"
  using all_digits_decs by (simp add: dec_def all_digits_def)

lemma dec_not_Nil [simp]: "dec n \<noteq> []"
  by (simp add: dec_def decs.simps)

lemma decs_Nil_iff [simp]: "decs n = [] \<longleftrightarrow> n = 0"
  by (subst decs.simps) simp

lemma undec_ge: "v * 10 ^ length s \<le> undec v s"
proof (induction s arbitrary: v)
  case (Cons c s)
  have "v * 10 ^ length (c # s) \<le> (v * 10 + (of_char c - 48)) * 10 ^ length s" by (simp add: algebra_simps)
  also have "\<dots> \<le> undec (v * 10 + (of_char c - 48)) s" by (rule Cons)
  finally show ?case by (simp add: undec_def)
qed (simp add: undec_def)

lemma undec_less: "all_digits s \<Longrightarrow> undec v s < (v + 1) * 10 ^ length s"
proof (induction s arbitrary: v)
  case (Cons c s)
  then have c: "of_char c - 48 \<le> (9 :: nat)" and s: "all_digits s" by (auto simp: all_digits_def)
  have "undec v (c # s) < (v * 10 + (of_char c - 48) + 1) * 10 ^ length s"
    using Cons.IH [OF s] by (simp add: undec_def)
  also have "\<dots> \<le> ((v + 1) * 10) * 10 ^ length s" using c by (intro mult_le_mono1) simp
  finally show ?case by (simp add: algebra_simps)
qed (simp add: undec_def)

lemma length_decs_le: "n < 10 ^ k \<Longrightarrow> length (decs n) \<le> k"
proof (induction k arbitrary: n)
  case 0
  then show ?case by simp
next
  case (Suc k)
  then have "n div 10 < 10 ^ k" by (simp add: less_mult_imp_div_less mult.commute)
  from Suc.IH [OF this] show ?case by (subst decs.simps) simp
qed

subsection \<open>Reading decimal text\<close>

lemma halves_10: "halves 10 = [10, 0]"
  by (simp add: halves_def word_unat_eq_iff unsigned_drop_bit_eq)

lemma ten_ok: "int_norm ten" "int_abs ten = 10" "int_val ten = 10" "i_d ten = 1"
  by (simp_all add: ten_def int_norm_def int_store_def int_abs_def int_val_def halves_10)

lemma int_mul_neg: "int_mul a b r = Some r' \<Longrightarrow> i_neg r' \<longleftrightarrow> i_neg a \<noteq> i_neg b"
  by (auto simp: int_mul_def split: bind_splits)

lemma sint_small_digit: "d < 10 \<Longrightarrow> sint (word_of_int (int d) :: u64) = int d"
  using sint_small_u64 [of "word_of_nat d"] by (simp add: unat_of_nat)

lemma int_set_digit:
  assumes "int_store digit" "i_m digit = 2" "48 \<le> (of_char c :: nat)" "(of_char c :: nat) < 58"
  defines "r \<equiv> int_set_i (word_of_int (int (of_char c) - 48)) digit"
  shows "int_ok r" "int_val r = int (of_char c - 48)" "i_m r = 2" "\<not> i_neg r"
proof -
  have e: "int (of_char c) - 48 = int (of_char c - 48)" using assms(3) by simp
  have s: "sint (word_of_int (int (of_char c) - 48) :: u64) = int (of_char c - 48)"
    unfolding e using assms(3,4) by (intro sint_small_digit) simp
  have "fits (i_m digit) (sint (word_of_int (int (of_char c) - 48) :: u64))"
    unfolding s using assms(2,4) by (simp add: fits_def)
  from int_set_i_correct [OF assms(1) this] s show "int_ok r" "int_val r = int (of_char c - 48)" by (simp_all add: r_def)
  show "i_m r = 2" "\<not> i_neg r" using assms(2) s by (simp_all add: r_def)
qed

lemma int_set_s_loop_correct:
  assumes "all_digits s" "int_ok i" "\<not> i_neg i" "int_abs i = v" "undec v s < base ^ i_m i"
    "int_store digit" "i_m digit = 2" "int_store acc" "i_m acc = 254"
  shows "\<exists>r. int_set_s_loop s digit acc i = Some r \<and> int_ok r \<and> \<not> i_neg r \<and> int_abs r = undec v s \<and> i_m r = i_m i"
  using assms
proof (induction s arbitrary: digit acc i v)
  case Nil
  then show ?case by (simp add: undec_def)
next
  case (Cons c s)
  let ?d = "of_char c - 48 :: nat"
  have c: "48 \<le> (of_char c :: nat)" "(of_char c :: nat) < 58" "all_digits s"
    using Cons.prems(1) by (auto simp: all_digits_def)
  have i: "int_norm i" "int_store i" "i_m i \<le> 254" "i_d i \<le> 254" "\<not> i_overflow i"
    using Cons.prems(2) int_norm_d [of i] by (auto simp: int_ok_iff int_norm_def)
  define digit1 where "digit1 = int_set_i (word_of_int (int (of_char c) - 48)) digit"
  note dg = int_set_digit [OF Cons.prems(6,7) c(1,2), folded digit1_def]
  have "(v * 10 + ?d) * 1 \<le> (v * 10 + ?d) * 10 ^ length s" by (intro mult_le_mono2) simp
  also have "\<dots> \<le> undec (v * 10 + ?d) s" by (rule undec_ge)
  also have "\<dots> < base ^ i_m i" using Cons.prems(5) by (simp add: undec_def)
  finally have fit: "v * 10 + ?d < base ^ i_m i" by simp
  moreover have "base ^ i_m i \<le> base ^ i_m acc" unfolding base_pow_le_iff using i Cons.prems(9) by simp
  ultimately have "10 * v < base ^ i_m acc" by linarith
  then have prod: "int_abs ten * int_abs i < base ^ i_m acc" using Cons.prems(4) ten_ok by simp
  have nz: "int_val ten \<noteq> 0 \<and> int_val i \<noteq> 0 \<or> i_d ten + i_d i \<le> i_m acc + 1" using ten_ok i Cons.prems(9) by simp
  obtain acc1 where acc1: "int_mul ten i acc = Some acc1" "int_ok acc1" "i_m acc1 = i_m acc"
    "int_val acc1 = int_val ten * int_val i"
    by (rule int_mul_correct [OF ten_ok(1) i(1) Cons.prems(8) prod nz]) blast
  have val: "int_val acc1 + int_val digit1 = int (v * 10 + ?d)"
    using acc1(4) ten_ok(3) dg(2) Cons.prems(3,4) by (simp add: int_val_def)
  then have "fits (i_m i) (int_val acc1 + int_val digit1)" using fit by (simp only: fits_def)
  from int_add_correct [OF int_ok_norm [OF acc1(2)] int_ok_norm [OF dg(1)] i(2) this]
  have add: "int_ok (int_add acc1 digit1 i)" "int_val (int_add acc1 digit1 i) = int (v * 10 + ?d)"
    using val i(5) by (auto simp: int_ok_iff)
  have nneg: "\<not> i_neg acc1" "\<not> i_neg digit1"
    using int_mul_neg [OF acc1(1)] dg(4) Cons.prems(3) by (simp_all add: ten_def)
  then have "\<not> i_neg (int_add acc1 digit1 i)" by (simp add: int_add_def)
  then have abs: "int_abs (int_add acc1 digit1 i) = v * 10 + ?d" using add(2) by (simp only: int_val_def of_nat_eq_iff if_False)
  have step: "int_set_s_loop (c # s) digit acc i = int_set_s_loop s digit1 acc1 (int_add acc1 digit1 i)"
    "undec v (c # s) = undec (v * 10 + ?d) s"
    using acc1(1) by (simp_all add: Let_def digit1_def undec_def)
  show ?case
    using Cons.IH [OF c(3) add(1) \<open>\<not> i_neg (int_add acc1 digit1 i)\<close> abs _ _ dg(3) _ , of acc1]
      Cons.prems(5,9) acc1(2,3) dg(1) unfolding step by (simp add: int_ok_def)
qed

lemma int_set_s_correct:
  assumes i: "int_store i" and s: "all_digits s" and fit: "undec 0 s < base ^ i_m i"
  obtains r r' where "int_set_s s i = Some r" "int_ok r" "int_val r = int (undec 0 s)" "i_m r = i_m i"
    "int_set_s (CHR ''-'' # s) i = Some r'" "int_ok r'" "int_val r' = - int (undec 0 s)" "i_m r' = i_m i"
proof -
  have z: "int_ok (int_init i)" "\<not> i_neg (int_init i)" "int_abs (int_init i) = 0"
    using int_init_correct [OF i] by (auto simp: int_val_def)
  have two: "int_store int_init_concrete2" "i_m int_init_concrete2 = 2"
    using int_init_concrete_ok [of 2] by (auto simp: int_init_concrete2_def int_ok_def)
  from int_set_s_loop_correct [OF s z _ two, of int_init_concrete254] fit
  obtain r where r: "int_set_s_loop s int_init_concrete2 int_init_concrete254 (int_init i) = Some r" "int_ok r"
    "\<not> i_neg r" "int_abs r = undec 0 s" "i_m r = i_m i" by auto
  have "\<not> (s \<noteq> [] \<and> hd s = CHR ''-'')" using s by (cases s) (auto simp: all_digits_def)
  then have "int_set_s s i = Some (r\<lparr>i_neg := False\<rparr>)"
    using r by (auto simp: int_set_s_def)
  moreover have "int_set_s (CHR ''-'' # s) i = Some (r\<lparr>i_neg := True\<rparr>)"
    using r by (simp add: int_set_s_def)
  ultimately show ?thesis
    using that [of "r\<lparr>i_neg := False\<rparr>" "r\<lparr>i_neg := True\<rparr>"] r by (simp add: int_ok_iff int_val_def)
qed

text \<open>The macro leaves room for every numeral of the given length.\<close>

lemma pow_ratio:
  fixes b :: nat
  assumes k: "10 ^ q \<le> b ^ p" and le: "p * L \<le> q * d" and pos: "0 < q" "1 < b"
  shows "10 ^ L \<le> b ^ d"
proof -
  have "(10 ^ L) ^ q = ((10 :: nat) ^ q) ^ L" by (simp add: mult.commute flip: power_mult)
  also have "\<dots> \<le> (b ^ p) ^ L" using k by (rule power_mono) simp
  also have "\<dots> = b ^ (p * L)" by (simp only: power_mult)
  also have "\<dots> \<le> b ^ (q * d)" using le pos(2) by (simp add: power_increasing_iff)
  also have "\<dots> = (b ^ d) ^ q" by (simp add: mult.commute flip: power_mult)
  finally show ?thesis using pos(1) by (simp add: power_mono_iff)
qed

text \<open>
  Bounds on powers of five by repeated squaring, the mantissa rounded up to thirty bits, which
  keeps the numerals small.
\<close>

lemma pow5_even:
  "(5 :: nat) ^ n \<le> m * 2 ^ e \<Longrightarrow> m * m \<le> m' * 2 ^ s \<Longrightarrow> n' = 2 * n \<Longrightarrow> e' = 2 * e + s \<Longrightarrow> 5 ^ n' \<le> m' * 2 ^ e'"
proof -
  assume a: "(5 :: nat) ^ n \<le> m * 2 ^ e" "m * m \<le> m' * 2 ^ s" "n' = 2 * n" "e' = 2 * e + s"
  have "(5 :: nat) ^ n' = 5 ^ n * 5 ^ n" by (simp add: a mult_2 power_add)
  also have "\<dots> \<le> m * 2 ^ e * (m * 2 ^ e)" using a(1) by (intro mult_le_mono)
  also have "\<dots> = m * m * 2 ^ (2 * e)" by (simp add: mult_2 power_add)
  also have "\<dots> \<le> m' * 2 ^ s * 2 ^ (2 * e)" using a(2) by (rule mult_le_mono1)
  finally show ?thesis by (simp add: a power_add mult.assoc mult.left_commute mult.commute)
qed

lemma pow5_odd:
  "(5 :: nat) ^ n \<le> m * 2 ^ e \<Longrightarrow> 5 * (m * m) \<le> m' * 2 ^ s \<Longrightarrow> n' = 2 * n + 1 \<Longrightarrow> e' = 2 * e + s \<Longrightarrow> 5 ^ n' \<le> m' * 2 ^ e'"
proof -
  assume a: "(5 :: nat) ^ n \<le> m * 2 ^ e" "5 * (m * m) \<le> m' * 2 ^ s" "n' = 2 * n + 1" "e' = 2 * e + s"
  have "(5 :: nat) ^ n' = 5 * 5 ^ (2 * n)" by (simp add: a)
  also have "\<dots> \<le> 5 * (m * m * 2 ^ (2 * e))"
    using pow5_even [OF a(1), of "m * m" 0, OF _ refl refl] by simp
  also have "\<dots> \<le> m' * 2 ^ s * 2 ^ (2 * e)"
    using mult_le_mono1 [OF a(2), of "2 ^ (2 * e)"] by (simp only: mult.assoc)
  finally show ?thesis by (simp add: a power_add mult.assoc mult.left_commute mult.commute)
qed

lemma pow10_base:
  assumes "(5 :: nat) ^ q \<le> m * 2 ^ e" "m \<le> 2 ^ t" "q + (t + e) \<le> 16 * p"
  shows "10 ^ q \<le> base ^ p"
proof -
  have "(10 :: nat) ^ q = 2 ^ q * 5 ^ q" by (simp flip: power_mult_distrib)
  also have "\<dots> \<le> 2 ^ q * (2 ^ t * 2 ^ e)"
    using assms(1,2) by (intro mult_le_mono2) (meson mult_le_mono1 order_trans)
  also have "\<dots> = 2 ^ (q + (t + e))" by (simp add: power_add)
  also have "\<dots> \<le> 2 ^ (16 * p)" using assms(3) by simp
  also have "\<dots> = base ^ p" by (simp add: power_mult)
  finally show ?thesis .
qed

lemma pow10_1286: "10 ^ 1286 \<le> base ^ 267"
proof -
  have p1: "(5 :: nat) ^ 1 \<le> 5 * 2 ^ 0" by simp
  have p2: "(5 :: nat) ^ 2 \<le> 25 * 2 ^ 0" by (rule pow5_even [OF p1, where s = 0]) simp_all
  have p5: "(5 :: nat) ^ 5 \<le> 3125 * 2 ^ 0" by (rule pow5_odd [OF p2, where s = 0]) simp_all
  have p10: "(5 :: nat) ^ 10 \<le> 9765625 * 2 ^ 0" by (rule pow5_even [OF p5, where s = 0]) simp_all
  have p20: "(5 :: nat) ^ 20 \<le> 727595762 * 2 ^ 17" by (rule pow5_even [OF p10, where s = 17]) simp_all
  have p40: "(5 :: nat) ^ 40 \<le> 986076134 * 2 ^ 63" by (rule pow5_even [OF p20, where s = 29]) simp_all
  have p80: "(5 :: nat) ^ 80 \<le> 905567913 * 2 ^ 156" by (rule pow5_even [OF p40, where s = 30]) simp_all
  have p160: "(5 :: nat) ^ 160 \<le> 763734100 * 2 ^ 342" by (rule pow5_even [OF p80, where s = 30]) simp_all
  have p321: "(5 :: nat) ^ 321 \<le> 679038670 * 2 ^ 716" by (rule pow5_odd [OF p160, where s = 32]) simp_all
  have p643: "(5 :: nat) ^ 643 \<le> 1073567000 * 2 ^ 1463" by (rule pow5_odd [OF p321, where s = 31]) simp_all
  have p1286: "(5 :: nat) ^ 1286 \<le> 1073392205 * 2 ^ 2956" by (rule pow5_even [OF p643, where s = 30]) simp_all
  show ?thesis by (rule pow10_base [OF p1286, where t = 30]) simp_all
qed

lemma INT_DIGITS_FOR_S_enough: "10 ^ L \<le> base ^ INT_DIGITS_FOR_S L"
proof (rule pow_ratio)
  let ?d = "INT_DIGITS_FOR_S L"
  have "1651125 * ?d + (1651124 + L * 342808) mod 1651125 = 1651124 + L * 342808"
    unfolding INT_DIGITS_FOR_S_def by (rule mult_div_mod_eq)
  moreover have "(1651124 + L * 342808) mod 1651125 < 1651125" by (rule mod_less_divisor) simp
  ultimately have "L * 342808 \<le> ?d * 1651125" by linarith
  then show "267 * L \<le> 1286 * ?d" by linarith
  show "(10 :: nat) ^ 1286 \<le> base ^ 267" by (rule pow10_1286)
qed simp_all

subsection \<open>Writing decimal text\<close>

text \<open>The last \<open>k\<close> digits, with leading zeros.\<close>

fun pad :: "nat \<Rightarrow> nat \<Rightarrow> string" where
  "pad 0 n = []"
| "pad (Suc k) n = pad k (n div 10) @ [digit_char (n mod 10)]"

lemma length_pad [simp]: "length (pad k n) = k"
  by (induction k arbitrary: n) auto

lemma pad_mod: "pad k (n mod 10 ^ k) = pad k n"
proof (induction k arbitrary: n)
  case (Suc k)
  have "n mod 10 ^ Suc k div 10 = n div 10 mod 10 ^ k" by (simp add: div_mult2_eq mod_mult2_eq)
  moreover have "n mod 10 ^ Suc k mod 10 = n mod 10" by (simp add: mod_mult2_eq)
  ultimately show ?case using Suc [of "n div 10"] by simp
qed simp

lemma decs_pad: "n div 10 ^ k \<noteq> 0 \<Longrightarrow> decs n = decs (n div 10 ^ k) @ pad k n"
proof (induction k arbitrary: n)
  case (Suc k)
  then have e: "n div 10 div 10 ^ k = n div 10 ^ Suc k" "n \<noteq> 0" by (simp add: div_mult2_eq) (use Suc.prems in \<open>cases n; simp\<close>)
  then have "decs n = decs (n div 10) @ [digit_char (n mod 10)]" by (subst decs.simps) simp
  then show ?case using Suc.IH [of "n div 10"] Suc.prems e by simp
qed simp

lemma char_of_rem: "char_of (unat (rem mod 10 + 48 :: u64)) = digit_char (unat rem mod 10)"
proof -
  have "unat (rem mod 10) = unat rem mod 10" by (simp add: unat_mod)
  then have "unat (rem mod 10 + 48 :: u64) = unat rem mod 10 + 48" by (simp add: unat_word_ariths)
  then show ?thesis by (simp add: digit_char_def add.commute)
qed

lemma int_to_s_chunk_pad:
  "k \<le> room \<Longrightarrow> int_to_s_chunk k False rem (room, out) = (room - k, pad k (unat rem) @ out)"
proof (induction k arbitrary: rem room out)
  case (Suc k)
  then show ?case by (simp add: Let_def char_of_rem unat_div)
qed simp

lemma int_to_s_chunk_lead:
  "unat rem < 10 ^ k \<Longrightarrow> length (decs (unat rem)) \<le> room \<Longrightarrow>
   int_to_s_chunk k True rem (room, out) = (room - length (decs (unat rem)), decs (unat rem) @ out)"
proof (induction k arbitrary: rem room out)
  case 0
  then show ?case by (simp add: decs.simps)
next
  case (Suc k)
  show ?case
  proof (cases "rem = 0")
    case True
    have "int_to_s_chunk k True 0 (room, out) = (room, out)" for k by (induction k) (auto simp: Let_def)
    then show ?thesis using True by (auto simp: decs.simps Let_def)
  next
    case False
    have div: "unat (rem div 10) = unat rem div 10" by (simp add: unat_div)
    have d: "decs (unat rem) = decs (unat rem div 10) @ [digit_char (unat rem mod 10)]"
      using False by (subst decs.simps) (simp add: unat_eq_0)
    have "unat rem div 10 < 10 ^ k" using Suc.prems(1) by (simp add: less_mult_imp_div_less mult.commute)
    then show ?thesis
      using Suc.IH [of "rem div 10" "room - 1" "digit_char (unat rem mod 10) # out"] Suc.prems(2) False
      by (simp add: Let_def char_of_rem div d)
  qed
qed

lemma halves_ten19: "halves 2313682944 @ halves 2328306436 = [0, 35304, 8964, 35527]"
  by (simp add: halves_def word_unat_eq_iff unsigned_drop_bit_eq)

lemma ten19_ok: "int_norm tenToTheNineteen" "int_abs tenToTheNineteen = 10 ^ 19"
  "int_val tenToTheNineteen = 10 ^ 19" "i_d tenToTheNineteen = 4"
  by (simp_all add: tenToTheNineteen_def halves_ten19 int_norm_def int_store_def int_abs_def int_val_def)

lemma int_abs_nat: "0 \<le> int_val i \<Longrightarrow> int_abs i = nat (int_val i)"
  by (auto simp: int_val_def split: if_splits)

text \<open>One division of the printing loop.\<close>

lemma int_div_ten19:
  assumes v: "int_ok v" "0 \<le> int_val v" "i_m v = 254" and r: "int_store r" "\<not> i_overflow r" "i_m r = 4"
  obtains v1 r1 where "int_div v tenToTheNineteen v (Some r) = Some (v1, Some r1)"
    "int_ok v1" "0 \<le> int_val v1" "i_m v1 = 254" "int_abs v1 = int_abs v div 10 ^ 19"
    "int_store r1" "\<not> i_overflow r1" "i_m r1 = 4" "unat (FourDigits r1) = int_abs v mod 10 ^ 19"
proof -
  have vs: "int_store v" "int_norm v" using v(1) by (auto simp: int_ok_iff int_norm_def)
  have nz: "int_val tenToTheNineteen \<noteq> 0" using ten19_ok by simp
  have "int_abs v < base ^ i_m v"
    using int_abs_less [OF vs(2)] int_norm_d [OF vs(2)] by (meson base_pow_le_iff order_less_le_trans)
  then have fit: "int_abs v div int_abs tenToTheNineteen < base ^ i_m v"
    by (meson div_le_dividend order_le_less_trans)
  have ro: "rem_room v tenToTheNineteen (Some r)"
    using r ten19_ok by (simp add: rem_room_def)
  obtain v1 ro' where d: "int_div v tenToTheNineteen v (Some r) = Some (v1, ro')"
    "div_result v tenToTheNineteen v (Some r) v1 ro'"
    by (rule int_div_correct [OF v(1) ten19_ok(1) nz vs(1) fit ro])
  then obtain r1 where r1: "ro' = Some r1" "int_ok r1" "i_m r1 = 4" "int_val r1 = yarg_mod (int_val v) (10 ^ 19)"
    and v1: "int_ok v1" "i_m v1 = 254" "int_val v1 = int_val v sdiv 10 ^ 19"
    using r v ten19_ok by (auto simp: div_result_def split: option.splits)
  have q: "int_val v1 = int_val v div 10 ^ 19" "int_val r1 = int_val v mod 10 ^ 19"
    using v(2) v1(3) r1(4) by (auto simp: signed_divide_int_def signed_modulo_int_def yarg_mod_def sgn_if int_abs_nat)
  have abs: "int_abs v1 = int_abs v div 10 ^ 19" "int_abs r1 = int_abs v mod 10 ^ 19"
    using q v(2) by (simp_all add: int_abs_nat nat_div_distrib nat_mod_distrib)
  have "unat (FourDigits r1) = int_abs r1"
    using r1(2,3) int_norm_d [of r1] by (intro FourDigits_correct) (auto simp: int_ok_iff)
  then show ?thesis
    using that [of v1 r1] d r1 v1 q v abs by (auto simp: int_ok_def int_invariant_def)
qed

lemma int_to_s_loop_correct:
  assumes "int_ok v" "0 \<le> int_val v" "i_m v = 254" "int_store r" "\<not> i_overflow r" "i_m r = 4"
    "length (decs (int_abs v)) \<le> room"
  shows "int_to_s_loop v r (room, out) = Some (room - length (decs (int_abs v)), decs (int_abs v) @ out)"
  using assms
proof (induction "int_abs v" arbitrary: v r room out rule: less_induct)
  case less
  show ?case
  proof (cases "int_abs v = 0")
    case True
    then have "int_is_zero v" using int_is_zero_iff [of v] less.prems(1) by auto
    then show ?thesis using True by (subst int_to_s_loop.simps) simp
  next
    case False
    then have nz: "\<not> int_is_zero v" using int_is_zero_iff [of v] less.prems(1) by auto
    obtain v1 r1 where d: "int_div v tenToTheNineteen v (Some r) = Some (v1, Some r1)"
      "int_ok v1" "0 \<le> int_val v1" "i_m v1 = 254" "int_abs v1 = int_abs v div 10 ^ 19"
      "int_store r1" "\<not> i_overflow r1" "i_m r1 = 4" "unat (FourDigits r1) = int_abs v mod 10 ^ 19"
      by (rule int_div_ten19 [OF less.prems(1-6)])
    have step: "int_to_s_loop v r (room, out) =
        int_to_s_loop v1 r1 (int_to_s_chunk 19 (int_is_zero v1) (FourDigits r1) (room, out))"
      using nz d by (subst int_to_s_loop.simps) simp
    have z: "int_is_zero v1 \<longleftrightarrow> int_abs v1 = 0" using int_is_zero_iff [of v1] d(2) by auto
    have lt: "int_abs v1 < int_abs v" using False d(5) by simp
    note IH = less.hyps [OF lt d(2-4,6-8)]
    show ?thesis
    proof (cases "int_abs v1 = 0")
      case True
      then have small: "int_abs v < 10 ^ 19" using d(5) by (simp add: div_eq_0_iff)
      then have u: "unat (FourDigits r1) = int_abs v" using d(9) by simp
      have "int_to_s_chunk 19 True (FourDigits r1) (room, out)
          = (room - length (decs (int_abs v)), decs (int_abs v) @ out)"
        using int_to_s_chunk_lead [of "FourDigits r1" 19 room out] small less.prems(7) unfolding u by simp
      then show ?thesis using step z True IH [of "room - length (decs (int_abs v))" "decs (int_abs v) @ out"]
        by simp
    next
      case f: False
      then have dc: "decs (int_abs v) = decs (int_abs v1) @ pad 19 (int_abs v)"
        using decs_pad [of "int_abs v" 19] d(5) by simp
      have p: "pad 19 (unat (FourDigits r1)) = pad 19 (int_abs v)" unfolding d(9) by (rule pad_mod)
      have "19 \<le> room" using less.prems(7) dc by simp
      then have "int_to_s_chunk 19 False (FourDigits r1) (room, out) = (room - 19, pad 19 (int_abs v) @ out)"
        using int_to_s_chunk_pad [of 19 room "FourDigits r1" out] p by simp
      moreover have "length (decs (int_abs v1)) \<le> room - 19" using less.prems(7) dc by simp
      ultimately show ?thesis using step z f IH [of "room - 19" "pad 19 (int_abs v) @ out"] dc by simp
    qed
  qed
qed

lemma int_to_s_correct:
  assumes i: "int_ok i" and n: "length (dec_int (int_val i)) < n"
  shows "int_to_s i n = Some (dec_int (int_val i))"
proof -
  have norm: "int_norm i" using i by auto
  obtain v where v: "int_set_t i int_init_concrete254 = Some v" "int_norm v" "int_abs v = int_abs i"
    "i_m v = 254" "i_overflow v = i_overflow i"
    by (rule int_set_t_correct [OF norm, of int_init_concrete254]) (use int_norm_d [OF norm] in auto)
  let ?v = "v\<lparr>i_neg := False\<rparr>"
  have vv: "int_ok ?v" "0 \<le> int_val ?v" "i_m ?v = 254" "int_abs ?v = int_abs i"
    using v i by (auto simp: int_ok_iff int_val_def)
  have four: "int_store int_init_concrete4" "\<not> i_overflow int_init_concrete4" "i_m int_init_concrete4 = 4"
    using int_init_concrete_ok [of 4] by (auto simp: int_init_concrete4_def int_ok_iff int_norm_def)
  let ?d = "decs (int_abs i)"
  have len: "length ?d < n" "?d = [] \<Longrightarrow> 1 < n" "i_neg i \<Longrightarrow> ?d \<noteq> [] \<Longrightarrow> length ?d + 1 < n"
    using n by (auto simp: dec_int_def int_val_def dec_def split: if_splits)
  have "int_to_s_loop ?v int_init_concrete4 (n - 1, []) = Some (n - 1 - length ?d, ?d)"
    using int_to_s_loop_correct [OF vv(1-3) four, of "n - 1" "[]"] vv(4) len(1) by simp
  moreover have "?d = [] \<longleftrightarrow> int_abs i = 0" by simp
  ultimately show ?thesis
    using v(1) len by (cases "int_abs i = 0"; cases "i_neg i") (simp_all add: int_to_s_def dec_int_def dec_def int_val_def)
qed

lemma base_pow10:
  assumes "(2 :: nat) ^ a \<le> 5 ^ b" "(2 :: nat) ^ c \<le> 5 ^ d" "16 * p \<le> n + (a * k + c)" "n = b * k + d"
  shows "base ^ p \<le> 10 ^ n"
proof -
  have "(2 :: nat) ^ (a * k + c) \<le> 5 ^ n"
    unfolding assms(4) power_add power_mult by (intro mult_le_mono power_mono assms(1,2)) simp
  then have f: "(2 :: nat) ^ n * 2 ^ (a * k + c) \<le> 2 ^ n * 5 ^ n" by (rule mult_le_mono2)
  have "base ^ p = 2 ^ (16 * p)" by (simp add: power_mult)
  also have "\<dots> \<le> 2 ^ (n + (a * k + c))" using assms(3) by simp
  also have "\<dots> \<le> 2 ^ n * 5 ^ n" using f by (simp only: power_add)
  also have "\<dots> = 10 ^ n" by (simp flip: power_mult_distrib)
  finally show ?thesis .
qed

lemma base254_less: "base ^ 254 \<le> 10 ^ 1224"
  by (rule base_pow10 [where a = 65 and b = 28 and k = 43 and c = 46 and d = 20]) simp_all

lemma int_to_s_254:
  assumes i: "int_ok i"
  shows "int_to_s i INT_STRLEN_FOR_INT254 = Some (dec_int (int_val i))"
proof (rule int_to_s_correct [OF i])
  have norm: "int_norm i" using i by auto
  have "int_abs i < base ^ i_d i" by (rule int_abs_less [OF norm])
  also have "\<dots> \<le> base ^ 254" unfolding base_pow_le_iff using int_norm_d [OF norm] by simp
  also note base254_less
  finally have "length (decs (int_abs i)) \<le> 1224" by (rule length_decs_le)
  then show "length (dec_int (int_val i)) < INT_STRLEN_FOR_INT254"
    by (auto simp: INT_STRLEN_FOR_INT254_def dec_int_def dec_def int_val_def)
qed

text \<open>Printing and reading back.\<close>

lemma int_set_s_dec_int:
  assumes "int_store i" "nat \<bar>v\<bar> < base ^ i_m i"
  obtains r where "int_set_s (dec_int v) i = Some r" "int_ok r" "int_val r = v" "i_m r = i_m i"
proof -
  from assms(2) have "undec 0 (dec (nat \<bar>v\<bar>)) < base ^ i_m i" by (simp add: undec_dec)
  then obtain r r' where "int_set_s (dec (nat \<bar>v\<bar>)) i = Some r" "int_ok r" "int_val r = int (undec 0 (dec (nat \<bar>v\<bar>)))" "i_m r = i_m i"
    "int_set_s (CHR ''-'' # dec (nat \<bar>v\<bar>)) i = Some r'" "int_ok r'" "int_val r' = - int (undec 0 (dec (nat \<bar>v\<bar>)))" "i_m r' = i_m i"
    by (rule int_set_s_correct [OF assms(1) all_digits_dec])
  then show ?thesis using that [of r] that [of r'] by (cases "v < 0") (simp_all add: dec_int_def undec_dec)
qed

end
