(* ===== verification/IntOps.thy ===== *)
theory IntOps
  imports BigInt_Text
begin

section \<open>Integer operators of the virtual machine (\<^verbatim>\<open>src/cyarg/vm.c\<close>)\<close>

text \<open>
  The operators on values of type \<^verbatim>\<open>int\<close>: \<^verbatim>\<open>unaryIntOp\<close>, \<^verbatim>\<open>binaryIntOp\<close> and
  \<^verbatim>\<open>binaryIntBoolOp\<close>, with the allocation of a result value by \<^verbatim>\<open>allocateIntValue\<close>. They
  are functions of the operands popped from the stack; a failed assertion is \<open>None\<close>.

  The interface between the operators and the big-integer component is the locale
  \<open>sized_ints\<close>: what the arithmetic promises for a destination of a given number of digits.
  The lemmas of the locale show that the number of digits the operators allocate is enough.
\<close>

subsection \<open>Definitions\<close>

text \<open>
  \<^verbatim>\<open>allocateIntValue\<close> keeps up to two digits in the value itself and allocates an object
  for more; \<^verbatim>\<open>allocateIntObject\<close> rounds the number of digits up to an even one. The
  uninitialised fields of a new object are those of \<open>int_init\<close> once the caller has called it.
\<close>

definition allocateIntObject :: "nat \<Rightarrow> Int_struct option" where
  "allocateIntObject numDigits =
     (let n = numDigits + numDigits mod 2
      in if n \<le> 254 \<and> n \<ge> 2
         then Some \<lparr>i_neg = False, i_overflow = False, i_obj = True, i_literal = False, i_d = 0,
                    i_m = n, i_h = replicate n 0\<rparr>
         else None)"

definition allocateIntValue :: "nat \<Rightarrow> Int_struct option" where
  "allocateIntValue numDigits =
     (if numDigits > 2 then allocateIntObject numDigits else Some int_init_concrete2)"

definition unaryIntOp :: "Int_struct \<Rightarrow> Int_struct option" where
  "unaryIntOp a = do {
     negI \<leftarrow> allocateIntValue (i_d a);
     negI1 \<leftarrow> int_set_t a negI;
     Some (int_neg negI1)
   }"

datatype int_op = OpAdd | OpSub | OpMul | OpDiv | OpMod

definition binaryIntOp_size :: "int_op \<Rightarrow> Int_struct \<Rightarrow> Int_struct \<Rightarrow> nat" where
  "binaryIntOp_size c a b =
     (let s = (case c of
                 OpAdd \<Rightarrow> 1 + (if i_d a > i_d b then i_d a else i_d b)
               | OpSub \<Rightarrow> 1 + (if i_d a > i_d b then i_d a else i_d b)
               | OpMul \<Rightarrow> i_d a + i_d b
               | OpDiv \<Rightarrow> i_d a
               | OpMod \<Rightarrow>
                   (let s = (if i_d a > i_d b then i_d b else i_d a)
                    in if \<not> int_is_zero a \<and> opposite_signs a b
                       then 1 + (if s > i_d b then s else i_d b) else s))
      in if s > 254 then 254 else s)"

definition binaryIntOp :: "int_op \<Rightarrow> Int_struct \<Rightarrow> Int_struct \<Rightarrow> Int_struct option" where
  "binaryIntOp c a b = do {
     r \<leftarrow> allocateIntValue (binaryIntOp_size c a b);
     let i = int_init r;
     case c of
       OpAdd \<Rightarrow> Some (int_add a b i)
     | OpSub \<Rightarrow> Some (int_sub a b i)
     | OpMul \<Rightarrow> int_mul a b i
     | OpDiv \<Rightarrow> map_option fst (int_div a b i None)
     | OpMod \<Rightarrow> Option.bind (int_div a b int_init_concrete254 (Some i)) snd
   }"

datatype int_bool_op = OpLess | OpGreater | OpEqual

definition binaryIntBoolOp :: "int_bool_op \<Rightarrow> Int_struct \<Rightarrow> Int_struct \<Rightarrow> bool" where
  "binaryIntBoolOp opr a b =
     (let ic = int_is a b
      in case opr of
           OpLess \<Rightarrow> ic = INT_LT
         | OpGreater \<Rightarrow> ic = INT_GT
         | OpEqual \<Rightarrow> ic = INT_EQ)"

subsection \<open>The interface to the arithmetic\<close>

lemma abs_sdiv: "\<bar>a sdiv b :: int\<bar> = \<bar>a\<bar> div \<bar>b\<bar>"
proof -
  have "0 \<le> \<bar>a\<bar> div \<bar>b\<bar>" by (cases "b = 0") (simp_all add: pos_imp_zdiv_nonneg_iff)
  then show ?thesis by (auto simp: signed_divide_int_def abs_mult abs_sgn_eq)
qed

text \<open>
  What a client of sized integers relies on: \<open>digits\<close> bounds the magnitude of a value, and an
  operation into a destination of \<open>s\<close> digits is exact when the result has at most \<open>s\<close>
  digits. \<open>lim\<close> is the largest number of digits that can be allocated.
\<close>

locale sized_ints =
  fixes B :: nat and lim :: nat and good :: "'i \<Rightarrow> bool" and vl :: "'i \<Rightarrow> int" and digits :: "'i \<Rightarrow> nat"
    and sum difference product quotient :: "'i \<Rightarrow> 'i \<Rightarrow> nat \<Rightarrow> 'i option"
  assumes B_gt: "1 < B"
    and digits_pos: "good a \<Longrightarrow> 1 \<le> digits a"
    and digits_lim: "good a \<Longrightarrow> digits a \<le> lim"
    and digits_ge: "good a \<Longrightarrow> digits a = 1 \<or> int (B ^ (digits a - 1)) \<le> \<bar>vl a\<bar>"
    and digits_le: "good a \<Longrightarrow> \<bar>vl a\<bar> < int (B ^ digits a)"
    and sum_law: "good a \<Longrightarrow> good b \<Longrightarrow> 1 \<le> s \<Longrightarrow> s \<le> lim \<Longrightarrow> \<bar>vl a + vl b\<bar> < int (B ^ s) \<Longrightarrow>
      \<exists>r. sum a b s = Some r \<and> good r \<and> vl r = vl a + vl b"
    and difference_law: "good a \<Longrightarrow> good b \<Longrightarrow> 1 \<le> s \<Longrightarrow> s \<le> lim \<Longrightarrow> \<bar>vl a - vl b\<bar> < int (B ^ s) \<Longrightarrow>
      \<exists>r. difference a b s = Some r \<and> good r \<and> vl r = vl a - vl b"
    and product_law: "good a \<Longrightarrow> good b \<Longrightarrow> digits a + digits b \<le> s + 1 \<Longrightarrow> s \<le> lim \<Longrightarrow>
      \<bar>vl a * vl b\<bar> < int (B ^ s) \<Longrightarrow> \<exists>r. product a b s = Some r \<and> good r \<and> vl r = vl a * vl b"
    and quotient_law: "good a \<Longrightarrow> good b \<Longrightarrow> vl b \<noteq> 0 \<Longrightarrow> 1 \<le> s \<Longrightarrow> s \<le> lim \<Longrightarrow>
      \<bar>vl a sdiv vl b\<bar> < int (B ^ s) \<Longrightarrow> \<exists>r. quotient a b s = Some r \<and> good r \<and> vl r = vl a sdiv vl b"
begin

lemma pow_le_max: "B ^ x \<le> B ^ max x y" "B ^ y \<le> B ^ max x y"
  using B_gt by (auto intro: power_increasing)

lemma two_pow: "2 * B ^ n \<le> B ^ (1 + n)"
  using B_gt by (simp add: mult_le_mono1)

lemma abs_less_max:
  assumes "good a" "good b"
  shows "\<bar>vl a\<bar> < int (B ^ max (digits a) (digits b))" "\<bar>vl b\<bar> < int (B ^ max (digits a) (digits b))"
proof -
  have "int (B ^ digits a) \<le> int (B ^ max (digits a) (digits b))" "int (B ^ digits b) \<le> int (B ^ max (digits a) (digits b))"
    using pow_le_max by (simp_all only: of_nat_le_iff)
  then show "\<bar>vl a\<bar> < int (B ^ max (digits a) (digits b))" "\<bar>vl b\<bar> < int (B ^ max (digits a) (digits b))"
    using digits_le [OF assms(1)] digits_le [OF assms(2)] by linarith+
qed

lemma sum_fits:
  assumes "good a" "good b" "1 + max (digits a) (digits b) \<le> lim"
  shows "\<exists>r. sum a b (1 + max (digits a) (digits b)) = Some r \<and> good r \<and> vl r = vl a + vl b"
proof (rule sum_law [OF assms(1,2) _ assms(3)])
  have "int (2 * B ^ max (digits a) (digits b)) \<le> int (B ^ (1 + max (digits a) (digits b)))"
    using two_pow by (simp only: of_nat_le_iff)
  then show "\<bar>vl a + vl b\<bar> < int (B ^ (1 + max (digits a) (digits b)))"
    using abs_less_max [OF assms(1,2)] by linarith
qed simp

lemma difference_fits:
  assumes "good a" "good b" "1 + max (digits a) (digits b) \<le> lim"
  shows "\<exists>r. difference a b (1 + max (digits a) (digits b)) = Some r \<and> good r \<and> vl r = vl a - vl b"
proof (rule difference_law [OF assms(1,2) _ assms(3)])
  have "int (2 * B ^ max (digits a) (digits b)) \<le> int (B ^ (1 + max (digits a) (digits b)))"
    using two_pow by (simp only: of_nat_le_iff)
  then show "\<bar>vl a - vl b\<bar> < int (B ^ (1 + max (digits a) (digits b)))"
    using abs_less_max [OF assms(1,2)] by linarith
qed simp

lemma product_fits:
  assumes "good a" "good b" "digits a + digits b \<le> lim"
  shows "\<exists>r. product a b (digits a + digits b) = Some r \<and> good r \<and> vl r = vl a * vl b"
proof (rule product_law [OF assms(1,2) _ assms(3)])
  have "\<bar>vl a\<bar> * \<bar>vl b\<bar> < int (B ^ digits a) * int (B ^ digits b)"
    using digits_le [OF assms(1)] digits_le [OF assms(2)] by (intro mult_strict_mono') simp_all
  then show "\<bar>vl a * vl b\<bar> < int (B ^ (digits a + digits b))" by (simp add: abs_mult power_add)
qed simp

text \<open>The same with the size capped at the limit, when the result has at most that many digits.\<close>

lemma lim_pos: "good a \<Longrightarrow> 1 \<le> lim"
  using digits_pos digits_lim by (meson order_trans)

lemma sum_capped:
  assumes "good a" "good b" "\<bar>vl a + vl b\<bar> < int (B ^ lim)"
  shows "\<exists>r. sum a b (min lim (1 + max (digits a) (digits b))) = Some r \<and> good r \<and> vl r = vl a + vl b"
  using sum_fits [OF assms(1,2)] sum_law [OF assms(1,2) lim_pos [OF assms(1)] order_refl assms(3)]
  by (cases "1 + max (digits a) (digits b) \<le> lim") (simp_all add: min_absorb1 min_absorb2 del: max.bounded_iff)

lemma difference_capped:
  assumes "good a" "good b" "\<bar>vl a - vl b\<bar> < int (B ^ lim)"
  shows "\<exists>r. difference a b (min lim (1 + max (digits a) (digits b))) = Some r \<and> good r \<and> vl r = vl a - vl b"
  using difference_fits [OF assms(1,2)] difference_law [OF assms(1,2) lim_pos [OF assms(1)] order_refl assms(3)]
  by (cases "1 + max (digits a) (digits b) \<le> lim") (simp_all add: min_absorb1 min_absorb2 del: max.bounded_iff)

lemma product_digits:
  assumes "good a" "good b" "\<bar>vl a * vl b\<bar> < int (B ^ lim)"
  shows "digits a + digits b \<le> lim + 1"
proof (cases "digits a = 1 \<or> digits b = 1")
  case True
  then show ?thesis using digits_lim [OF assms(1)] digits_lim [OF assms(2)] by auto
next
  case False
  then have "int (B ^ (digits a - 1)) * int (B ^ (digits b - 1)) \<le> \<bar>vl a\<bar> * \<bar>vl b\<bar>"
    using digits_ge [OF assms(1)] digits_ge [OF assms(2)] by (intro mult_mono) simp_all
  also have "\<dots> < int (B ^ lim)" using assms(3) by (simp add: abs_mult)
  finally have "B ^ (digits a - 1 + (digits b - 1)) < B ^ lim"
    by (simp only: power_add of_nat_less_iff flip: of_nat_mult)
  then have "digits a - 1 + (digits b - 1) < lim" using B_gt by simp
  then show ?thesis by linarith
qed

lemma product_capped:
  assumes "good a" "good b" "\<bar>vl a * vl b\<bar> < int (B ^ lim)"
  shows "\<exists>r. product a b (min lim (digits a + digits b)) = Some r \<and> good r \<and> vl r = vl a * vl b"
  using product_fits [OF assms(1,2)]
    product_law [OF assms(1,2) product_digits [OF assms] order_refl assms(3)]
  by (cases "digits a + digits b \<le> lim") (simp_all add: min_absorb1 min_absorb2)

lemma quotient_fits:
  assumes "good a" "good b" "vl b \<noteq> 0" "digits a \<le> lim"
  shows "\<exists>r. quotient a b (digits a) = Some r \<and> good r \<and> vl r = vl a sdiv vl b"
proof (rule quotient_law [OF assms(1,2,3) digits_pos [OF assms(1)] assms(4)])
  have "\<bar>vl a\<bar> div \<bar>vl b\<bar> \<le> \<bar>vl a\<bar>" using zdiv_mono2 [of "\<bar>vl a\<bar>" 1 "\<bar>vl b\<bar>"] assms(3) by simp
  then have "\<bar>vl a sdiv vl b\<bar> \<le> \<bar>vl a\<bar>" by (simp only: abs_sdiv)
  then show "\<bar>vl a sdiv vl b\<bar> < int (B ^ digits a)" using digits_le [OF assms(1)] by linarith
qed

end

subsection \<open>The arithmetic provides the interface\<close>

lemma allocateIntValue_Some:
  assumes "1 \<le> s" "s \<le> 254"
  obtains r where "allocateIntValue s = Some r" "int_store r" "s \<le> i_m r" "int_store (int_init r)"
    "\<not> i_overflow (int_init r)"
proof (cases "s > 2")
  case True
  have n: "s + s mod 2 \<le> 254" "even (s + s mod 2)" using assms by presburger+
  show ?thesis
    by (rule that [of "\<lparr>i_neg = False, i_overflow = False, i_obj = True, i_literal = False, i_d = 0,
        i_m = s + s mod 2, i_h = replicate (s + s mod 2) 0\<rparr>"])
      (use True n in \<open>simp_all add: allocateIntValue_def allocateIntObject_def Let_def int_store_def int_init_def\<close>)
next
  case False
  have "int_ok int_init_concrete2" using int_init_concrete_ok [of 2] by (simp add: int_init_concrete2_def)
  then have "int_store int_init_concrete2" by (simp add: int_ok_def)
  then show ?thesis
    by (intro that [of int_init_concrete2])
      (use False in \<open>simp_all add: allocateIntValue_def int_init_concrete2_def int_store_def int_init_def\<close>)
qed

definition op_sized :: "(Int_struct \<Rightarrow> Int_struct \<Rightarrow> Int_struct \<Rightarrow> Int_struct option) \<Rightarrow>
    Int_struct \<Rightarrow> Int_struct \<Rightarrow> nat \<Rightarrow> Int_struct option" where
  "op_sized f a b s = Option.bind (allocateIntValue s) (\<lambda>r. f a b (int_init r))"

lemma fits_mono: "s \<le> m \<Longrightarrow> \<bar>v\<bar> < int (base ^ s) \<Longrightarrow> fits m v"
proof -
  assume "s \<le> m" "\<bar>v\<bar> < int (base ^ s)"
  moreover have "base ^ s \<le> base ^ m" unfolding base_pow_le_iff by fact
  ultimately show ?thesis unfolding fits_base by (meson of_nat_le_iff order_less_le_trans)
qed

text \<open>An operation that is exact for large enough destinations gives the law for allocated ones.\<close>

lemma op_sized_law:
  assumes s: "1 \<le> s" "s \<le> 254"
    and f: "\<And>r. int_store r \<Longrightarrow> \<not> i_overflow r \<Longrightarrow> s \<le> i_m r \<Longrightarrow> \<exists>r'. f a b r = Some r' \<and> int_ok r' \<and> int_val r' = v"
  shows "\<exists>r. op_sized f a b s = Some r \<and> int_ok r \<and> int_val r = v"
proof -
  obtain r where r: "allocateIntValue s = Some r" "int_store r" "s \<le> i_m r" "int_store (int_init r)"
    "\<not> i_overflow (int_init r)"
    by (rule allocateIntValue_Some [OF s])
  then show ?thesis using f [of "int_init r"] by (simp add: op_sized_def)
qed

lemma int_ok_d: "int_ok a \<Longrightarrow> 1 \<le> i_d a \<and> i_d a \<le> 254"
  using int_norm_d [OF int_ok_norm] by fastforce

lemma abs_val_less: "int_ok a \<Longrightarrow> \<bar>int_val a\<bar> < int (base ^ i_d a)"
  using int_abs_less [of a] by (auto simp del: of_nat_power)

interpretation bi: sized_ints base 254 int_ok int_val i_d
  "op_sized (\<lambda>a b r. Some (int_add a b r))" "op_sized (\<lambda>a b r. Some (int_sub a b r))"
  "op_sized int_mul" "op_sized (\<lambda>a b r. map_option fst (int_div a b r None))"
proof
  fix a b s
  assume a: "int_ok a" and b: "int_ok b"
  note n = int_ok_norm [OF a] int_ok_norm [OF b]
  show "\<exists>r. op_sized (\<lambda>a b r. Some (int_add a b r)) a b s = Some r \<and> int_ok r \<and> int_val r = int_val a + int_val b"
    if "1 \<le> s" "s \<le> 254" "\<bar>int_val a + int_val b\<bar> < int (base ^ s)"
    by (rule op_sized_law [OF that(1,2)]) (use int_add_correct [OF n] fits_mono [OF _ that(3)] in \<open>auto simp: int_ok_iff\<close>)
  show "\<exists>r. op_sized (\<lambda>a b r. Some (int_sub a b r)) a b s = Some r \<and> int_ok r \<and> int_val r = int_val a - int_val b"
    if "1 \<le> s" "s \<le> 254" "\<bar>int_val a - int_val b\<bar> < int (base ^ s)"
    by (rule op_sized_law [OF that(1,2)]) (use int_sub_correct [OF n] fits_mono [OF _ that(3)] in \<open>auto simp: int_ok_iff\<close>)
  show "\<exists>r. op_sized int_mul a b s = Some r \<and> int_ok r \<and> int_val r = int_val a * int_val b"
    if s: "i_d a + i_d b \<le> s + 1" "s \<le> 254" "\<bar>int_val a * int_val b\<bar> < int (base ^ s)"
  proof (rule op_sized_law [OF _ s(2)])
    show "1 \<le> s" using s(1) int_norm_d [OF n(1)] int_norm_d [OF n(2)] by linarith
    fix r assume r: "int_store r" "s \<le> i_m r"
    have "fits (i_m r) (int_val a * int_val b)" by (rule fits_mono [OF r(2) s(3)])
    then have fit: "int_abs a * int_abs b < base ^ i_m r" by (simp add: fits_def abs_mult nat_mult_distrib)
    have nz: "int_val a \<noteq> 0 \<and> int_val b \<noteq> 0 \<or> i_d a + i_d b \<le> i_m r + 1" using s(1) r(2) by linarith
    obtain r' where "int_mul a b r = Some r'" "int_ok r'" "int_val r' = int_val a * int_val b"
      by (rule int_mul_correct [OF n r(1) fit nz]) blast
    then show "\<exists>r'. int_mul a b r = Some r' \<and> int_ok r' \<and> int_val r' = int_val a * int_val b" by blast
  qed
  show "\<exists>r. op_sized (\<lambda>a b r. map_option fst (int_div a b r None)) a b s = Some r \<and> int_ok r \<and>
      int_val r = int_val a sdiv int_val b"
    if s: "int_val b \<noteq> 0" "1 \<le> s" "s \<le> 254" "\<bar>int_val a sdiv int_val b\<bar> < int (base ^ s)"
  proof (rule op_sized_law [OF s(2,3)])
    fix r assume r: "int_store r" "s \<le> i_m r"
    have "fits (i_m r) (int_val a sdiv int_val b)" by (rule fits_mono [OF r(2) s(4)])
    then have fit: "int_abs a div int_abs b < base ^ i_m r"
      by (simp add: fits_def abs_sdiv flip: zdiv_int)
    obtain r' ro' where "int_div a b r None = Some (r', ro')" "div_result a b r None r' ro'"
      by (rule int_div_correct [OF a n(2) s(1) r(1) fit, of None]) (simp add: rem_room_def)
    then show "\<exists>r'. map_option fst (int_div a b r None) = Some r' \<and> int_ok r' \<and> int_val r' = int_val a sdiv int_val b"
      by (simp add: div_result_def)
  qed
  show "i_d a = 1 \<or> int (base ^ (i_d a - 1)) \<le> \<bar>int_val a\<bar>"
    using int_norm_top [OF n(1), of "i_d a"] int_norm_d [OF n(1)] unfolding abs_int_val of_nat_le_iff by simp
qed (use int_ok_d abs_val_less in auto)

subsection \<open>The operators\<close>

definition int_op_spec :: "int_op \<Rightarrow> int \<Rightarrow> int \<Rightarrow> int" where
  "int_op_spec c a b =
     (case c of OpAdd \<Rightarrow> a + b | OpSub \<Rightarrow> a - b | OpMul \<Rightarrow> a * b | OpDiv \<Rightarrow> a sdiv b | OpMod \<Rightarrow> yarg_mod a b)"

lemma binaryIntOp_sized:
  "binaryIntOp OpAdd a b = op_sized (\<lambda>a b r. Some (int_add a b r)) a b (binaryIntOp_size OpAdd a b)"
  "binaryIntOp OpSub a b = op_sized (\<lambda>a b r. Some (int_sub a b r)) a b (binaryIntOp_size OpSub a b)"
  "binaryIntOp OpMul a b = op_sized int_mul a b (binaryIntOp_size OpMul a b)"
  "binaryIntOp OpDiv a b = op_sized (\<lambda>a b r. map_option fst (int_div a b r None)) a b (binaryIntOp_size OpDiv a b)"
  "binaryIntOp OpMod a b = op_sized (\<lambda>a b r. Option.bind (int_div a b int_init_concrete254 (Some r)) snd) a b (binaryIntOp_size OpMod a b)"
  by (simp_all add: binaryIntOp_def op_sized_def Let_def)

lemma binaryIntOp_size_eq:
  "binaryIntOp_size OpAdd a b = min 254 (1 + max (i_d a) (i_d b))"
  "binaryIntOp_size OpSub a b = min 254 (1 + max (i_d a) (i_d b))"
  "binaryIntOp_size OpMul a b = min 254 (i_d a + i_d b)"
  "binaryIntOp_size OpDiv a b = min 254 (i_d a)"
  by (auto simp: binaryIntOp_size_def Let_def)

lemma binaryIntOp_mod_size:
  assumes "int_ok a" "int_ok b" and r: "int_store r" "\<not> i_overflow r" "binaryIntOp_size OpMod a b \<le> i_m r"
  shows "rem_room a b (Some r)"
proof -
  note n = int_ok_norm [OF assms(1)] int_ok_norm [OF assms(2)]
  have d: "i_d a \<le> 254" "i_d b \<le> 254" using int_norm_d [OF n(1)] int_norm_d [OF n(2)] by auto
  have "int_abs b \<le> int_abs a \<Longrightarrow> i_d b \<le> i_d a" using int_abs_d_less [OF n] by (meson not_le)
  moreover have "int_abs a < int_abs b \<Longrightarrow> i_d a \<le> i_d b" using int_abs_d_less [OF n(2,1)] by (meson not_le order_less_asym)
  ultimately show ?thesis
    using r d by (auto simp: rem_room_def binaryIntOp_size_def Let_def int_is_zero_val [OF n(1)] split: if_splits)
qed

lemma binaryIntOp_mod:
  assumes a: "int_ok a" and b: "int_ok b" "int_val b \<noteq> 0"
  shows "\<exists>r. binaryIntOp OpMod a b = Some r \<and> int_ok r \<and> int_val r = yarg_mod (int_val a) (int_val b)"
  unfolding binaryIntOp_sized
proof (rule op_sized_law)
  note n = int_ok_norm [OF a] int_ok_norm [OF b(1)]
  show "1 \<le> binaryIntOp_size OpMod a b" "binaryIntOp_size OpMod a b \<le> 254"
    using int_norm_d [OF n(1)] int_norm_d [OF n(2)] by (auto simp: binaryIntOp_size_def Let_def)
  fix r assume r: "int_store r" "\<not> i_overflow r" "binaryIntOp_size OpMod a b \<le> i_m r"
  have "int_abs a < base ^ 254"
    using int_abs_less [OF n(1)] int_norm_d [OF n(1)] by (meson base_pow_le_iff order_less_le_trans order_trans)
  then have fit: "int_abs a div int_abs b < base ^ i_m int_init_concrete254"
    by (simp only: int_init_254) (meson div_le_dividend order_le_less_trans)
  obtain q ro where "int_div a b int_init_concrete254 (Some r) = Some (q, ro)"
    "div_result a b int_init_concrete254 (Some r) q ro"
    by (rule int_div_correct [OF a n(2) b(2) int_init_254(3) fit binaryIntOp_mod_size [OF a b(1) r]])
  then show "\<exists>r'. Option.bind (int_div a b int_init_concrete254 (Some r)) snd = Some r' \<and> int_ok r' \<and>
      int_val r' = yarg_mod (int_val a) (int_val b)"
    by (auto simp: div_result_def split: option.splits)
qed

text \<open>
  Every operator gives the exact integer when it has at most 254 digits: the size the virtual
  machine allocates is then enough.
\<close>

lemma binaryIntOp_exact:
  assumes a: "int_ok a" and b: "int_ok b" and nz: "c = OpDiv \<or> c = OpMod \<longrightarrow> int_val b \<noteq> 0"
    and fit: "fits 254 (int_op_spec c (int_val a) (int_val b)) \<or> c = OpDiv \<or> c = OpMod"
  shows "\<exists>r. binaryIntOp c a b = Some r \<and> int_ok r \<and> int_val r = int_op_spec c (int_val a) (int_val b)"
proof (cases c)
  case OpAdd
  then show ?thesis
    using bi.sum_capped [OF a b] fit unfolding OpAdd binaryIntOp_sized binaryIntOp_size_eq fits_base int_op_spec_def int_op.case
    by blast
next
  case OpSub
  then show ?thesis
    using bi.difference_capped [OF a b] fit unfolding OpSub binaryIntOp_sized binaryIntOp_size_eq fits_base int_op_spec_def int_op.case
    by blast
next
  case OpMul
  then show ?thesis
    using bi.product_capped [OF a b] fit unfolding OpMul binaryIntOp_sized binaryIntOp_size_eq fits_base int_op_spec_def int_op.case
    by blast
next
  case OpDiv
  then show ?thesis
    using bi.quotient_fits [OF a b] int_ok_d [OF a] nz
    by (simp add: binaryIntOp_sized binaryIntOp_size_eq int_op_spec_def)
next
  case OpMod
  then show ?thesis using binaryIntOp_mod [OF a b] nz by (simp add: int_op_spec_def)
qed

text \<open>A result of more than 254 digits is reported by the overflow flag.\<close>

lemma op_sized_overflow:
  assumes s: "1 \<le> s" "s \<le> 254"
    and f: "\<And>r. int_store r \<Longrightarrow> i_m r \<le> 254 \<Longrightarrow> \<exists>r'. f a b r = Some r' \<and> i_overflow r'"
  shows "\<exists>r. op_sized f a b s = Some r \<and> i_overflow r"
proof -
  obtain r where r: "allocateIntValue s = Some r" "int_store r" "s \<le> i_m r" "int_store (int_init r)"
    "\<not> i_overflow (int_init r)"
    by (rule allocateIntValue_Some [OF s])
  then show ?thesis using f [of "int_init r"] int_storeD(4) [OF r(2)] by (simp add: op_sized_def)
qed

lemma fits_up: "fits m v \<Longrightarrow> m \<le> n \<Longrightarrow> fits n v"
  using fits_mono [of m n v] by (simp add: fits_base)

lemma int_mul_overflow:
  assumes "int_norm a" "int_norm b" "int_store r" "\<not> fits (i_m r) (int_val a * int_val b)"
  obtains r' where "int_mul a b r = Some r'" "i_overflow r'"
proof -
  obtain r' where r': "int_mul a b r = Some r'" "i_m r' = i_m r"
    "i_overflow r' \<or> int_ok r' \<and> int_val r' = int_val a * int_val b \<and> int_abs r' = int_abs a * int_abs b"
    by (rule int_mul_total [OF assms(1-3)]) blast
  have "int_ok r' \<Longrightarrow> fits (i_m r') (int_val r')"
    using fits_val [OF int_ok_norm, of r' "i_m r'"] int_norm_d [OF int_ok_norm, of r'] by blast
  then show ?thesis using that r' assms(4) by auto
qed

lemma binaryIntOp_too_big:
  assumes a: "int_ok a" and b: "int_ok b" and c: "c \<noteq> OpDiv" "c \<noteq> OpMod"
    and big: "\<not> fits 254 (int_op_spec c (int_val a) (int_val b))"
  shows "\<exists>r. binaryIntOp c a b = Some r \<and> i_overflow r"
proof -
  note n = int_ok_norm [OF a] int_ok_norm [OF b]
  have no: "\<not> fits (i_m r) (int_op_spec c (int_val a) (int_val b))" if "i_m r \<le> 254" for r :: Int_struct
    using big fits_up that by blast
  have d: "1 \<le> i_d a" "1 \<le> i_d b" using int_ok_d a b by auto
  show ?thesis
  proof (cases c)
    case OpAdd
    show ?thesis unfolding OpAdd binaryIntOp_sized binaryIntOp_size_eq
      by (rule op_sized_overflow) (use no int_add_overflow [OF n] OpAdd in \<open>auto simp: int_op_spec_def\<close>)
  next
    case OpSub
    show ?thesis unfolding OpSub binaryIntOp_sized binaryIntOp_size_eq
      by (rule op_sized_overflow) (use no int_sub_overflow [OF n] OpSub in \<open>auto simp: int_op_spec_def\<close>)
  next
    case OpMul
    show ?thesis unfolding OpMul binaryIntOp_sized binaryIntOp_size_eq
    proof (rule op_sized_overflow)
      fix r assume r: "int_store r" "i_m r \<le> 254"
      then have "\<not> fits (i_m r) (int_val a * int_val b)" using no OpMul by (simp add: int_op_spec_def)
      then show "\<exists>r'. int_mul a b r = Some r' \<and> i_overflow r'" by (rule int_mul_overflow [OF n r(1)]) blast
    qed (use d in auto)
  qed (use c in auto)
qed

text \<open>Division and remainder by zero end in the assertion on the leading digit.\<close>

lemma int_div_zero:
  assumes a: "int_ok a" and b: "int_ok b" "int_val b = 0" and ro: "case ro of None \<Rightarrow> True | Some r \<Rightarrow> int_store r"
  shows "int_div a b q ro = None"
proof -
  note n = int_ok_norm [OF a] int_ok_norm [OF b(1)]
  have z: "int_abs b = 0" using b(2) by (auto simp: int_val_def split: if_splits)
  then have "int_is_zero b" using int_is_zero_iff [OF n(2)] by simp
  then have "i_h b ! (i_d b - 1) = 0" "i_d b = 1" by (simp_all add: int_is_zero_def)
  then show ?thesis
    using ro z by (auto simp: int_store_def int_div_def int_is_abs_correct [OF n] comp_of_def int_div_main_def split: option.split)
qed

lemma binaryIntOp_by_zero:
  assumes "int_ok a" "int_ok b" "int_val b = 0" "c = OpDiv \<or> c = OpMod"
  shows "binaryIntOp c a b = None"
proof -
  have s: "1 \<le> binaryIntOp_size c a b" "binaryIntOp_size c a b \<le> 254"
    using int_ok_d [OF assms(1)] int_ok_d [OF assms(2)] assms(4) by (auto simp: binaryIntOp_size_def Let_def)
  obtain r where "allocateIntValue (binaryIntOp_size c a b) = Some r" "int_store (int_init r)"
    by (rule allocateIntValue_Some [OF s]) blast
  then show ?thesis
    using assms int_div_zero [OF assms(1-3)] by (auto simp: binaryIntOp_def)
qed

lemma unaryIntOp_correct:
  assumes a: "int_ok a"
  shows "\<exists>r. unaryIntOp a = Some r \<and> int_ok r \<and> int_val r = - int_val a"
proof -
  have d: "1 \<le> i_d a" "i_d a \<le> 254" using int_ok_d [OF a] by auto
  obtain r where r: "allocateIntValue (i_d a) = Some r" "int_store r" "i_d a \<le> i_m r"
    by (rule allocateIntValue_Some [OF d]) blast
  obtain r' where "int_set_t a r = Some r'" "int_norm r'" "int_val r' = int_val a" "i_overflow r' = i_overflow a"
    by (rule int_set_t_correct [OF int_ok_norm [OF a] r(2,3)]) blast
  then show ?thesis
    using r(1) a by (auto simp: unaryIntOp_def int_neg_def int_ok_iff int_val_def)
qed

lemma binaryIntBoolOp_correct:
  assumes "int_ok a" "int_ok b"
  shows "binaryIntBoolOp opr a b \<longleftrightarrow>
    (case opr of OpLess \<Rightarrow> int_val a < int_val b | OpGreater \<Rightarrow> int_val a > int_val b | OpEqual \<Rightarrow> int_val a = int_val b)"
  using int_is_correct [OF int_ok_norm [OF assms(1)] int_ok_norm [OF assms(2)]]
  by (cases opr) (auto simp: binaryIntBoolOp_def comp_of_def)

end
