(* ===== verification/BigInt_Theorems.thy ===== *)
theory BigInt_Theorems
  imports IntOps
begin

section \<open>Theorems on integers\<close>

text \<open>
  The properties of the big-integer component and of the integer operators of the virtual
  machine. Each is followed by an instance at concrete operands, built by \<open>sample\<close>.
\<close>

text \<open>
  \<^verbatim>\<open>newExprNumberInt\<close> of \<^verbatim>\<open>ast.c\<close> allocates the integer of a literal with a given number
  of decimal digits; the number of 16-bit digits passes through a \<^verbatim>\<open>uint8_t\<close>.
\<close>

definition newExprNumberInt :: "nat \<Rightarrow> Int_struct" where
  "newExprNumberInt numberDecimalDigits =
     (let s = cast8 (INT_DIGITS_FOR_S numberDecimalDigits);
          s = cast8 (s + s mod 2)
      in \<lparr>i_neg = False, i_overflow = False, i_obj = False, i_literal = False, i_d = 0, i_m = s,
          i_h = replicate s 0\<rparr>)"

subsection \<open>Concrete integers\<close>

definition sample :: "u64 \<Rightarrow> Int_struct" where
  "sample n = int_set_i n int_init_concrete4"

lemma four_store: "int_store int_init_concrete4" "i_m int_init_concrete4 = 4" "\<not> i_overflow int_init_concrete4"
  using int_init_concrete_ok [of 4] by (auto simp: int_init_concrete4_def int_ok_iff int_norm_def)

lemma fits_sint: "4 \<le> m \<Longrightarrow> fits m (sint (x :: u64))"
  using u64_less_base_pow [of m "if sint x < 0 then - x else x"] unat_abs_sint [of x] by (simp add: fits_def)

lemma sample_ok [simp]: "int_ok (sample n)" "int_val (sample n) = sint n" "i_m (sample n) = 4" "int_store (sample n)"
  "int_norm (sample n)" "\<not> i_overflow (sample n)" "int_abs (sample n) = nat \<bar>sint n\<bar>"
proof -
  have "int_ok (sample n) \<and> int_val (sample n) = sint n"
    unfolding sample_def by (rule int_set_i_correct) (use four_store fits_sint in auto)
  then show *: "int_ok (sample n)" "int_val (sample n) = sint n" by auto
  then show "int_store (sample n)" "int_norm (sample n)" "\<not> i_overflow (sample n)"
    by (auto simp: int_ok_iff int_norm_def)
  show "i_m (sample n) = 4" by (simp add: sample_def four_store)
  show "int_abs (sample n) = nat \<bar>sint n\<bar>" using abs_int_val [of "sample n"] * by simp
qed

subsection \<open>Arithmetic\<close>

text \<open>
  C2: \<^verbatim>\<open>int_div\<close> is total on a non-zero divisor: no assertion in it fails, the loop of guessed
  and reduced digits ends, and it leaves the quotient of truncating division and the remainder
  of the language (the truncating one, plus the divisor when the signs differ), both satisfying
  the invariant of the component. The destinations need only be as large as the results.
\<close>

theorem int_div_total_correct:
  assumes "int_ok n" "int_ok d" "int_val d \<noteq> 0" "int_store q" "fits (i_m q) (int_val n sdiv int_val d)"
    and "int_store r" "\<not> i_overflow r" "i_d d \<le> i_m r"
  shows "\<exists>q' r'. int_div n d q (Some r) = Some (q', Some r') \<and> int_ok q' \<and> int_ok r' \<and>
    int_val q' = int_val n sdiv int_val d \<and> int_val r' = yarg_mod (int_val n) (int_val d)"
proof -
  have fit: "int_abs n div int_abs d < base ^ i_m q" using assms(5) by (simp add: fits_def abs_sdiv flip: zdiv_int)
  have "rem_room n d (Some r)" using assms(6-8) by (simp add: rem_room_def)
  then obtain q' ro' where "int_div n d q (Some r) = Some (q', ro')" "div_result n d q (Some r) q' ro'"
    by (rule int_div_correct [OF assms(1) int_ok_norm [OF assms(2)] assms(3,4) fit])
  then show ?thesis by (auto simp: div_result_def split: option.splits)
qed

theorem int_div_total_correct_witness:
  "\<exists>q' r'. int_div (sample (- 1000000007)) (sample 70001) (sample 0) (Some (sample 0)) = Some (q', Some r') \<and>
     int_ok q' \<and> int_ok r' \<and> int_val q' = - 14285 \<and> int_val r' = 34279"
proof -
  have d: "i_d (sample 70001) \<le> 4" using int_norm_d [OF sample_ok(5), of 70001] by simp
  have s: "sint (- 1000000007 :: u64) = - 1000000007" "sint (70001 :: u64) = 70001" by simp_all
  show ?thesis
    using int_div_total_correct [of "sample (- 1000000007)" "sample 70001" "sample 0" "sample 0"] d
    by (simp add: fits_def signed_divide_int_def yarg_mod_def signed_modulo_int_def)
qed



text \<open>
  C5: \<^verbatim>\<open>int_add\<close> and \<^verbatim>\<open>int_sub\<close> give the exact sum and difference, normalised and with the
  right sign, when they fit the destination, and set the overflow flag when they do not.
\<close>

theorem int_add_sub_exact_or_overflow:
  assumes "int_ok a" "int_ok b" "int_store r" "\<not> i_overflow r"
  shows "(if fits (i_m r) (int_val a + int_val b)
      then int_ok (int_add a b r) \<and> int_val (int_add a b r) = int_val a + int_val b
      else i_overflow (int_add a b r)) \<and>
    (if fits (i_m r) (int_val a - int_val b)
      then int_ok (int_sub a b r) \<and> int_val (int_sub a b r) = int_val a - int_val b
      else i_overflow (int_sub a b r))"
  using int_add_correct [OF int_ok_norm [OF assms(1)] int_ok_norm [OF assms(2)] assms(3)]
    int_add_overflow [OF int_ok_norm [OF assms(1)] int_ok_norm [OF assms(2)] assms(3)]
    int_sub_correct [OF int_ok_norm [OF assms(1)] int_ok_norm [OF assms(2)] assms(3)]
    int_sub_overflow [OF int_ok_norm [OF assms(1)] int_ok_norm [OF assms(2)] assms(3)] assms(4)
  by (auto simp: int_ok_iff)

theorem int_add_sub_exact_or_overflow_witness:
  "int_val (int_add (sample 65535) (sample (- 70000)) (sample 0)) = - 4465 \<and>
   int_val (int_sub (sample 65535) (sample (- 70000)) (sample 0)) = 135535"
  using int_add_sub_exact_or_overflow [of "sample 65535" "sample (- 70000)" "sample 0"] by (simp add: fits_def)

text \<open>
  C6: \<^verbatim>\<open>int_is\<close> is the order of the integers denoted, negative zero included, and
  \<^verbatim>\<open>int_is_range\<close> classifies an integer against a signed lower and an unsigned upper bound.
\<close>

theorem int_comparisons_correct:
  assumes "int_ok a" "int_ok b"
  shows "int_is a b =
      (if int_val a < int_val b then INT_LT else if int_val a = int_val b then INT_EQ else INT_GT) \<and>
    int_is_range a l u =
      (if int_val a > int (unat u) then INT_ABOVE else if int_val a < sint l then INT_BELOW else INT_WITHIN)"
  using int_is_correct [OF int_ok_norm [OF assms(1)] int_ok_norm [OF assms(2)]]
    int_is_range_correct [OF int_ok_norm [OF assms(1)], of l u] by (auto simp: comp_of_def)

theorem int_comparisons_correct_witness:
  "int_is (sample (- 5)) (sample 7) = INT_LT \<and> int_is_range (sample (- 5)) (- 4) 9 = INT_BELOW"
  using int_comparisons_correct [of "sample (- 5)" "sample 7" "- 4" 9] by simp



subsection \<open>Decimal text\<close>

text \<open>
  C8: printing an integer into the buffer size the callers use, and reading the text back into
  a destination that holds it, gives the integer again; the printed text is its decimal numeral.
\<close>

theorem int_decimal_roundtrip:
  assumes "int_ok i" "int_store j" "fits (i_m j) (int_val i)"
  shows "\<exists>s r. int_to_s i INT_STRLEN_FOR_INT254 = Some s \<and> s = dec_int (int_val i) \<and>
    int_set_s s j = Some r \<and> int_ok r \<and> int_val r = int_val i"
proof -
  obtain r where "int_set_s (dec_int (int_val i)) j = Some r" "int_ok r" "int_val r = int_val i"
    by (rule int_set_s_dec_int [OF assms(2)]) (use assms(3) in \<open>auto simp: fits_def\<close>)
  then show ?thesis using int_to_s_254 [OF assms(1)] by blast
qed

theorem int_decimal_roundtrip_witness:
  "\<exists>s r. int_to_s (sample (- 1203)) INT_STRLEN_FOR_INT254 = Some s \<and> s = ''-1203'' \<and>
     int_set_s s (sample 0) = Some r \<and> int_val r = - 1203"
proof -
  have "dec_int (- 1203) = ''-1203''"
    by code_simp
  then show ?thesis
    using int_decimal_roundtrip [of "sample (- 1203)" "sample 0"] by (auto simp: fits_def)
qed




subsection \<open>Operators\<close>



text \<open>
  C12: a sum, difference or product of more than 254 digits comes back with the overflow flag set.
\<close>

theorem binaryIntOp_overflows:
  assumes "int_ok a" "int_ok b" "c \<noteq> OpDiv" "c \<noteq> OpMod" "\<not> fits 254 (int_op_spec c (int_val a) (int_val b))"
  shows "\<exists>r. binaryIntOp c a b = Some r \<and> i_overflow r"
  using assms by (rule binaryIntOp_too_big)

definition big :: Int_struct where
  "big = \<lparr>i_neg = False, i_overflow = False, i_obj = True, i_literal = False, i_d = 254, i_m = 254,
     i_h = replicate 254 1\<rparr>"

lemma big_ok: "int_ok big" "fits 254 (int_val big * int_val big) = False"
proof -
  show ok: "int_ok big" by (simp add: int_ok_iff int_norm_def int_store_def big_def)
  have d: "i_d big = 254" by (simp add: big_def)
  then have le: "base ^ 253 \<le> int_abs big" using int_norm_top [OF int_ok_norm [OF ok], of 254] by simp
  have "base ^ 253 * base ^ 253 \<le> int_abs big * int_abs big" by (rule mult_le_mono [OF le le])
  moreover have "base ^ 254 \<le> base ^ (253 + 253)" unfolding base_pow_le_iff by simp
  ultimately have "base ^ 254 \<le> int_abs big * int_abs big" unfolding power_add by linarith
  then show "fits 254 (int_val big * int_val big) = False"
    by (simp add: fits_def abs_mult nat_mult_distrib not_less)
qed

theorem binaryIntOp_overflows_witness: "\<exists>r. binaryIntOp OpMul big big = Some r \<and> i_overflow r"
  using binaryIntOp_overflows [of big big OpMul] big_ok by (simp add: int_op_spec_def)



text \<open>
  The remainder of a multiple of the divisor, when the signs differ, is the divisor itself
  and not zero.
\<close>

theorem binaryIntOp_mod_of_multiple:
  assumes "int_ok a" "int_ok b" "int_val b dvd int_val a" "int_val a * int_val b < 0"
  shows "\<exists>r. binaryIntOp OpMod a b = Some r \<and> int_val r = int_val b"
proof -
  have "int_val a smod int_val b = 0" using assms(3) by (simp add: signed_modulo_int_def del: abs_int_val)
  moreover have "int_val b \<noteq> 0" "int_val a \<noteq> 0" "(int_val a < 0) \<noteq> (int_val b < 0)"
    using assms(4) by (auto simp: mult_less_0_iff)
  ultimately show ?thesis
    using binaryIntOp_mod [OF assms(1,2)] by (auto simp: yarg_mod_def)
qed

theorem binaryIntOp_mod_of_multiple_witness:
  "\<exists>r. binaryIntOp OpMod (sample (- 8)) (sample 8) = Some r \<and> int_val r = 8"
  using binaryIntOp_mod_of_multiple [of "sample (- 8)" "sample 8"] by simp

text \<open>
  C14: negation and the comparison operators agree with the integers denoted.
\<close>

theorem int_negate_compare:
  assumes "int_ok a" "int_ok b"
  shows "(\<exists>r. unaryIntOp a = Some r \<and> int_ok r \<and> int_val r = - int_val a) \<and>
    (binaryIntBoolOp OpLess a b \<longleftrightarrow> int_val a < int_val b) \<and>
    (binaryIntBoolOp OpGreater a b \<longleftrightarrow> int_val a > int_val b) \<and>
    (binaryIntBoolOp OpEqual a b \<longleftrightarrow> int_val a = int_val b)"
  using unaryIntOp_correct [OF assms(1)] binaryIntBoolOp_correct [OF assms] by simp

theorem int_negate_compare_witness: "binaryIntBoolOp OpLess (sample (- 3)) (sample 2)"
  using int_negate_compare [of "sample (- 3)" "sample 2"] by simp

end
