(* ===== verification/Scanner.thy ===== *)
theory Scanner
  imports Prelude "HOL-Library.Monad_Syntax"
begin

section \<open>The scanner (\<^verbatim>\<open>src/cyarg/scanner.c\<close>)\<close>

text \<open>
  The state of the scanner is the source text and two positions in it. A C string ends with a
  NUL character that is not part of \<open>s_source\<close>: reading at position \<^term>\<open>length (s_source sc)\<close> gives
  it, and reading past it is an out-of-bounds access, modelled by \<open>None\<close>. Every function that
  reads characters therefore returns an option, and a token it returns comes with the new state.

  The theorems are at the end: the scanner keeps its positions inside the source and its line
  number right, makes progress until the end of the source, and recognises the keywords of the
  language.
\<close>

subsection \<open>Data\<close>

datatype (plugins only: size) TokenType =
    TOKEN_LEFT_PAREN | TOKEN_RIGHT_PAREN | TOKEN_LEFT_BRACE | TOKEN_RIGHT_BRACE | TOKEN_LEFT_SQUARE_BRACKET
  | TOKEN_RIGHT_SQUARE_BRACKET | TOKEN_COMMA | TOKEN_DOT | TOKEN_MINUS | TOKEN_PLUS
  | TOKEN_SEMICOLON | TOKEN_SLASH | TOKEN_STAR | TOKEN_AT | TOKEN_BAR
  | TOKEN_AMP | TOKEN_CARET | TOKEN_PERCENT | TOKEN_COLON | TOKEN_BANG
  | TOKEN_BANG_EQUAL | TOKEN_EQUAL | TOKEN_EQUAL_EQUAL | TOKEN_GREATER | TOKEN_GREATER_EQUAL
  | TOKEN_RIGHT_SHIFT | TOKEN_LESS | TOKEN_LESS_EQUAL | TOKEN_LEFT_SHIFT | TOKEN_ADDRESS
  | TOKEN_IDENTIFIER | TOKEN_STRING | TOKEN_NUMBER | TOKEN_AND | TOKEN_ANY
  | TOKEN_BOOL | TOKEN_BREAK | TOKEN_CLASS | TOKEN_COMPILE | TOKEN_CONST
  | TOKEN_CONTINUE | TOKEN_CPEEK | TOKEN_DEFER | TOKEN_ELSE | TOKEN_STMT_ERROR
  | TOKEN_FALSE | TOKEN_FOR | TOKEN_FUN | TOKEN_IF | TOKEN_INT
  | TOKEN_INT8 | TOKEN_INT16 | TOKEN_INT32 | TOKEN_INT64 | TOKEN_LEN
  | TOKEN_MACHINE_FLOAT64 | TOKEN_MAKE_CHANNEL | TOKEN_MAKE_ROUTINE | TOKEN_MAKE_SYNCGROUP | TOKEN_NEW
  | TOKEN_NIL | TOKEN_OR | TOKEN_PEEK | TOKEN_PIN | TOKEN_PLACE
  | TOKEN_POKE | TOKEN_PRINT | TOKEN_READ_YARG_SOURCE | TOKEN_RECEIVE | TOKEN_RESUME
  | TOKEN_RETURN | TOKEN_SEND | TOKEN_SHARE | TOKEN_START | TOKEN_TYPE_STRING
  | TOKEN_STRUCT | TOKEN_SUPER | TOKEN_THIS | TOKEN_TRUE | TOKEN_UINT8
  | TOKEN_UINT16 | TOKEN_UINT32 | TOKEN_UINT64 | TOKEN_VAR | TOKEN_VM_READ_XIP_FILE
  | TOKEN_WHILE | TOKEN_YIELD | TOKEN_LOAD | TOKEN_TS_SET | TOKEN_TS_READ
  | TOKEN_TS_WRITE | TOKEN_TS_INTERRUPT | TOKEN_TS_SYNC | TOKEN_ERROR | TOKEN_EOF

text \<open>A token points either into the source or at a message.\<close>

datatype token_text = InSource nat | Message string

record Token =
  t_type :: TokenType
  t_start :: token_text
  t_length :: nat
  t_line :: nat

record ObjScanner =
  s_source :: string
  s_start :: nat
  s_current :: nat
  s_line :: nat

definition newScanner :: "string \<Rightarrow> ObjScanner" where
  "newScanner s = \<lparr>s_source = s, s_start = 0, s_current = 0, s_line = 1\<rparr>"

subsection \<open>Characters\<close>

definition char_in :: "char \<Rightarrow> char \<Rightarrow> char \<Rightarrow> bool" where
  "char_in a z c \<longleftrightarrow> (of_char a :: nat) \<le> of_char c \<and> (of_char c :: nat) \<le> of_char z"

definition NUL :: char where
  "NUL = CHR 0x00"

definition isAlpha :: "char \<Rightarrow> bool" where
  "isAlpha c \<longleftrightarrow> char_in CHR ''a'' CHR ''z'' c \<or> char_in CHR ''A'' CHR ''Z'' c \<or> c = CHR ''_''"

definition isBinDigit :: "char \<Rightarrow> bool" where
  "isBinDigit c \<longleftrightarrow> char_in CHR ''0'' CHR ''1'' c"

definition isDigit :: "char \<Rightarrow> bool" where
  "isDigit c \<longleftrightarrow> char_in CHR ''0'' CHR ''9'' c"

definition isHexDigit :: "char \<Rightarrow> bool" where
  "isHexDigit c \<longleftrightarrow>
     (if char_in CHR ''a'' CHR ''f'' c then True
      else if char_in CHR ''A'' CHR ''F'' c then True
      else isDigit c)"

definition isRadixDigit :: "char \<Rightarrow> nat \<Rightarrow> bool" where
  "isRadixDigit c radix \<longleftrightarrow>
     (if radix = 16 then isHexDigit c else if radix = 10 then isDigit c
      else if radix = 2 then isBinDigit c else False)"

definition isRadix :: "char \<Rightarrow> bool" where
  "isRadix c \<longleftrightarrow> c = CHR ''x'' \<or> c = CHR ''X'' \<or> c = CHR ''b'' \<or> c = CHR ''B''"

definition radixType :: "char \<Rightarrow> nat" where
  "radixType c =
     (if c = CHR ''x'' \<or> c = CHR ''X'' then 16 else if c = CHR ''b'' \<or> c = CHR ''B'' then 2 else 10)"

subsection \<open>Reading\<close>

text \<open>\<open>char_at\<close> is the access \<^verbatim>\<open>source->chars[i]\<close>.\<close>

definition char_at :: "string \<Rightarrow> nat \<Rightarrow> char option" where
  "char_at s i = (if i < length s then Some (s ! i) else if i = length s then Some NUL else None)"

definition sc_peek :: "ObjScanner \<Rightarrow> char option" where
  "sc_peek sc = char_at (s_source sc) (s_current sc)"

definition isAtEnd :: "ObjScanner \<Rightarrow> bool option" where
  "isAtEnd sc = map_option (\<lambda>c. c = NUL) (sc_peek sc)"

definition sc_advance :: "ObjScanner \<Rightarrow> ObjScanner" where
  "sc_advance sc = sc\<lparr>s_current := s_current sc + 1\<rparr>"

definition peekNext :: "ObjScanner \<Rightarrow> char option" where
  "peekNext sc = do {
     e \<leftarrow> isAtEnd sc;
     if e then Some NUL else char_at (s_source sc) (s_current sc + 1)
   }"

definition sc_match :: "char \<Rightarrow> ObjScanner \<Rightarrow> (bool \<times> ObjScanner) option" where
  "sc_match expected sc = do {
     e \<leftarrow> isAtEnd sc;
     c \<leftarrow> sc_peek sc;
     Some (if e then (False, sc) else if c \<noteq> expected then (False, sc) else (True, sc_advance sc))
   }"

definition makeToken :: "ObjScanner \<Rightarrow> TokenType \<Rightarrow> Token" where
  "makeToken sc type =
     \<lparr>t_type = type, t_start = InSource (s_start sc), t_length = s_current sc - s_start sc, t_line = s_line sc\<rparr>"

definition errorToken :: "ObjScanner \<Rightarrow> string \<Rightarrow> Token" where
  "errorToken sc message =
     \<lparr>t_type = TOKEN_ERROR, t_start = Message message, t_length = length message, t_line = s_line sc\<rparr>"

text \<open>
  The loop \<^verbatim>\<open>while (p(peek(scanner))) advance(scanner)\<close>. It ends because \<^const>\<open>char_at\<close> gives
  nothing past the terminator.
\<close>

function scan_while :: "(char \<Rightarrow> bool) \<Rightarrow> ObjScanner \<Rightarrow> ObjScanner option" where
  "scan_while p sc =
     (case sc_peek sc of
        None \<Rightarrow> None
      | Some c \<Rightarrow> if p c then scan_while p (sc_advance sc) else Some sc)"
  by pat_completeness auto
termination
  by (relation "measure (\<lambda>(p, sc). length (s_source sc) + 1 - s_current sc)")
    (auto simp: sc_peek_def char_at_def sc_advance_def split: if_splits)

declare scan_while.simps [simp del]

function skipWhitespace :: "ObjScanner \<Rightarrow> ObjScanner option" where
  "skipWhitespace sc =
     (case sc_peek sc of
        None \<Rightarrow> None
      | Some c \<Rightarrow>
          if c = CHR '' '' \<or> c = CHR 0x0D \<or> c = CHR 0x09 then skipWhitespace (sc_advance sc)
          else if c = CHR 0x0A then skipWhitespace (sc_advance (sc\<lparr>s_line := s_line sc + 1\<rparr>))
          else if c = CHR ''/'' then
            (case peekNext sc of
               None \<Rightarrow> None
             | Some n \<Rightarrow>
                 if n = CHR ''/''
                 then (case scan_while (\<lambda>c. c \<noteq> CHR 0x0A \<and> c \<noteq> NUL) sc of
                         None \<Rightarrow> None
                       | Some sc1 \<Rightarrow> skipWhitespace sc1)
                 else Some sc)
          else Some sc)"
  by pat_completeness auto

lemma scan_while_current:
  "scan_while p sc = Some sc1 \<Longrightarrow>
    s_source sc1 = s_source sc \<and> s_current sc \<le> s_current sc1 \<and>
    ((\<exists>c. sc_peek sc = Some c \<and> p c) \<longrightarrow> s_current sc < s_current sc1)"
proof (induction p sc rule: scan_while.induct)
  case (1 p sc)
  from "1.prems" show ?case
    by (subst (asm) scan_while.simps)
      (use "1.IH" in \<open>fastforce simp: sc_advance_def split: option.splits if_splits\<close>)
qed

termination skipWhitespace
  by (relation "measure (\<lambda>sc. length (s_source sc) + 1 - s_current sc)")
    (auto simp: sc_peek_def char_at_def sc_advance_def NUL_def dest!: scan_while_current split: if_splits)

declare skipWhitespace.simps [simp del]

subsection \<open>Keywords\<close>

text \<open>
  The functions below take the text of the identifier, the characters from \<^verbatim>\<open>start\<close> to
  \<^verbatim>\<open>current\<close>. \<open>identifierType_x\<close> is the branch \<^verbatim>\<open>case 'x'\<close> of the outer \<^verbatim>\<open>switch\<close>.
\<close>

definition checkKeyword :: "string \<Rightarrow> nat \<Rightarrow> nat \<Rightarrow> string \<Rightarrow> TokenType \<Rightarrow> TokenType" where
  "checkKeyword w strt len rest type =
     (if length w = strt + len \<and> take len (drop strt w) = rest then type else TOKEN_IDENTIFIER)"

definition identifierType_a :: "string \<Rightarrow> TokenType" where
  "identifierType_a w =
    (if length w > 1 then
       (if w ! 1 = CHR ''n'' then (if length w > 2 then
          (if w ! 2 = CHR ''d'' then checkKeyword w 3 0 [] TOKEN_AND
           else if w ! 2 = CHR ''y'' then checkKeyword w 3 0 [] TOKEN_ANY
           else TOKEN_IDENTIFIER)
        else TOKEN_IDENTIFIER)
        else TOKEN_IDENTIFIER)
     else TOKEN_IDENTIFIER)"

definition identifierType_b :: "string \<Rightarrow> TokenType" where
  "identifierType_b w =
    (if length w > 1 then
       (if w ! 1 = CHR ''o'' then checkKeyword w 2 2 ''ol'' TOKEN_BOOL
        else if w ! 1 = CHR ''r'' then checkKeyword w 2 3 ''eak'' TOKEN_BREAK
        else TOKEN_IDENTIFIER)
     else TOKEN_IDENTIFIER)"

definition identifierType_c :: "string \<Rightarrow> TokenType" where
  "identifierType_c w =
    (if length w > 1 then
       (if w ! 1 = CHR ''l'' then checkKeyword w 2 3 ''ass'' TOKEN_CLASS
        else if w ! 1 = CHR ''o'' then
          (if length w > 2 \<and> w ! 2 = CHR ''m'' then checkKeyword w 3 4 ''pile'' TOKEN_COMPILE
           else if length w > 3 \<and> w ! 2 = CHR ''n'' \<and> w ! 3 = CHR ''s'' then checkKeyword w 4 1 ''t'' TOKEN_CONST
           else if length w > 3 \<and> w ! 2 = CHR ''n'' \<and> w ! 3 = CHR ''t'' then checkKeyword w 4 4 ''inue'' TOKEN_CONTINUE
           else checkKeyword w 2 3 ''eek'' TOKEN_CPEEK)
        else if w ! 1 = CHR ''p'' then checkKeyword w 2 3 ''eek'' TOKEN_CPEEK
        else TOKEN_IDENTIFIER)
     else TOKEN_IDENTIFIER)"

definition identifierType_d :: "string \<Rightarrow> TokenType" where
  "identifierType_d w =
    (if length w > 1 then
       (if w ! 1 = CHR ''e'' then checkKeyword w 2 3 ''fer'' TOKEN_DEFER
        else TOKEN_IDENTIFIER)
     else TOKEN_IDENTIFIER)"

definition identifierType_e :: "string \<Rightarrow> TokenType" where
  "identifierType_e w =
    (if length w > 1 then
       (if w ! 1 = CHR ''l'' then checkKeyword w 2 2 ''se'' TOKEN_ELSE
        else if w ! 1 = CHR ''r'' then checkKeyword w 2 3 ''ror'' TOKEN_STMT_ERROR
        else TOKEN_IDENTIFIER)
     else TOKEN_IDENTIFIER)"

definition identifierType_f :: "string \<Rightarrow> TokenType" where
  "identifierType_f w =
    (if length w > 1 then
       (if w ! 1 = CHR ''a'' then checkKeyword w 2 3 ''lse'' TOKEN_FALSE
        else if w ! 1 = CHR ''o'' then checkKeyword w 2 1 ''r'' TOKEN_FOR
        else if w ! 1 = CHR ''u'' then checkKeyword w 2 1 ''n'' TOKEN_FUN
        else TOKEN_IDENTIFIER)
     else TOKEN_IDENTIFIER)"

definition identifierType_i :: "string \<Rightarrow> TokenType" where
  "identifierType_i w =
    (if length w > 1 then
       (if w ! 1 = CHR ''f'' then checkKeyword w 2 0 [] TOKEN_IF
        else if w ! 1 = CHR ''n'' then
          (if length w > 2 \<and> w ! 2 = CHR ''t'' then
             (if length w > 3 then
                (if w ! 3 = CHR ''1'' then checkKeyword w 4 1 ''6'' TOKEN_INT16
                 else if w ! 3 = CHR ''3'' then checkKeyword w 4 1 ''2'' TOKEN_INT32
                 else if w ! 3 = CHR ''6'' then checkKeyword w 4 1 ''4'' TOKEN_INT64
                 else if w ! 3 = CHR ''8'' then checkKeyword w 4 0 [] TOKEN_INT8
                 else TOKEN_IDENTIFIER)
              else checkKeyword w 3 0 [] TOKEN_INT)
           else TOKEN_IDENTIFIER)
        else TOKEN_IDENTIFIER)
     else TOKEN_IDENTIFIER)"

definition identifierType_l :: "string \<Rightarrow> TokenType" where
  "identifierType_l w =
    (if length w > 1 then
       (if w ! 1 = CHR ''e'' then checkKeyword w 2 1 ''n'' TOKEN_LEN
        else if w ! 1 = CHR ''o'' then checkKeyword w 2 2 ''ad'' TOKEN_LOAD
        else TOKEN_IDENTIFIER)
     else TOKEN_IDENTIFIER)"

definition identifierType_m :: "string \<Rightarrow> TokenType" where
  "identifierType_m w =
    (if length w > 1 then
       (if w ! 1 = CHR ''a'' then
          (if length w > 5 \<and> take 3 (drop 2 w) = ''ke_'' then
             (if w ! 5 = CHR ''c'' then checkKeyword w 6 6 ''hannel'' TOKEN_MAKE_CHANNEL
              else if w ! 5 = CHR ''r'' then checkKeyword w 6 6 ''outine'' TOKEN_MAKE_ROUTINE
              else if w ! 5 = CHR ''s'' then checkKeyword w 6 9 ''ync_group'' TOKEN_MAKE_SYNCGROUP
              else TOKEN_IDENTIFIER)
           else TOKEN_IDENTIFIER)
        else if w ! 1 = CHR ''f'' then checkKeyword w 2 6 ''loat64'' TOKEN_MACHINE_FLOAT64
        else TOKEN_IDENTIFIER)
     else TOKEN_IDENTIFIER)"

definition identifierType_n :: "string \<Rightarrow> TokenType" where
  "identifierType_n w =
    (if length w > 1 then
       (if w ! 1 = CHR ''e'' then checkKeyword w 2 1 ''w'' TOKEN_NEW
        else if w ! 1 = CHR ''i'' then checkKeyword w 2 1 ''l'' TOKEN_NIL
        else TOKEN_IDENTIFIER)
     else TOKEN_IDENTIFIER)"

definition identifierType_p :: "string \<Rightarrow> TokenType" where
  "identifierType_p w =
    (if length w > 1 then
       (if w ! 1 = CHR ''e'' then checkKeyword w 2 2 ''ek'' TOKEN_PEEK
        else if w ! 1 = CHR ''i'' then checkKeyword w 2 1 ''n'' TOKEN_PIN
        else if w ! 1 = CHR ''l'' then checkKeyword w 2 3 ''ace'' TOKEN_PLACE
        else if w ! 1 = CHR ''o'' then checkKeyword w 2 2 ''ke'' TOKEN_POKE
        else if w ! 1 = CHR ''r'' then checkKeyword w 2 3 ''int'' TOKEN_PRINT
        else TOKEN_IDENTIFIER)
     else TOKEN_IDENTIFIER)"

definition identifierType_r :: "string \<Rightarrow> TokenType" where
  "identifierType_r w =
    (if length w > 1 then
       (if w ! 1 = CHR ''e'' then (if length w > 2 then
          (if w ! 2 = CHR ''a'' then checkKeyword w 3 13 ''d_yarg_source'' TOKEN_READ_YARG_SOURCE
           else if w ! 2 = CHR ''c'' then checkKeyword w 3 4 ''eive'' TOKEN_RECEIVE
           else if w ! 2 = CHR ''s'' then checkKeyword w 3 3 ''ume'' TOKEN_RESUME
           else if w ! 2 = CHR ''t'' then checkKeyword w 3 3 ''urn'' TOKEN_RETURN
           else TOKEN_IDENTIFIER)
        else TOKEN_IDENTIFIER)
        else TOKEN_IDENTIFIER)
     else TOKEN_IDENTIFIER)"

definition identifierType_s :: "string \<Rightarrow> TokenType" where
  "identifierType_s w =
    (if length w > 1 then
       (if w ! 1 = CHR ''e'' then (if length w > 2 then
          (if w ! 2 = CHR ''n'' then checkKeyword w 3 1 ''d'' TOKEN_SEND
           else TOKEN_IDENTIFIER)
        else TOKEN_IDENTIFIER)
        else if w ! 1 = CHR ''h'' then checkKeyword w 2 3 ''are'' TOKEN_SHARE
        else if w ! 1 = CHR ''t'' then (if length w > 2 then
          (if w ! 2 = CHR ''a'' then checkKeyword w 3 2 ''rt'' TOKEN_START
           else if w ! 2 = CHR ''r'' then (if length w > 3 then
             (if w ! 3 = CHR ''i'' then checkKeyword w 4 2 ''ng'' TOKEN_TYPE_STRING
              else if w ! 3 = CHR ''u'' then checkKeyword w 4 2 ''ct'' TOKEN_STRUCT
              else TOKEN_IDENTIFIER)
           else TOKEN_IDENTIFIER)
           else TOKEN_IDENTIFIER)
        else TOKEN_IDENTIFIER)
        else if w ! 1 = CHR ''u'' then checkKeyword w 2 3 ''per'' TOKEN_SUPER
        else TOKEN_IDENTIFIER)
     else TOKEN_IDENTIFIER)"

definition identifierType_t :: "string \<Rightarrow> TokenType" where
  "identifierType_t w =
    (if length w > 1 then
       (if w ! 1 = CHR ''e'' then
          (if length w > 7 \<and> take 3 (drop 2 w) = ''st_'' then
             (if w ! 5 = CHR ''i'' then checkKeyword w 6 8 ''nterrupt'' TOKEN_TS_INTERRUPT
              else if w ! 5 = CHR ''r'' then checkKeyword w 6 3 ''ead'' TOKEN_TS_READ
              else if w ! 5 = CHR ''s'' \<and> w ! 6 = CHR ''e'' then checkKeyword w 7 1 ''t'' TOKEN_TS_SET
              else if w ! 5 = CHR ''s'' \<and> w ! 6 = CHR ''y'' then checkKeyword w 7 2 ''nc'' TOKEN_TS_SYNC
              else if w ! 5 = CHR ''w'' then checkKeyword w 6 4 ''rite'' TOKEN_TS_WRITE
              else checkKeyword w 2 2 ''is'' TOKEN_THIS)
           else checkKeyword w 2 2 ''is'' TOKEN_THIS)
        else if w ! 1 = CHR ''h'' then checkKeyword w 2 2 ''is'' TOKEN_THIS
        else if w ! 1 = CHR ''r'' then checkKeyword w 2 2 ''ue'' TOKEN_TRUE
        else TOKEN_IDENTIFIER)
     else TOKEN_IDENTIFIER)"

definition identifierType_u :: "string \<Rightarrow> TokenType" where
  "identifierType_u w =
    (if length w > 4 \<and> take 3 (drop 1 w) = ''int'' then
       (if w ! 4 = CHR ''1'' then checkKeyword w 5 1 ''6'' TOKEN_UINT16
        else if w ! 4 = CHR ''3'' then checkKeyword w 5 1 ''2'' TOKEN_UINT32
        else if w ! 4 = CHR ''6'' then checkKeyword w 5 1 ''4'' TOKEN_UINT64
        else if w ! 4 = CHR ''8'' then checkKeyword w 5 0 [] TOKEN_UINT8
        else TOKEN_IDENTIFIER)
     else TOKEN_IDENTIFIER)"

definition identifierType_v :: "string \<Rightarrow> TokenType" where
  "identifierType_v w =
    (if length w > 1 then
       (if w ! 1 = CHR ''a'' then checkKeyword w 2 1 ''r'' TOKEN_VAR
        else if w ! 1 = CHR ''m'' then checkKeyword w 2 14 ''_read_xip_file'' TOKEN_VM_READ_XIP_FILE
        else TOKEN_IDENTIFIER)
     else TOKEN_IDENTIFIER)"

text \<open>The fall-through from \<^verbatim>\<open>case 'o'\<close> into \<^verbatim>\<open>case 'p'\<close>, and from \<^verbatim>\<open>case 'e'\<close> into \<^verbatim>\<open>case 'h'\<close>, are in \<open>identifierType_c\<close> and \<open>identifierType_t\<close>.\<close>

definition identifierType :: "string \<Rightarrow> TokenType" where
  "identifierType w =
     (if w ! 0 = CHR ''a'' then identifierType_a w
      else if w ! 0 = CHR ''b'' then identifierType_b w
      else if w ! 0 = CHR ''c'' then identifierType_c w
      else if w ! 0 = CHR ''d'' then identifierType_d w
      else if w ! 0 = CHR ''e'' then identifierType_e w
      else if w ! 0 = CHR ''f'' then identifierType_f w
      else if w ! 0 = CHR ''i'' then identifierType_i w
      else if w ! 0 = CHR ''l'' then identifierType_l w
      else if w ! 0 = CHR ''m'' then identifierType_m w
      else if w ! 0 = CHR ''n'' then identifierType_n w
      else if w ! 0 = CHR ''o'' then checkKeyword w 1 1 ''r'' TOKEN_OR
      else if w ! 0 = CHR ''p'' then identifierType_p w
      else if w ! 0 = CHR ''r'' then identifierType_r w
      else if w ! 0 = CHR ''s'' then identifierType_s w
      else if w ! 0 = CHR ''t'' then identifierType_t w
      else if w ! 0 = CHR ''u'' then identifierType_u w
      else if w ! 0 = CHR ''v'' then identifierType_v w
      else if w ! 0 = CHR ''w'' then checkKeyword w 1 4 ''hile'' TOKEN_WHILE
      else if w ! 0 = CHR ''y'' then checkKeyword w 1 4 ''ield'' TOKEN_YIELD
      else TOKEN_IDENTIFIER)"

subsection \<open>Tokens\<close>

definition lexeme :: "ObjScanner \<Rightarrow> string" where
  "lexeme sc = take (s_current sc - s_start sc) (drop (s_start sc) (s_source sc))"

definition sc_identifier :: "ObjScanner \<Rightarrow> (Token \<times> ObjScanner) option" where
  "sc_identifier sc = do {
     sc1 \<leftarrow> scan_while (\<lambda>c. isAlpha c \<or> isDigit c) sc;
     Some (makeToken sc1 (identifierType (lexeme sc1)), sc1)
   }"

text \<open>The fractional part and the exponent of a number, after its integer digits.\<close>

definition number_fraction :: "nat \<Rightarrow> ObjScanner \<Rightarrow> ObjScanner option" where
  "number_fraction radix sc = do {
     c \<leftarrow> sc_peek sc;
     if radix = 10 \<and> c = CHR ''.''
     then do {
       n \<leftarrow> peekNext sc;
       Some (if isDigit n then sc_advance sc else sc)
     }
     else Some sc
   }"

definition number_exponent :: "nat \<Rightarrow> ObjScanner \<Rightarrow> ObjScanner option" where
  "number_exponent radix sc = do {
     c \<leftarrow> sc_peek sc;
     if radix = 10 \<and> (c = CHR ''e'' \<or> c = CHR ''E'')
     then do {
       n \<leftarrow> peekNext sc;
       if n = CHR ''-'' \<or> isDigit n
       then do {
         let sc1 = sc_advance sc;
         c1 \<leftarrow> sc_peek sc1;
         Some (if c1 = CHR ''-'' then sc_advance sc1 else sc1)
       }
       else Some sc
     }
     else Some sc
   }"

definition number_digits :: "nat \<Rightarrow> ObjScanner \<Rightarrow> (Token \<times> ObjScanner) option" where
  "number_digits radix sc = do {
     sc1 \<leftarrow> scan_while (\<lambda>c. isRadixDigit c radix) sc;
     sc2 \<leftarrow> number_fraction radix sc1;
     sc3 \<leftarrow> scan_while (\<lambda>c. isRadixDigit c radix) sc2;
     sc4 \<leftarrow> number_exponent radix sc3;
     sc5 \<leftarrow> scan_while (\<lambda>c. isRadixDigit c radix) sc4;
     Some (makeToken sc5 TOKEN_NUMBER, sc5)
   }"

definition sc_number :: "ObjScanner \<Rightarrow> (Token \<times> ObjScanner) option" where
  "sc_number sc = do {
     c \<leftarrow> sc_peek sc;
     if isRadix c
     then do {
       let radix = radixType c;
       let sc1 = sc_advance sc;
       d \<leftarrow> sc_peek sc1;
       if \<not> isRadixDigit d radix
       then Some (errorToken sc1 ''Expected digit after radix specifier.'', sc1)
       else number_digits radix sc1
     }
     else number_digits 10 sc
   }"

definition sc_address :: "ObjScanner \<Rightarrow> (Token \<times> ObjScanner) option" where
  "sc_address sc = do {
     sc1 \<leftarrow> scan_while (\<lambda>c. isRadixDigit c 16) (sc_advance sc);
     Some (makeToken sc1 TOKEN_ADDRESS, sc1)
   }"

function string_loop :: "ObjScanner \<Rightarrow> ObjScanner option" where
  "string_loop sc =
     (case sc_peek sc of
        None \<Rightarrow> None
      | Some c \<Rightarrow>
          if c \<noteq> CHR 0x22 \<and> c \<noteq> NUL
          then let sc1 = (if c = CHR 0x5C then sc_advance sc else sc)
               in case sc_peek sc1 of
                    None \<Rightarrow> None
                  | Some d \<Rightarrow>
                      string_loop (sc_advance (if d = CHR 0x0A then sc1\<lparr>s_line := s_line sc1 + 1\<rparr> else sc1))
          else Some sc)"
  by pat_completeness auto
termination
  by (relation "measure (\<lambda>sc. length (s_source sc) + 1 - s_current sc)")
    (auto simp: sc_peek_def char_at_def sc_advance_def split: if_splits)

declare string_loop.simps [simp del]

definition sc_string :: "ObjScanner \<Rightarrow> (Token \<times> ObjScanner) option" where
  "sc_string sc = do {
     sc1 \<leftarrow> string_loop sc;
     e \<leftarrow> isAtEnd sc1;
     if e then Some (errorToken sc1 ''Unterminated string.'', sc1)
     else let sc2 = sc_advance sc1 in Some (makeToken sc2 TOKEN_STRING, sc2)
   }"

text \<open>The tokens of one character.\<close>

definition single_tokens :: "(char \<times> TokenType) list" where
  "single_tokens =
    [(CHR ''('', TOKEN_LEFT_PAREN), (CHR '')'', TOKEN_RIGHT_PAREN),
     (CHR ''{'', TOKEN_LEFT_BRACE), (CHR ''}'', TOKEN_RIGHT_BRACE),
     (CHR ''['', TOKEN_LEFT_SQUARE_BRACKET), (CHR '']'', TOKEN_RIGHT_SQUARE_BRACKET),
     (CHR '';'', TOKEN_SEMICOLON), (CHR '','', TOKEN_COMMA), (CHR ''.'', TOKEN_DOT),
     (CHR ''-'', TOKEN_MINUS), (CHR ''+'', TOKEN_PLUS), (CHR ''/'', TOKEN_SLASH),
     (CHR ''*'', TOKEN_STAR), (CHR ''|'', TOKEN_BAR), (CHR ''&'', TOKEN_AMP),
     (CHR ''^'', TOKEN_CARET), (CHR ''%'', TOKEN_PERCENT), (CHR '':'', TOKEN_COLON)]"

definition angle :: "char \<Rightarrow> TokenType \<Rightarrow> TokenType \<Rightarrow> TokenType \<Rightarrow> ObjScanner \<Rightarrow> (Token \<times> ObjScanner) option" where
  "angle c shift_type equal_type plain_type sc = do {
     d \<leftarrow> sc_peek sc;
     Some (if d = c then (makeToken (sc_advance sc) shift_type, sc_advance sc)
           else if d = CHR ''='' then (makeToken (sc_advance sc) equal_type, sc_advance sc)
           else (makeToken sc plain_type, sc))
   }"

definition scan_punctuation :: "char \<Rightarrow> ObjScanner \<Rightarrow> (Token \<times> ObjScanner) option" where
  "scan_punctuation c sc =
     (case map_of single_tokens c of
        Some t \<Rightarrow> Some (makeToken sc t, sc)
      | None \<Rightarrow>
          if c = CHR ''@'' then do {
            d \<leftarrow> sc_peek sc;
            if d = CHR ''x'' \<or> d = CHR ''X'' then sc_address sc else Some (makeToken sc TOKEN_AT, sc)
          }
          else if c = CHR ''!'' then do {
            (m, sc1) \<leftarrow> sc_match CHR ''='' sc;
            Some (makeToken sc1 (if m then TOKEN_BANG_EQUAL else TOKEN_BANG), sc1)
          }
          else if c = CHR ''='' then do {
            (m, sc1) \<leftarrow> sc_match CHR ''='' sc;
            Some (makeToken sc1 (if m then TOKEN_EQUAL_EQUAL else TOKEN_EQUAL), sc1)
          }
          else if c = CHR ''<'' then angle CHR ''<'' TOKEN_LEFT_SHIFT TOKEN_LESS_EQUAL TOKEN_LESS sc
          else if c = CHR ''>'' then angle CHR ''>'' TOKEN_RIGHT_SHIFT TOKEN_GREATER_EQUAL TOKEN_GREATER sc
          else if c = CHR 0x22 then sc_string sc
          else Some (errorToken sc ''Unexpected character.'', sc))"

definition scanToken :: "ObjScanner \<Rightarrow> (Token \<times> ObjScanner) option" where
  "scanToken sc0 = do {
     sc1 \<leftarrow> skipWhitespace sc0;
     let sc = sc1\<lparr>s_start := s_current sc1\<rparr>;
     e \<leftarrow> isAtEnd sc;
     if e then Some (makeToken sc TOKEN_EOF, sc)
     else do {
       c \<leftarrow> sc_peek sc;
       let sc = sc_advance sc;
       if isAlpha c then sc_identifier sc
       else if isDigit c then sc_number sc
       else scan_punctuation c sc
     }
   }"

end
