(* ===== verification/Scanner_Theorems.thy ===== *)
theory Scanner_Theorems
  imports Scanner
begin

section \<open>Theorems on the scanner\<close>

text \<open>
  The invariant \<open>scan_ok\<close> says that the positions are inside the source and that the line number
  is one more than the number of newlines consumed. Each scanning function is shown to keep it
  (\<open>scans\<close>), so that a scanner that starts well stays well.
\<close>

subsection \<open>Invariant\<close>

definition newlines :: "string \<Rightarrow> nat" where
  "newlines s = length (filter (\<lambda>c. c = CHR 0x0A) s)"

definition scan_ok :: "ObjScanner \<Rightarrow> bool" where
  "scan_ok sc \<longleftrightarrow> s_start sc \<le> s_current sc \<and> s_current sc \<le> length (s_source sc) \<and>
     s_line sc = 1 + newlines (take (s_current sc) (s_source sc))"

text \<open>\<open>scans sc sc'\<close>: the second state is the first with more of the same source consumed.\<close>

definition scans :: "ObjScanner \<Rightarrow> ObjScanner \<Rightarrow> bool" where
  "scans sc sc' \<longleftrightarrow> s_source sc' = s_source sc \<and> s_start sc' = s_start sc \<and>
     s_current sc \<le> s_current sc' \<and> scan_ok sc'"

lemma scans_refl [simp]: "scan_ok sc \<Longrightarrow> scans sc sc"
  by (simp add: scans_def)

lemma scans_trans [trans]: "scans a b \<Longrightarrow> scans b c \<Longrightarrow> scans a c"
  by (auto simp: scans_def)

lemma scans_ok: "scans a b \<Longrightarrow> scan_ok b"
  by (simp add: scans_def)

lemma newlines_take_Suc:
  "n < length s \<Longrightarrow> newlines (take (Suc n) s) = newlines (take n s) + (if s ! n = CHR 0x0A then 1 else 0)"
  by (simp add: newlines_def take_Suc_conv_app_nth)

lemma peek_Some_lt: "sc_peek sc = Some c \<Longrightarrow> c \<noteq> NUL \<Longrightarrow> s_current sc < length (s_source sc) \<and> s_source sc ! s_current sc = c"
  by (auto simp: sc_peek_def char_at_def split: if_splits)

lemma peek_ok: "scan_ok sc \<Longrightarrow> \<exists>c. sc_peek sc = Some c"
  by (auto simp: sc_peek_def char_at_def scan_ok_def)

lemma advance_scans:
  assumes "scan_ok sc" "sc_peek sc = Some c" "c \<noteq> NUL" "c \<noteq> CHR 0x0A"
  shows "scans sc (sc_advance sc)"
  using assms peek_Some_lt [OF assms(2,3)]
  by (auto simp: scans_def scan_ok_def sc_advance_def newlines_take_Suc)

lemma advance_line_scans:
  assumes "scan_ok sc" "sc_peek sc = Some (CHR 0x0A)"
  shows "scans sc (sc_advance (sc\<lparr>s_line := s_line sc + 1\<rparr>))"
  using assms peek_Some_lt [OF assms(2)]
  by (auto simp: scans_def scan_ok_def sc_advance_def newlines_take_Suc NUL_def)

lemma scan_while_scans:
  assumes "scan_ok sc" "\<not> p NUL" "\<not> p (CHR 0x0A)"
  shows "\<exists>sc'. scan_while p sc = Some sc' \<and> scans sc sc' \<and>
    (\<exists>c. sc_peek sc' = Some c \<and> \<not> p c)"
  using assms
proof (induction p sc rule: scan_while.induct)
  case (1 p sc)
  obtain c where c: "sc_peek sc = Some c" using peek_ok [OF "1.prems"(1)] by blast
  show ?case
  proof (cases "p c")
    case True
    then have "scans sc (sc_advance sc)" using advance_scans [OF "1.prems"(1) c] "1.prems" by metis
    then show ?thesis
      using "1.IH" [OF c True] "1.prems" True c scans_ok scans_trans
      by (subst scan_while.simps) auto
  next
    case False
    then show ?thesis using c "1.prems" by (subst scan_while.simps) simp
  qed
qed

lemma isAtEnd_ok: "scan_ok sc \<Longrightarrow> \<exists>c. sc_peek sc = Some c \<and> isAtEnd sc = Some (c = NUL)"
  using peek_ok [of sc] by (auto simp: isAtEnd_def)

lemma peekNext_ok: "scan_ok sc \<Longrightarrow> \<exists>c. peekNext sc = Some c"
  by (auto simp: peekNext_def isAtEnd_def sc_peek_def char_at_def scan_ok_def)

lemma skipWhitespace_scans:
  assumes "scan_ok sc"
  shows "\<exists>sc'. skipWhitespace sc = Some sc' \<and> scans sc sc' \<and> sc_peek sc' \<noteq> Some (CHR 0x0A)"
  using assms
proof (induction sc rule: skipWhitespace.induct)
  case (1 sc)
  obtain c where c: "sc_peek sc = Some c" using peek_ok [OF "1.prems"] by blast
  consider (blank) "c = CHR '' '' \<or> c = CHR 0x0D \<or> c = CHR 0x09" | (line) "c = CHR 0x0A"
    | (slash) "c = CHR ''/''" | (other) "c \<noteq> CHR '' ''" "c \<noteq> CHR 0x0D" "c \<noteq> CHR 0x09" "c \<noteq> CHR 0x0A" "c \<noteq> CHR ''/''"
    by blast
  then show ?case
  proof cases
    case blank
    then have "scans sc (sc_advance sc)" using advance_scans [OF "1.prems" c] by (auto simp: NUL_def)
    then show ?thesis using "1.IH"(1) [OF c blank] scans_ok scans_trans c blank by (subst skipWhitespace.simps) auto
  next
    case line
    have nb: "\<not> (c = CHR '' '' \<or> c = CHR 0x0D \<or> c = CHR 0x09)" using line by simp
    have "scans sc (sc_advance (sc\<lparr>s_line := s_line sc + 1\<rparr>))" using advance_line_scans "1.prems" c line by simp
    then show ?thesis using "1.IH"(2) [OF c nb line] scans_ok scans_trans c line by (subst skipWhitespace.simps) auto
  next
    case slash
    obtain n where n: "peekNext sc = Some n" using peekNext_ok [OF "1.prems"] by blast
    show ?thesis
    proof (cases "n = CHR ''/''")
      case True
      obtain sc1 where w: "scan_while (\<lambda>c. c \<noteq> CHR 0x0A \<and> c \<noteq> NUL) sc = Some sc1" "scans sc sc1"
        using scan_while_scans [OF "1.prems", of "\<lambda>c. c \<noteq> CHR 0x0A \<and> c \<noteq> NUL"] by auto
      have nb: "\<not> (c = CHR '' '' \<or> c = CHR 0x0D \<or> c = CHR 0x09)" "c \<noteq> CHR 0x0A" using slash by simp_all
      show ?thesis
        using "1.IH"(3) [OF c nb slash n True w(1)] w scans_ok scans_trans c slash n True
        by (subst skipWhitespace.simps) auto
    next
      case False
      then show ?thesis using c slash n "1.prems" by (subst skipWhitespace.simps) auto
    qed
  next
    case other
    then show ?thesis using c "1.prems" by (subst skipWhitespace.simps) auto
  qed
qed

subsection \<open>Every kind of token\<close>

text \<open>What a function that makes a token does: it keeps the invariant and goes forward.\<close>

definition scans_token :: "ObjScanner \<Rightarrow> (Token \<times> ObjScanner) option \<Rightarrow> bool" where
  "scans_token sc r \<longleftrightarrow>
     (case r of
        None \<Rightarrow> False
      | Some (t, sc') \<Rightarrow> scans sc sc' \<and> t_line t = s_line sc' \<and>
          (t_type t \<noteq> TOKEN_ERROR \<longrightarrow> t_start t = InSource (s_start sc) \<and> t_length t = s_current sc' - s_start sc))"

lemma scans_token_make: "scans sc sc' \<Longrightarrow> scans_token sc (Some (makeToken sc' t, sc'))"
  by (simp add: scans_token_def makeToken_def scans_def)

lemma scans_token_error: "scans sc sc' \<Longrightarrow> scans_token sc (Some (errorToken sc' m, sc'))"
  by (simp add: scans_token_def errorToken_def)

lemma scans_token_trans: "scans sc sc1 \<Longrightarrow> scans_token sc1 r \<Longrightarrow> scans_token sc r"
  using scans_trans by (auto simp: scans_token_def scans_def split: option.splits prod.splits)

lemma digits_not_special [simp]:
  "\<not> isRadixDigit NUL r" "\<not> isRadixDigit (CHR 0x0A) r" "\<not> isAlpha NUL" "\<not> isAlpha (CHR 0x0A)"
  "\<not> isDigit NUL" "\<not> isDigit (CHR 0x0A)" "\<not> isRadix NUL" "\<not> isRadix (CHR 0x0A)"
  by (simp_all add: isRadixDigit_def isHexDigit_def isDigit_def isBinDigit_def isAlpha_def isRadix_def char_in_def NUL_def)

lemma sc_identifier_scans: "scan_ok sc \<Longrightarrow> scans_token sc (sc_identifier sc)"
  using scan_while_scans [of sc "\<lambda>c. isAlpha c \<or> isDigit c"] scans_token_make by (auto simp: sc_identifier_def)

lemma number_fraction_scans: "scan_ok sc \<Longrightarrow> \<exists>sc'. number_fraction r sc = Some sc' \<and> scans sc sc'"
  using isAtEnd_ok [of sc] peekNext_ok [of sc] advance_scans [of sc] by (auto simp: number_fraction_def NUL_def)

lemma number_exponent_scans:
  assumes "scan_ok sc"
  shows "\<exists>sc'. number_exponent r sc = Some sc' \<and> scans sc sc'"
proof -
  obtain c where c: "sc_peek sc = Some c" using peek_ok [OF assms] by blast
  obtain n where n: "peekNext sc = Some n" using peekNext_ok [OF assms] by blast
  show ?thesis
  proof (cases "r = 10 \<and> (c = CHR ''e'' \<or> c = CHR ''E'') \<and> (n = CHR ''-'' \<or> isDigit n)")
    case True
    then have a: "scans sc (sc_advance sc)" using advance_scans [OF assms c] by (auto simp: NUL_def)
    obtain c1 where c1: "sc_peek (sc_advance sc) = Some c1" using peek_ok [OF scans_ok [OF a]] by blast
    have "c1 = CHR ''-'' \<Longrightarrow> scans (sc_advance sc) (sc_advance (sc_advance sc))"
      using advance_scans [OF scans_ok [OF a] c1] by (simp add: NUL_def)
    then show ?thesis using True c n c1 a scans_trans by (auto simp: number_exponent_def Let_def)
  next
    case False
    then show ?thesis using c n assms by (auto simp: number_exponent_def)
  qed
qed

lemma number_digits_scans:
  assumes "scan_ok sc"
  shows "scans_token sc (number_digits r sc)"
proof -
  let ?p = "\<lambda>c. isRadixDigit c r"
  obtain s1 where 1: "scan_while ?p sc = Some s1" "scans sc s1" using scan_while_scans [OF assms, of ?p] by auto
  obtain s2 where 2: "number_fraction r s1 = Some s2" "scans s1 s2" using number_fraction_scans [OF scans_ok [OF 1(2)]] by blast
  obtain s3 where 3: "scan_while ?p s2 = Some s3" "scans s2 s3" using scan_while_scans [OF scans_ok [OF 2(2)], of ?p] by auto
  obtain s4 where 4: "number_exponent r s3 = Some s4" "scans s3 s4" using number_exponent_scans [OF scans_ok [OF 3(2)]] by blast
  obtain s5 where 5: "scan_while ?p s4 = Some s5" "scans s4 s5" using scan_while_scans [OF scans_ok [OF 4(2)], of ?p] by auto
  have "scans sc s5" using 1 2 3 4 5 scans_trans by blast
  then show ?thesis using 1 2 3 4 5 scans_token_make by (simp add: number_digits_def)
qed

lemma sc_number_scans:
  assumes "scan_ok sc"
  shows "scans_token sc (sc_number sc)"
proof -
  obtain c where c: "sc_peek sc = Some c" using peek_ok [OF assms] by blast
  show ?thesis
  proof (cases "isRadix c")
    case True
    then have a: "scans sc (sc_advance sc)" using advance_scans [OF assms c] by (metis digits_not_special(7,8))
    obtain d where d: "sc_peek (sc_advance sc) = Some d" using peek_ok [OF scans_ok [OF a]] by blast
    have "scans_token (sc_advance sc) (number_digits (radixType c) (sc_advance sc))"
      using number_digits_scans [OF scans_ok [OF a]] .
    then show ?thesis
      using True c d a scans_token_error scans_token_trans by (auto simp: sc_number_def Let_def)
  next
    case False
    then show ?thesis using c number_digits_scans [OF assms] by (simp add: sc_number_def)
  qed
qed

lemma sc_address_scans:
  assumes "scan_ok sc" "sc_peek sc = Some c" "c \<noteq> NUL" "c \<noteq> CHR 0x0A"
  shows "scans_token sc (sc_address sc)"
proof -
  have a: "scans sc (sc_advance sc)" by (rule advance_scans [OF assms])
  obtain s1 where "scan_while (\<lambda>c. isRadixDigit c 16) (sc_advance sc) = Some s1" "scans (sc_advance sc) s1"
    using scan_while_scans [OF scans_ok [OF a], of "\<lambda>c. isRadixDigit c 16"] by auto
  then show ?thesis using a scans_trans scans_token_make by (simp add: sc_address_def)
qed

lemma sc_match_scans:
  assumes "scan_ok sc" "e \<noteq> NUL" "e \<noteq> CHR 0x0A"
  shows "\<exists>m sc'. sc_match e sc = Some (m, sc') \<and> scans sc sc'"
proof -
  obtain c where c: "sc_peek sc = Some c" "isAtEnd sc = Some (c = NUL)" using isAtEnd_ok [OF assms(1)] by blast
  then show ?thesis using advance_scans [OF assms(1) c(1)] assms by (auto simp: sc_match_def)
qed

lemma angle_scans:
  assumes "scan_ok sc" "e \<noteq> NUL" "e \<noteq> CHR 0x0A"
  shows "scans_token sc (angle e t1 t2 t3 sc)"
proof -
  obtain c where c: "sc_peek sc = Some c" using peek_ok [OF assms(1)] by blast
  have "c = e \<or> c = CHR ''='' \<Longrightarrow> scans sc (sc_advance sc)"
    using advance_scans [OF assms(1) c] assms by (auto simp: NUL_def)
  then show ?thesis using c assms scans_token_make by (auto simp: angle_def)
qed

text \<open>
  A string literal is scanned without reading past the end of the source if the source does not
  end with a backslash.
\<close>

definition ends_in_backslash :: "string \<Rightarrow> bool" where
  "ends_in_backslash s \<longleftrightarrow> s \<noteq> [] \<and> last s = CHR 0x5C"

lemma advance_in_source:
  assumes "scan_ok sc" "s_current sc < length (s_source sc)"
  shows "scans sc (sc_advance (if s_source sc ! s_current sc = CHR 0x0A then sc\<lparr>s_line := s_line sc + 1\<rparr> else sc))"
  using assms by (auto simp: scans_def scan_ok_def sc_advance_def newlines_take_Suc)

lemma string_loop_scans:
  assumes "scan_ok sc" "\<not> ends_in_backslash (s_source sc)"
  shows "\<exists>sc'. string_loop sc = Some sc' \<and> scans sc sc' \<and>
    (sc_peek sc' = Some (CHR 0x22) \<or> sc_peek sc' = Some NUL)"
  using assms
proof (induction sc rule: string_loop.induct)
  case (1 sc)
  obtain c where c: "sc_peek sc = Some c" using peek_ok [OF "1.prems"(1)] by blast
  show ?case
  proof (cases "c \<noteq> CHR 0x22 \<and> c \<noteq> NUL")
    case True
    have lt: "s_current sc < length (s_source sc)" "s_source sc ! s_current sc = c"
      using peek_Some_lt [OF c] True by auto
    define sc1 where "sc1 = (if c = CHR 0x5C then sc_advance sc else sc)"
    have s1: "scans sc sc1" "s_source sc1 = s_source sc"
      using advance_scans [OF "1.prems"(1) c] True "1.prems"(1) by (auto simp: sc1_def NUL_def scans_def)
    have lt1: "s_current sc1 < length (s_source sc1)"
    proof (cases "c = CHR 0x5C")
      case bs: True
      have ne: "s_source sc \<noteq> []" using lt(1) by auto
      then have "s_source sc ! (length (s_source sc) - 1) \<noteq> c"
        using "1.prems"(2) bs unfolding last_conv_nth [OF ne, symmetric] by (simp add: ends_in_backslash_def)
      then have "s_current sc \<noteq> length (s_source sc) - 1" using lt by auto
      then show ?thesis using lt bs by (simp add: sc1_def sc_advance_def)
    qed (use lt in \<open>simp add: sc1_def\<close>)
    let ?d = "s_source sc1 ! s_current sc1"
    let ?sc2 = "sc_advance (if ?d = CHR 0x0A then sc1\<lparr>s_line := s_line sc1 + 1\<rparr> else sc1)"
    have d: "sc_peek sc1 = Some ?d" using lt1 by (simp add: sc_peek_def char_at_def)
    have s2: "scans sc1 ?sc2" by (rule advance_in_source [OF scans_ok [OF s1(1)] lt1])
    then have src: "s_source ?sc2 = s_source sc" using s1(2) by (simp add: scans_def)
    have step: "string_loop sc = string_loop ?sc2"
      using c True d by (subst string_loop.simps) (simp add: sc1_def Let_def)
    have "\<exists>sc'. string_loop ?sc2 = Some sc' \<and> scans ?sc2 sc' \<and> (sc_peek sc' = Some (CHR 0x22) \<or> sc_peek sc' = Some NUL)"
      by (rule "1.IH" [OF c True sc1_def d scans_ok [OF s2]]) (use "1.prems"(2) src in simp)
    then show ?thesis using step s1(1) s2 scans_trans by metis
  next
    case False
    then show ?thesis using c "1.prems" by (subst string_loop.simps) auto
  qed
qed

lemma sc_string_scans:
  assumes "scan_ok sc" "\<not> ends_in_backslash (s_source sc)"
  shows "scans_token sc (sc_string sc)"
proof -
  obtain sc' where s: "string_loop sc = Some sc'" "scans sc sc'" "sc_peek sc' = Some (CHR 0x22) \<or> sc_peek sc' = Some NUL"
    using string_loop_scans [OF assms] by blast
  have "sc_peek sc' = Some (CHR 0x22) \<Longrightarrow> scans sc (sc_advance sc')"
    using advance_scans [OF scans_ok [OF s(2)]] s(2) scans_trans by (auto simp: NUL_def)
  then show ?thesis
    using s scans_token_make scans_token_error by (auto simp: sc_string_def isAtEnd_def Let_def NUL_def)
qed

lemma scan_punctuation_scans:
  assumes "scan_ok sc" "\<not> ends_in_backslash (s_source sc)"
  shows "scans_token sc (scan_punctuation c sc)"
proof (cases "map_of single_tokens c")
  case (Some t)
  then show ?thesis using assms(1) scans_token_make by (simp add: scan_punctuation_def)
next
  case None
  obtain d where d: "sc_peek sc = Some d" using peek_ok [OF assms(1)] by blast
  obtain m sc1 where m: "sc_match (CHR ''='') sc = Some (m, sc1)" "scans sc sc1"
    using sc_match_scans [OF assms(1), of "CHR ''=''"] by (auto simp: NUL_def)
  have "d = CHR ''x'' \<or> d = CHR ''X'' \<Longrightarrow> scans_token sc (sc_address sc)"
    using sc_address_scans [OF assms(1) d] by (auto simp: NUL_def)
  moreover have "scans_token sc (angle (CHR ''<'') t1 t2 t3 sc)" "scans_token sc (angle (CHR ''>'') t1 t2 t3 sc)" for t1 t2 t3
    using angle_scans [OF assms(1)] by (simp_all add: NUL_def)
  ultimately show ?thesis
    using None d m assms(1) sc_string_scans [OF assms] scans_token_make scans_token_error
    by (simp add: scan_punctuation_def)
qed

subsection \<open>The scanner\<close>

lemma scanToken_step:
  assumes ok: "scan_ok sc" and src: "\<not> ends_in_backslash (s_source sc)"
  obtains t sc' where "scanToken sc = Some (t, sc')" "scan_ok sc'" "s_source sc' = s_source sc"
    "s_current sc \<le> s_start sc'" "t_line t = s_line sc'"
    "t_type t \<noteq> TOKEN_ERROR \<longrightarrow> t_start t = InSource (s_start sc') \<and> t_length t = s_current sc' - s_start sc'"
    "t = makeToken sc' TOKEN_EOF \<and> sc_peek sc' = Some NUL \<or> s_start sc' < s_current sc'"
proof -
  obtain sc1 where w: "skipWhitespace sc = Some sc1" "scans sc sc1" "sc_peek sc1 \<noteq> Some (CHR 0x0A)"
    using skipWhitespace_scans [OF ok] by blast
  let ?sc = "sc1\<lparr>s_start := s_current sc1\<rparr>"
  have ok2: "scan_ok ?sc" using scans_ok [OF w(2)] by (simp add: scan_ok_def)
  obtain c where c: "sc_peek ?sc = Some c" "isAtEnd ?sc = Some (c = NUL)" using isAtEnd_ok [OF ok2] by blast
  have pk: "sc_peek ?sc = sc_peek sc1" by (simp add: sc_peek_def)
  show ?thesis
  proof (cases "c = NUL")
    case True
    have "scanToken sc = Some (makeToken ?sc TOKEN_EOF, ?sc)" using w c True by (simp add: scanToken_def Let_def)
    then show ?thesis using that [of "makeToken ?sc TOKEN_EOF" ?sc] w ok2 c True by (simp add: makeToken_def scans_def)
  next
    case False
    have a: "scans ?sc (sc_advance ?sc)" using advance_scans [OF ok2 c(1) False] w(3) c(1) pk by auto
    have "\<not> ends_in_backslash (s_source (sc_advance ?sc))" using src a w(2) by (simp add: scans_def)
    then have "scans_token (sc_advance ?sc) (if isAlpha c then sc_identifier (sc_advance ?sc)
        else if isDigit c then sc_number (sc_advance ?sc) else scan_punctuation c (sc_advance ?sc))"
      using sc_identifier_scans sc_number_scans scan_punctuation_scans scans_ok [OF a] by simp
    then obtain t sc' where t: "scanToken sc = Some (t, sc')" "scans (sc_advance ?sc) sc'" "t_line t = s_line sc'"
      "t_type t \<noteq> TOKEN_ERROR \<longrightarrow> t_start t = InSource (s_start (sc_advance ?sc)) \<and>
         t_length t = s_current sc' - s_start (sc_advance ?sc)"
      using w c False by (auto simp: scanToken_def scans_token_def Let_def split: option.splits if_splits)
    have e: "s_start (sc_advance ?sc) = s_current sc1" "s_current (sc_advance ?sc) = s_current sc1 + 1"
      by (simp_all add: sc_advance_def)
    show ?thesis
      by (rule that [OF t(1)]) (use t e a w in \<open>auto simp: scans_def\<close>)
  qed
qed

text \<open>All tokens of a source: \<open>fuel\<close> bounds the number of calls of \<open>scanToken\<close>.\<close>

fun scan_all :: "nat \<Rightarrow> ObjScanner \<Rightarrow> Token list option" where
  "scan_all 0 sc = None"
| "scan_all (Suc fuel) sc = do {
     (t, sc1) \<leftarrow> scanToken sc;
     if t_type t = TOKEN_EOF then Some [t] else map_option (\<lambda>ts. t # ts) (scan_all fuel sc1)
   }"

lemma scan_all_ends:
  assumes "scan_ok sc" "\<not> ends_in_backslash (s_source sc)" "length (s_source sc) - s_current sc < fuel"
  shows "\<exists>ts. scan_all fuel sc = Some ts \<and> ts \<noteq> [] \<and> t_type (last ts) = TOKEN_EOF \<and>
    length ts \<le> length (s_source sc) - s_current sc + 1"
  using assms
proof (induction fuel arbitrary: sc)
  case (Suc fuel)
  obtain t sc' where t: "scanToken sc = Some (t, sc')" "scan_ok sc'" "s_source sc' = s_source sc"
    "s_current sc \<le> s_start sc'" "t = makeToken sc' TOKEN_EOF \<and> sc_peek sc' = Some NUL \<or> s_start sc' < s_current sc'"
    by (rule scanToken_step [OF Suc.prems(1,2)]) blast
  show ?case
  proof (cases "t_type t = TOKEN_EOF")
    case True
    then show ?thesis using t(1) by simp
  next
    case False
    then have lt: "s_current sc < s_current sc'" using t(4,5) by (auto simp: makeToken_def)
    moreover have le: "s_current sc' \<le> length (s_source sc)" using t(2,3) by (simp add: scan_ok_def)
    ultimately have "length (s_source sc') - s_current sc' < fuel" using Suc.prems(3) t(3) by simp
    then obtain ts where ts: "scan_all fuel sc' = Some ts" "ts \<noteq> []" "t_type (last ts) = TOKEN_EOF"
      "length ts \<le> length (s_source sc') - s_current sc' + 1"
      using Suc.IH [OF t(2)] Suc.prems(2) t(3) by auto
    then show ?thesis using False t(1,3) lt le by auto
  qed
qed simp

subsection \<open>Keywords\<close>

definition keyword_table :: "(string \<times> TokenType) list" where
  "keyword_table =
    [(''and'', TOKEN_AND),
     (''any'', TOKEN_ANY),
     (''bool'', TOKEN_BOOL),
     (''break'', TOKEN_BREAK),
     (''class'', TOKEN_CLASS),
     (''compile'', TOKEN_COMPILE),
     (''const'', TOKEN_CONST),
     (''continue'', TOKEN_CONTINUE),
     (''cpeek'', TOKEN_CPEEK),
     (''defer'', TOKEN_DEFER),
     (''else'', TOKEN_ELSE),
     (''error'', TOKEN_STMT_ERROR),
     (''false'', TOKEN_FALSE),
     (''for'', TOKEN_FOR),
     (''fun'', TOKEN_FUN),
     (''if'', TOKEN_IF),
     (''int'', TOKEN_INT),
     (''int8'', TOKEN_INT8),
     (''int16'', TOKEN_INT16),
     (''int32'', TOKEN_INT32),
     (''int64'', TOKEN_INT64),
     (''len'', TOKEN_LEN),
     (''load'', TOKEN_LOAD),
     (''mfloat64'', TOKEN_MACHINE_FLOAT64),
     (''make_channel'', TOKEN_MAKE_CHANNEL),
     (''make_routine'', TOKEN_MAKE_ROUTINE),
     (''make_sync_group'', TOKEN_MAKE_SYNCGROUP),
     (''new'', TOKEN_NEW),
     (''nil'', TOKEN_NIL),
     (''or'', TOKEN_OR),
     (''peek'', TOKEN_PEEK),
     (''pin'', TOKEN_PIN),
     (''place'', TOKEN_PLACE),
     (''poke'', TOKEN_POKE),
     (''print'', TOKEN_PRINT),
     (''read_yarg_source'', TOKEN_READ_YARG_SOURCE),
     (''receive'', TOKEN_RECEIVE),
     (''resume'', TOKEN_RESUME),
     (''return'', TOKEN_RETURN),
     (''send'', TOKEN_SEND),
     (''share'', TOKEN_SHARE),
     (''start'', TOKEN_START),
     (''string'', TOKEN_TYPE_STRING),
     (''struct'', TOKEN_STRUCT),
     (''super'', TOKEN_SUPER),
     (''test_interrupt'', TOKEN_TS_INTERRUPT),
     (''test_read'', TOKEN_TS_READ),
     (''test_set'', TOKEN_TS_SET),
     (''test_sync'', TOKEN_TS_SYNC),
     (''test_write'', TOKEN_TS_WRITE),
     (''this'', TOKEN_THIS),
     (''true'', TOKEN_TRUE),
     (''uint8'', TOKEN_UINT8),
     (''uint16'', TOKEN_UINT16),
     (''uint32'', TOKEN_UINT32),
     (''uint64'', TOKEN_UINT64),
     (''var'', TOKEN_VAR),
     (''vm_read_xip_file'', TOKEN_VM_READ_XIP_FILE),
     (''while'', TOKEN_WHILE),
     (''yield'', TOKEN_YIELD)]"

text \<open>
  Two words that are not keywords are taken for one, by the missing \<^verbatim>\<open>break\<close> statements.
\<close>

definition fall_through_words :: "(string \<times> TokenType) list" where
  "fall_through_words = [(''coeek'', TOKEN_CPEEK), (''teis'', TOKEN_THIS)]"

lemma checkKeyword_drop:
  "l = length rest \<Longrightarrow>
   checkKeyword w k l rest t = (if k \<le> length w \<and> drop k w = rest then t else TOKEN_IDENTIFIER)"
  by (auto simp: checkKeyword_def)

lemma list8_cases:
  obtains "r = []" | a where "r = [a]" | a b where "r = [a, b]" | a b c where "r = [a, b, c]"
  | a b c d where "r = [a, b, c, d]" | a b c d e where "r = [a, b, c, d, e]"
  | a b c d e f where "r = [a, b, c, d, e, f]" | a b c d e f g x where "r = a # b # c # d # e # f # g # x"
  by (metis neq_Nil_conv)

text \<open>Each branch of the \<^verbatim>\<open>switch\<close> compares the rest of the word with its keywords.\<close>

lemma identifierType_a_rest:
  "identifierType_a (CHR ''a'' # r) = (if r = ''nd'' then TOKEN_AND else if r = ''ny'' then TOKEN_ANY else TOKEN_IDENTIFIER)"
  by (cases r rule: list8_cases) (simp_all add: identifierType_a_def checkKeyword_drop)

lemma identifierType_b_rest:
  "identifierType_b (CHR ''b'' # r) = (if r = ''ool'' then TOKEN_BOOL else if r = ''reak'' then TOKEN_BREAK else TOKEN_IDENTIFIER)"
  by (cases r rule: list8_cases) (simp_all add: identifierType_b_def checkKeyword_drop)

lemma identifierType_c_rest:
  "identifierType_c (CHR ''c'' # r) = (if r = ''lass'' then TOKEN_CLASS else if r = ''ompile'' then TOKEN_COMPILE else if r = ''onst'' then TOKEN_CONST else if r = ''ontinue'' then TOKEN_CONTINUE else if r = ''peek'' then TOKEN_CPEEK else if r = ''oeek'' then TOKEN_CPEEK else TOKEN_IDENTIFIER)"
  by (cases r rule: list8_cases) (simp_all add: identifierType_c_def checkKeyword_drop)

lemma identifierType_d_rest:
  "identifierType_d (CHR ''d'' # r) = (if r = ''efer'' then TOKEN_DEFER else TOKEN_IDENTIFIER)"
  by (cases r rule: list8_cases) (simp_all add: identifierType_d_def checkKeyword_drop)

lemma identifierType_e_rest:
  "identifierType_e (CHR ''e'' # r) = (if r = ''lse'' then TOKEN_ELSE else if r = ''rror'' then TOKEN_STMT_ERROR else TOKEN_IDENTIFIER)"
  by (cases r rule: list8_cases) (simp_all add: identifierType_e_def checkKeyword_drop)

lemma identifierType_f_rest:
  "identifierType_f (CHR ''f'' # r) = (if r = ''alse'' then TOKEN_FALSE else if r = ''or'' then TOKEN_FOR else if r = ''un'' then TOKEN_FUN else TOKEN_IDENTIFIER)"
  by (cases r rule: list8_cases) (simp_all add: identifierType_f_def checkKeyword_drop)

lemma identifierType_i_rest:
  "identifierType_i (CHR ''i'' # r) = (if r = ''f'' then TOKEN_IF else if r = ''nt'' then TOKEN_INT else if r = ''nt8'' then TOKEN_INT8 else if r = ''nt16'' then TOKEN_INT16 else if r = ''nt32'' then TOKEN_INT32 else if r = ''nt64'' then TOKEN_INT64 else TOKEN_IDENTIFIER)"
  by (cases r rule: list8_cases) (simp_all add: identifierType_i_def checkKeyword_drop)

lemma identifierType_l_rest:
  "identifierType_l (CHR ''l'' # r) = (if r = ''en'' then TOKEN_LEN else if r = ''oad'' then TOKEN_LOAD else TOKEN_IDENTIFIER)"
  by (cases r rule: list8_cases) (simp_all add: identifierType_l_def checkKeyword_drop)

lemma identifierType_m_rest:
  "identifierType_m (CHR ''m'' # r) = (if r = ''float64'' then TOKEN_MACHINE_FLOAT64 else if r = ''ake_channel'' then TOKEN_MAKE_CHANNEL else if r = ''ake_routine'' then TOKEN_MAKE_ROUTINE else if r = ''ake_sync_group'' then TOKEN_MAKE_SYNCGROUP else TOKEN_IDENTIFIER)"
  by (cases r rule: list8_cases) (simp_all add: identifierType_m_def checkKeyword_drop)

lemma identifierType_n_rest:
  "identifierType_n (CHR ''n'' # r) = (if r = ''ew'' then TOKEN_NEW else if r = ''il'' then TOKEN_NIL else TOKEN_IDENTIFIER)"
  by (cases r rule: list8_cases) (simp_all add: identifierType_n_def checkKeyword_drop)

lemma identifierType_p_rest:
  "identifierType_p (CHR ''p'' # r) = (if r = ''eek'' then TOKEN_PEEK else if r = ''in'' then TOKEN_PIN else if r = ''lace'' then TOKEN_PLACE else if r = ''oke'' then TOKEN_POKE else if r = ''rint'' then TOKEN_PRINT else TOKEN_IDENTIFIER)"
  by (cases r rule: list8_cases) (simp_all add: identifierType_p_def checkKeyword_drop)

lemma identifierType_r_rest:
  "identifierType_r (CHR ''r'' # r) = (if r = ''ead_yarg_source'' then TOKEN_READ_YARG_SOURCE else if r = ''eceive'' then TOKEN_RECEIVE else if r = ''esume'' then TOKEN_RESUME else if r = ''eturn'' then TOKEN_RETURN else TOKEN_IDENTIFIER)"
  by (cases r rule: list8_cases) (simp_all add: identifierType_r_def checkKeyword_drop)

lemma identifierType_s_rest:
  "identifierType_s (CHR ''s'' # r) = (if r = ''end'' then TOKEN_SEND else if r = ''hare'' then TOKEN_SHARE else if r = ''tart'' then TOKEN_START else if r = ''tring'' then TOKEN_TYPE_STRING else if r = ''truct'' then TOKEN_STRUCT else if r = ''uper'' then TOKEN_SUPER else TOKEN_IDENTIFIER)"
  by (cases r rule: list8_cases) (simp_all add: identifierType_s_def checkKeyword_drop)

lemma identifierType_t_rest:
  "identifierType_t (CHR ''t'' # r) = (if r = ''est_interrupt'' then TOKEN_TS_INTERRUPT else if r = ''est_read'' then TOKEN_TS_READ else if r = ''est_set'' then TOKEN_TS_SET else if r = ''est_sync'' then TOKEN_TS_SYNC else if r = ''est_write'' then TOKEN_TS_WRITE else if r = ''his'' then TOKEN_THIS else if r = ''rue'' then TOKEN_TRUE else if r = ''eis'' then TOKEN_THIS else TOKEN_IDENTIFIER)"
  by (cases r rule: list8_cases) (simp_all add: identifierType_t_def checkKeyword_drop)

lemma identifierType_u_rest:
  "identifierType_u (CHR ''u'' # r) = (if r = ''int8'' then TOKEN_UINT8 else if r = ''int16'' then TOKEN_UINT16 else if r = ''int32'' then TOKEN_UINT32 else if r = ''int64'' then TOKEN_UINT64 else TOKEN_IDENTIFIER)"
  by (cases r rule: list8_cases) (simp_all add: identifierType_u_def checkKeyword_drop)

lemma identifierType_v_rest:
  "identifierType_v (CHR ''v'' # r) = (if r = ''ar'' then TOKEN_VAR else if r = ''m_read_xip_file'' then TOKEN_VM_READ_XIP_FILE else TOKEN_IDENTIFIER)"
  by (cases r rule: list8_cases) (simp_all add: identifierType_v_def checkKeyword_drop)

lemmas identifierType_rest = identifierType_a_rest identifierType_b_rest identifierType_c_rest identifierType_d_rest identifierType_e_rest identifierType_f_rest
  identifierType_i_rest identifierType_l_rest identifierType_m_rest identifierType_n_rest identifierType_p_rest
  identifierType_r_rest identifierType_s_rest identifierType_t_rest identifierType_u_rest identifierType_v_rest

lemma identifierType_table:
  assumes "w \<noteq> []"
  shows "identifierType w =
    (case map_of (keyword_table @ fall_through_words) w of Some t \<Rightarrow> t | None \<Rightarrow> TOKEN_IDENTIFIER)"
proof -
  obtain c r where w: "w = c # r" using assms by (cases w) auto
  have "c \<notin> set ''abcdefilmnoprstuvwy'' \<or> c = CHR ''a'' \<or> c = CHR ''b'' \<or> c = CHR ''c'' \<or> c = CHR ''d'' \<or> c = CHR ''e'' \<or> c = CHR ''f'' \<or> c = CHR ''i'' \<or> c = CHR ''l'' \<or> c = CHR ''m'' \<or> c = CHR ''n'' \<or> c = CHR ''o'' \<or> c = CHR ''p'' \<or> c = CHR ''r'' \<or> c = CHR ''s'' \<or> c = CHR ''t'' \<or> c = CHR ''u'' \<or> c = CHR ''v'' \<or> c = CHR ''w'' \<or> c = CHR ''y''" by auto
  then show ?thesis
    unfolding w keyword_table_def fall_through_words_def
    by (elim disjE) (simp_all add: identifierType_def identifierType_rest checkKeyword_drop)
qed

subsection \<open>Properties\<close>

lemma scan_while_to_end:
  assumes "\<forall>i. s_current sc \<le> i \<and> i < length (s_source sc) \<longrightarrow> p (s_source sc ! i)" "\<not> p NUL"
    "s_current sc \<le> length (s_source sc)"
  shows "scan_while p sc = Some (sc\<lparr>s_current := length (s_source sc)\<rparr>)"
  using assms
proof (induction p sc rule: scan_while.induct)
  case (1 p sc)
  show ?case
  proof (cases "s_current sc = length (s_source sc)")
    case True
    then show ?thesis using "1.prems" by (subst scan_while.simps) (simp add: sc_peek_def char_at_def)
  next
    case False
    let ?c = "s_source sc ! s_current sc"
    have c: "sc_peek sc = Some ?c" "p ?c" using False "1.prems" by (simp_all add: sc_peek_def char_at_def)
    then have "scan_while p (sc_advance sc) = Some (sc\<lparr>s_current := length (s_source sc)\<rparr>)"
      using "1.IH" [OF c] "1.prems" False by (simp add: sc_advance_def)
    then show ?thesis using c by (subst scan_while.simps) simp
  qed
qed

lemma isAlpha_not_blank:
  "isAlpha c \<Longrightarrow> c \<noteq> CHR '' '' \<and> c \<noteq> CHR 0x0D \<and> c \<noteq> CHR 0x09 \<and> c \<noteq> CHR 0x0A \<and> c \<noteq> CHR ''/'' \<and> c \<noteq> NUL"
  by (auto simp: isAlpha_def char_in_def NUL_def)

text \<open>
  C15: scanning a source that does not end in a backslash never reads outside it: from a state
  whose positions and line number are right, \<^verbatim>\<open>scanToken\<close> returns a token that covers the
  text from its start to the current position, leaves a state that is right again, and either
  consumes at least one character or returns the end-of-file token at the end of the source.
\<close>

theorem scanToken_safe_and_progresses:
  assumes "scan_ok sc" "\<not> ends_in_backslash (s_source sc)"
  shows "\<exists>t sc'. scanToken sc = Some (t, sc') \<and> scan_ok sc' \<and> s_source sc' = s_source sc \<and>
    s_current sc \<le> s_start sc' \<and> t_line t = 1 + newlines (take (s_current sc') (s_source sc)) \<and>
    (t_type t \<noteq> TOKEN_ERROR \<longrightarrow> t_start t = InSource (s_start sc') \<and> t_length t = s_current sc' - s_start sc') \<and>
    (t = makeToken sc' TOKEN_EOF \<and> sc_peek sc' = Some NUL \<or> s_start sc' < s_current sc')"
proof -
  obtain t sc' where "scanToken sc = Some (t, sc')" "scan_ok sc'" "s_source sc' = s_source sc"
    "s_current sc \<le> s_start sc'" "t_line t = s_line sc'"
    "t_type t \<noteq> TOKEN_ERROR \<longrightarrow> t_start t = InSource (s_start sc') \<and> t_length t = s_current sc' - s_start sc'"
    "t = makeToken sc' TOKEN_EOF \<and> sc_peek sc' = Some NUL \<or> s_start sc' < s_current sc'"
    by (rule scanToken_step [OF assms])
  then show ?thesis by (auto simp: scan_ok_def)
qed

lemma newScanner_ok: "scan_ok (newScanner s)" "s_source (newScanner s) = s" "s_current (newScanner s) = 0"
  by (simp_all add: scan_ok_def newScanner_def newlines_def)

theorem scanToken_safe_and_progresses_witness:
  "\<exists>t sc'. scanToken (newScanner ''x = 1;'') = Some (t, sc') \<and> scan_ok sc'"
  using scanToken_safe_and_progresses [of "newScanner ''x = 1;''"]
  by (auto simp: newScanner_ok ends_in_backslash_def)

text \<open>
  C16: scanning token after token ends: a source of \<open>n\<close> characters that does not end in a
  backslash gives at most \<open>n + 1\<close> tokens, the last one the end-of-file token.
\<close>

theorem scanning_terminates:
  assumes "\<not> ends_in_backslash s"
  shows "\<exists>ts. scan_all (length s + 1) (newScanner s) = Some ts \<and> ts \<noteq> [] \<and>
    t_type (last ts) = TOKEN_EOF \<and> length ts \<le> length s + 1"
  using scan_all_ends [OF newScanner_ok(1), of s "length s + 1"] assms by (simp add: newScanner_ok)

theorem scanning_terminates_witness:
  "\<exists>ts. scan_all 12 (newScanner ''var a = @x1'') = Some ts \<and> t_type (last ts) = TOKEN_EOF"
proof -
  have "length ''var a = @x1'' + 1 = 12" by simp
  then show ?thesis
    using scanning_terminates [of "''var a = @x1''", unfolded ends_in_backslash_def] by (auto simp del: scan_all.simps list.size)
qed

text \<open>
  C17: a source that is one identifier gives one token of its length, whose type is that of the
  keyword table, or that of an identifier for every other word, except for the two words
  \<^verbatim>\<open>coeek\<close> and \<^verbatim>\<open>teis\<close>.
\<close>

theorem identifier_scanned_by_table:
  assumes "w \<noteq> []" "isAlpha (hd w)" "\<forall>c \<in> set w. isAlpha c \<or> isDigit c"
  shows "\<exists>t sc'. scanToken (newScanner w) = Some (t, sc') \<and> t_start t = InSource 0 \<and> t_length t = length w \<and>
    t_type t = (case map_of (keyword_table @ fall_through_words) w of Some t \<Rightarrow> t | None \<Rightarrow> TOKEN_IDENTIFIER)"
proof -
  obtain c r where w: "w = c # r" using assms(1) by (cases w) auto
  have c: "isAlpha c" using assms(2) w by simp
  let ?sc = "newScanner w"
  have pk: "sc_peek ?sc = Some c" by (simp add: sc_peek_def char_at_def newScanner_def w)
  have "skipWhitespace ?sc = Some ?sc"
    using pk isAlpha_not_blank [OF c] by (subst skipWhitespace.simps) simp
  moreover have "isAtEnd ?sc = Some False" using pk isAlpha_not_blank [OF c] by (simp add: isAtEnd_def)
  moreover have s: "?sc\<lparr>s_start := s_current ?sc\<rparr> = ?sc" by (simp add: newScanner_def)
  ultimately have "scanToken ?sc = sc_identifier (sc_advance ?sc)"
    using pk c by (simp add: scanToken_def Let_def)
  moreover have "scan_while (\<lambda>c. isAlpha c \<or> isDigit c) (sc_advance ?sc) = Some (?sc\<lparr>s_current := length w\<rparr>)"
  proof -
    have "\<forall>i. i < length w \<longrightarrow> isAlpha (w ! i) \<or> isDigit (w ! i)" using assms(3) by simp
    then show ?thesis
      using scan_while_to_end [of "sc_advance ?sc" "\<lambda>c. isAlpha c \<or> isDigit c"]
        assms(1) by (simp add: sc_advance_def newScanner_def Suc_le_eq)
  qed
  ultimately have "scanToken ?sc = Some (makeToken (?sc\<lparr>s_current := length w\<rparr>) (identifierType w), ?sc\<lparr>s_current := length w\<rparr>)"
    by (simp add: sc_identifier_def lexeme_def newScanner_def)
  then show ?thesis using identifierType_table [OF assms(1)] by (simp add: makeToken_def newScanner_def)
qed

theorem identifier_scanned_by_table_witness:
  "\<exists>t sc'. scanToken (newScanner ''make_channel'') = Some (t, sc') \<and> t_type t = TOKEN_MAKE_CHANNEL"
  using identifier_scanned_by_table [of "''make_channel''"]
  by (auto simp: isAlpha_def char_in_def keyword_table_def)


lemma string_loop_runs_off:
  assumes "s_source sc = pre @ s @ [CHR 0x5C]" "s_current sc = length pre"
    "\<forall>c \<in> set s. c \<noteq> CHR 0x22 \<and> c \<noteq> CHR 0x5C \<and> c \<noteq> NUL"
  shows "string_loop sc = None"
  using assms
proof (induction s arbitrary: sc pre)
  case Nil
  have "sc_peek sc = Some (CHR 0x5C)" using Nil by (simp add: sc_peek_def char_at_def)
  moreover have "sc_peek (sc_advance sc) = Some NUL" using Nil by (simp add: sc_peek_def char_at_def sc_advance_def)
  moreover have "string_loop (sc_advance (sc_advance sc)) = None"
    using Nil by (subst string_loop.simps) (simp add: sc_peek_def char_at_def sc_advance_def)
  ultimately show ?case by (subst string_loop.simps) (simp add: NUL_def)
next
  case (Cons c s)
  have p: "sc_peek sc = Some c" using Cons.prems by (simp add: sc_peek_def char_at_def nth_append)
  let ?sc = "sc_advance (if c = CHR 0x0A then sc\<lparr>s_line := s_line sc + 1\<rparr> else sc)"
  have "string_loop ?sc = None"
    by (rule Cons.IH [of _ "pre @ [c]"]) (use Cons.prems in \<open>auto simp: sc_advance_def\<close>)
  then show ?case using p Cons.prems(3) by (subst string_loop.simps) (auto simp: Let_def)
qed

text \<open>
  C19: a string literal whose last character is a backslash at the end of the source makes the
  scanner read past the terminating NUL.
\<close>

theorem string_backslash_at_end_reads_out_of_bounds:
  assumes "\<forall>c \<in> set s. c \<noteq> CHR 0x22 \<and> c \<noteq> CHR 0x5C \<and> c \<noteq> NUL"
  shows "scanToken (newScanner (CHR 0x22 # s @ [CHR 0x5C])) = None"
proof -
  let ?w = "CHR 0x22 # s @ [CHR 0x5C]"
  let ?sc = "newScanner ?w"
  have pk: "sc_peek ?sc = Some (CHR 0x22)" by (simp add: sc_peek_def char_at_def newScanner_def)
  then have "skipWhitespace ?sc = Some ?sc" by (subst skipWhitespace.simps) simp
  moreover have "isAtEnd ?sc = Some False" using pk by (simp add: isAtEnd_def NUL_def)
  moreover have "?sc\<lparr>s_start := s_current ?sc\<rparr> = ?sc" by (simp add: newScanner_def)
  moreover have "\<not> isAlpha (CHR 0x22)" "\<not> isDigit (CHR 0x22)" by (simp_all add: isAlpha_def isDigit_def char_in_def)
  moreover have "map_of single_tokens (CHR 0x22) = None" by (simp add: single_tokens_def)
  moreover have "string_loop (sc_advance ?sc) = None"
    by (rule string_loop_runs_off [of _ "[CHR 0x22]" s]) (use assms in \<open>auto simp: sc_advance_def newScanner_def\<close>)
  ultimately show ?thesis using pk by (simp add: scanToken_def scan_punctuation_def sc_string_def Let_def)
qed

theorem string_backslash_at_end_reads_out_of_bounds_witness: "scanToken (newScanner [CHR 0x22, CHR ''a'', CHR 0x5C]) = None"
  using string_backslash_at_end_reads_out_of_bounds [of "''a''"] by (simp add: NUL_def)

end
