(* ===== verification/YargType.thy ===== *)
theory YargType
  imports BigInt_Text
begin

section \<open>Types and storage layout (\<^verbatim>\<open>src/cyarg/yargtype.c\<close>)\<close>

text \<open>
  The types of the language and the layout of values of these types in packed storage.
  \<^item> A type is a heap object; the simple types are the members of the constant \<^verbatim>\<open>yargTypes\<close>. A
    compound type carries the address of its object, so that comparing pointers to types is
    equality in the model. The null pointer, which stands for the type \<^verbatim>\<open>any\<close>, is \<open>None\<close>.
  \<^item> The fields of a struct type are pairs of the entries of \<^verbatim>\<open>field_types\<close> and
    \<^verbatim>\<open>field_indexes\<close>; the table of field names is an association list with one entry for
    each name, and the slots of a type under construction hold \<open>(None, 0)\<close>.
  \<^item> \<^verbatim>\<open>size_t\<close> is a natural number, reduced modulo its width where the code computes with it.
  \<^item> The sizes of \<^verbatim>\<open>Value\<close>, \<^verbatim>\<open>BigSmallInt\<close> and pointers are those of the two builds.
\<close>

subsection \<open>Platforms\<close>

datatype platform = Bits32 | Bits64

definition sizeof_ptr :: "platform \<Rightarrow> nat" where
  "sizeof_ptr p = (case p of Bits32 \<Rightarrow> 4 | Bits64 \<Rightarrow> 8)"

definition sizeof_BigSmallInt :: "platform \<Rightarrow> nat" where
  "sizeof_BigSmallInt p = (case p of Bits32 \<Rightarrow> 8 | Bits64 \<Rightarrow> 16)"

definition sizeof_Value :: "platform \<Rightarrow> nat" where
  "sizeof_Value p = (case p of Bits32 \<Rightarrow> 16 | Bits64 \<Rightarrow> 24)"

definition sz :: "platform \<Rightarrow> nat \<Rightarrow> nat" where
  "sz p n = n mod 2 ^ (8 * sizeof_ptr p)"

subsection \<open>Types\<close>

datatype YargType =
    TypeBool | TypeInt | TypeDouble
  | TypeInt8 | TypeUint8 | TypeInt16 | TypeUint16
  | TypeInt32 | TypeUint32 | TypeInt64 | TypeUint64
  | TypeString | TypeAddress | TypeClass | TypeInstance | TypeFunction
  | TypeRoutine | TypeChannel | TypeSyncGroup | TypeYargType | ImplementationObj
  | TypeArray nat (cardinality: nat) (element_type: "YargType option")
  | TypeStruct nat (struct_type: StructType)
  | TypePointer nat (target_type: "YargType option")
  | TypeMap nat (key_type: "YargType option") (value_type: "YargType option")
and StructType =
    StructType (field_names: "(string \<times> nat) list") (fields: "(YargType option \<times> nat) list")
      (storage_size: nat) (alignment: nat)

text \<open>The member \<^verbatim>\<open>yt\<close> of a type.\<close>

datatype type_tag =
    YBool | YInt | YDouble | YInt8 | YUint8 | YInt16 | YUint16 | YInt32 | YUint32 | YInt64 | YUint64
  | YString | YAddress | YClass | YInstance | YFunction | YRoutine | YChannel | YSyncGroup
  | YArray | YStruct | YPointer | YMap | YYargType

fun yt :: "YargType \<Rightarrow> type_tag" where
  "yt TypeBool = YBool" | "yt TypeInt = YInt" | "yt TypeDouble = YDouble"
| "yt TypeInt8 = YInt8" | "yt TypeUint8 = YUint8" | "yt TypeInt16 = YInt16" | "yt TypeUint16 = YUint16"
| "yt TypeInt32 = YInt32" | "yt TypeUint32 = YUint32" | "yt TypeInt64 = YInt64" | "yt TypeUint64 = YUint64"
| "yt TypeString = YString" | "yt TypeAddress = YAddress" | "yt TypeClass = YClass"
| "yt TypeInstance = YInstance" | "yt TypeFunction = YFunction" | "yt TypeRoutine = YRoutine"
| "yt TypeChannel = YChannel" | "yt TypeSyncGroup = YSyncGroup" | "yt TypeYargType = YYargType"
| "yt ImplementationObj = YBool"
| "yt (TypeArray _ _ _) = YArray" | "yt (TypeStruct _ _) = YStruct" | "yt (TypePointer _ _) = YPointer"
| "yt (TypeMap _ _ _) = YMap"

fun is_obj_yargtype :: "YargType option \<Rightarrow> bool" where
  "is_obj_yargtype None = False"
| "is_obj_yargtype (Some t) \<longleftrightarrow>
     t = ImplementationObj \<or> t = TypeClass \<or> t = TypeString \<or> t = TypeYargType \<or> t = TypeFunction \<or>
     yt t = YStruct \<or> yt t = YArray \<or> yt t = YPointer \<or> yt t = YChannel \<or> yt t = YSyncGroup \<or>
     yt t = YRoutine \<or> yt t = YMap"

fun is_packable_container_type :: "YargType option \<Rightarrow> bool" where
  "is_packable_container_type None = False"
| "is_packable_container_type (Some t) \<longleftrightarrow> yt t = YArray \<or> yt t = YStruct \<or> yt t = YPointer"

fun is_nil_assignable_type :: "YargType option \<Rightarrow> bool" where
  "is_nil_assignable_type None = True"
| "is_nil_assignable_type (Some t) \<longleftrightarrow>
     yt t \<in> {YString, YClass, YInstance, YFunction, YRoutine, YChannel, YSyncGroup, YPointer, YMap,
             YYargType, YArray}"

lemma size_field [termination_simp]: "f \<in> set (fields s) \<Longrightarrow> size_option size (fst f) < Suc (size s)"
  by (cases s; cases f) (force dest: size_list_estimation' [where f = "size_prod (size_option size) (\<lambda>_. 0)" and y = "size_option size (fst f)"])

fun is_placeable_type :: "YargType option \<Rightarrow> bool" where
  "is_placeable_type None = False"
| "is_placeable_type (Some (TypeArray _ _ e)) = is_placeable_type e"
| "is_placeable_type (Some (TypeStruct _ s)) = (\<forall>f \<in> set (fields s). is_placeable_type (fst f))"
| "is_placeable_type (Some t) \<longleftrightarrow>
     yt t \<in> {YInt8, YUint8, YInt16, YUint16, YInt32, YUint32, YInt64, YUint64, YDouble}"

text \<open>The codes of the type literals in the byte code.\<close>

datatype BuiltinType =
    TYPE_LITERAL_BOOL | TYPE_LITERAL_INT8 | TYPE_LITERAL_UINT8 | TYPE_LITERAL_INT16
  | TYPE_LITERAL_UINT16 | TYPE_LITERAL_INT32 | TYPE_LITERAL_UINT32 | TYPE_LITERAL_INT64
  | TYPE_LITERAL_UINT64 | TYPE_LITERAL_MACHINE_FLOAT64 | TYPE_LITERAL_STRING | TYPE_LITERAL_INT

definition newYargTypeFromTypeCode :: "nat \<Rightarrow> YargType option" where
  "newYargTypeFromTypeCode typeCode =
     (let types = [TypeBool, TypeInt8, TypeUint8, TypeInt16, TypeUint16, TypeInt32, TypeUint32,
                   TypeInt64, TypeUint64, TypeDouble, TypeString, TypeInt]
      in if typeCode < length types then Some (types ! typeCode) else None)"

subsection \<open>Size and alignment\<close>

definition sizeof_simple :: "platform \<Rightarrow> type_tag \<Rightarrow> nat" where
  "sizeof_simple p y =
     (if y \<in> {YInt8, YUint8} then 1
      else if y \<in> {YInt16, YUint16} then 2
      else if y \<in> {YInt32, YUint32} then 4
      else if y \<in> {YInt64, YUint64, YDouble} then 8
      else if y = YAddress then sizeof_ptr p
      else sizeof_Value p)"

fun yt_sizeof_type_storage :: "platform \<Rightarrow> YargType option \<Rightarrow> nat" where
  "yt_sizeof_type_storage p None = sizeof_Value p"
| "yt_sizeof_type_storage p (Some (TypeArray _ n e)) = sz p (yt_sizeof_type_storage p e * n)"
| "yt_sizeof_type_storage p (Some (TypeStruct _ s)) = storage_size s"
| "yt_sizeof_type_storage p (Some t) = sizeof_simple p (yt t)"

fun yt_alignmentfor_type_storage :: "platform \<Rightarrow> YargType option \<Rightarrow> nat" where
  "yt_alignmentfor_type_storage p None = sizeof_Value p"
| "yt_alignmentfor_type_storage p (Some (TypeArray _ n e)) = yt_alignmentfor_type_storage p e"
| "yt_alignmentfor_type_storage p (Some (TypeStruct _ s)) = alignment s"
| "yt_alignmentfor_type_storage p (Some TypeInt) = sizeof_BigSmallInt p"
| "yt_alignmentfor_type_storage p (Some t) = sizeof_simple p (yt t)"

definition arrayElementOffset :: "platform \<Rightarrow> YargType option \<Rightarrow> nat \<Rightarrow> nat" where
  "arrayElementOffset p e index = sz p (index * yt_sizeof_type_storage p e)"

subsection \<open>Struct types\<close>

definition newYargStructType :: "nat \<Rightarrow> StructType" where
  "newYargStructType fieldCount = StructType [] (replicate fieldCount (None, 0)) 0 1"

definition set_name :: "string \<Rightarrow> nat \<Rightarrow> (string \<times> nat) list \<Rightarrow> (string \<times> nat) list" where
  "set_name name i ns =
     (if map_of ns name = None then ns @ [(name, i)]
      else map (\<lambda>(n, j). if n = name then (n, i) else (n, j)) ns)"

text \<open>A failed assertion, or an index outside the allocated arrays, is \<open>None\<close>.\<close>

definition appendFieldType :: "platform \<Rightarrow> YargType option \<Rightarrow> string \<Rightarrow> StructType \<Rightarrow> StructType option" where
  "appendFieldType p type name st =
     (let index = length (field_names st)
      in if index < length (fields st) \<and> fst (fields st ! index) = None
         then let fieldAlignment = yt_alignmentfor_type_storage p type;
                  fieldOffset = storage_size st;
                  alignmentPadding = (fieldAlignment - fieldOffset mod fieldAlignment) mod fieldAlignment
              in Some (StructType (set_name name index (field_names st))
                         ((fields st)[index := (type, sz p (fieldOffset + alignmentPadding))])
                         (sz p (fieldOffset + alignmentPadding + yt_sizeof_type_storage p type))
                         (if fieldAlignment > alignment st then fieldAlignment else alignment st))
         else None)"

definition appendFieldTypeAtOffset ::
  "platform \<Rightarrow> YargType option \<Rightarrow> nat \<Rightarrow> string \<Rightarrow> StructType \<Rightarrow> StructType option" where
  "appendFieldTypeAtOffset p type offset name st =
     (let index = length (field_names st)
      in if index < length (fields st) \<and> fst (fields st ! index) = None
         then Some (StructType (set_name name index (field_names st)) ((fields st)[index := (type, offset)])
                      (sz p (offset + yt_sizeof_type_storage p type)) (alignment st))
         else None)"

definition structFieldOffset :: "StructType \<Rightarrow> nat \<Rightarrow> nat" where
  "structFieldOffset s fieldIndex = snd (fields s ! fieldIndex)"

definition structFieldIndex :: "StructType \<Rightarrow> string \<Rightarrow> nat option" where
  "structFieldIndex s name = map_of (field_names s) name"

text \<open>
  The instruction \<^verbatim>\<open>OP_TYPE_STRUCT\<close> of the virtual machine, which builds a struct type from the
  types, offsets and names that the compiled declaration pushed. The offset of a field is nil, a
  positive integer, or another value, which the instruction ignores together with the field.
\<close>

datatype field_offset = AutoOffset | AtOffset nat | OtherOffset

datatype type_error = FieldAlreadyExists | AssertionFailed

fun op_type_struct_loop ::
  "platform \<Rightarrow> (YargType option \<times> field_offset \<times> string) list \<Rightarrow> StructType \<Rightarrow> type_error + StructType" where
  "op_type_struct_loop p [] st = Inr st"
| "op_type_struct_loop p ((fieldType, offsetValue, fieldName) # fs) st =
     (if structFieldIndex st fieldName \<noteq> None then Inl FieldAlreadyExists
      else case offsetValue of
        AutoOffset \<Rightarrow> (case appendFieldType p fieldType fieldName st of
            None \<Rightarrow> Inl AssertionFailed | Some st' \<Rightarrow> op_type_struct_loop p fs st')
      | AtOffset offset \<Rightarrow> (case appendFieldTypeAtOffset p fieldType offset fieldName st of
            None \<Rightarrow> Inl AssertionFailed | Some st' \<Rightarrow> op_type_struct_loop p fs st')
      | OtherOffset \<Rightarrow> op_type_struct_loop p fs st)"

definition op_type_struct ::
  "platform \<Rightarrow> (YargType option \<times> field_offset \<times> string) list \<Rightarrow> type_error + StructType" where
  "op_type_struct p fs = op_type_struct_loop p fs (newYargStructType (length fs))"

subsection \<open>Equality of types\<close>

lemma yt_cases:
  "yt t = YPointer \<longleftrightarrow> (\<exists>x u. t = TypePointer x u)"
  "yt t = YArray \<longleftrightarrow> (\<exists>x n u. t = TypeArray x n u)"
  "yt t = YStruct \<longleftrightarrow> (\<exists>x s. t = TypeStruct x s)"
  "yt t = YMap \<longleftrightarrow> (\<exists>x k v. t = TypeMap x k v)"
  by (cases t; simp)+

function typesEqual :: "YargType option \<Rightarrow> YargType option \<Rightarrow> bool" where
  "typesEqual a b =
     (if a = b then True
      else case a of
        None \<Rightarrow> False
      | Some ta \<Rightarrow> (case b of
          None \<Rightarrow> False
        | Some tb \<Rightarrow>
            if yt ta \<noteq> yt tb then False
            else if yt ta = YPointer then typesEqual (target_type ta) (target_type tb)
            else if yt ta = YArray then
              if \<not> typesEqual (element_type ta) (element_type tb) then False
              else cardinality ta = cardinality tb
            else if yt ta = YStruct then
              if length (fields (struct_type ta)) \<noteq> length (fields (struct_type tb)) then False
              else (\<forall>fg \<in> set (zip (fields (struct_type ta)) (fields (struct_type tb))).
                      typesEqual (fst (fst fg)) (fst (snd fg)))
            else yt ta = yt tb))"
  by pat_completeness auto

termination
proof (relation "measure (\<lambda>(a, b). size_option size a)", goal_cases)
  case (4 a b ta tb fg)
  then obtain x s where ta: "ta = TypeStruct x s" by (auto simp: yt_cases)
  have "fst fg \<in> set (fields s)" using 4 ta by (cases fg) (auto dest: set_zip_leftD)
  from size_field [OF this] show ?case using 4 ta by simp
qed (auto simp: yt_cases)

declare typesEqual.simps [simp del]

fun isSupportedMapKeyType :: "YargType option \<Rightarrow> bool" where
  "isSupportedMapKeyType (Some (TypeMap _ k _)) = isSupportedMapKeyType k"
| "isSupportedMapKeyType (Some TypeString) = True"
| "isSupportedMapKeyType _ = False"

definition isInitializableArray :: "nat \<times> YargType option \<Rightarrow> nat \<times> YargType option \<Rightarrow> bool" where
  "isInitializableArray lhs rhs =
     (if fst lhs = fst rhs
      then if snd lhs = None then True
           else if snd lhs = None \<and> snd rhs = None then True
           else if snd rhs = None then False
           else typesEqual (snd lhs) (snd rhs)
      else False)"

subsection \<open>Text of a type\<close>

text \<open>
  \<^verbatim>\<open>snprintf\<close> into a buffer of \<^verbatim>\<open>n\<close> bytes keeps at most \<^verbatim>\<open>n - 1\<close> characters;
  \<open>snprintf_at\<close> is the call that continues a buffer from the end of its text.
\<close>

definition snprintf_buf :: "nat \<Rightarrow> string \<Rightarrow> string" where
  "snprintf_buf n s = take (n - 1) s"

definition snprintf_at :: "nat \<Rightarrow> string \<Rightarrow> string \<Rightarrow> string" where
  "snprintf_at n buffer s = buffer @ snprintf_buf (n - length buffer) s"

fun typeLiteralToString :: "YargType option \<Rightarrow> string" where
  "typeLiteralToString None = ''any''"
| "typeLiteralToString (Some (TypeArray _ n e)) =
     (let typeStr = typeLiteralToString e
      in if n > 0 then snprintf_buf 128 (typeStr @ ''['' @ dec n @ '']'')
         else snprintf_buf 128 (typeStr @ ''[]''))"
| "typeLiteralToString (Some (TypeStruct _ s)) =
     (let buffer = snprintf_buf 1024 (''struct{|'' @ dec (length (fields s)) @ '':'' @ dec (storage_size s) @ ''| '');
          buffer' = foldl (\<lambda>b fieldTypeStr. snprintf_at 1024 b (fieldTypeStr @ ''; '')) buffer
                      (map (\<lambda>f. typeLiteralToString (fst f)) (fields s))
      in snprintf_at 1024 buffer' ''}'')"
| "typeLiteralToString (Some (TypePointer _ t)) = snprintf_buf 128 (''*'' @ typeLiteralToString t)"
| "typeLiteralToString (Some (TypeMap _ k v)) =
     snprintf_buf 128 (typeLiteralToString v @ ''['' @ typeLiteralToString k @ '']'')"
| "typeLiteralToString (Some t) =
     (case yt t of
        YBool \<Rightarrow> ''bool'' | YDouble \<Rightarrow> ''mfloat64'' | YInt \<Rightarrow> ''int''
      | YInt8 \<Rightarrow> ''int8'' | YUint8 \<Rightarrow> ''uint8'' | YInt16 \<Rightarrow> ''int16'' | YUint16 \<Rightarrow> ''uint16''
      | YInt32 \<Rightarrow> ''int32'' | YUint32 \<Rightarrow> ''uint32'' | YInt64 \<Rightarrow> ''int64'' | YUint64 \<Rightarrow> ''uint64''
      | YAddress \<Rightarrow> ''address'' | YString \<Rightarrow> ''string'' | YClass \<Rightarrow> ''Class''
      | YInstance \<Rightarrow> ''Instance'' | YFunction \<Rightarrow> ''Function'' | YRoutine \<Rightarrow> ''Routine''
      | YChannel \<Rightarrow> ''Channel'' | YSyncGroup \<Rightarrow> ''SyncGroup'' | YYargType \<Rightarrow> ''Type''
      | _ \<Rightarrow> ''Unknown'')"

definition typeToString :: "YargType option \<Rightarrow> string" where
  "typeToString t = ''Type:'' @ typeLiteralToString t"

text \<open>The same text with no buffer.\<close>

fun type_text :: "YargType option \<Rightarrow> string" where
  "type_text (Some (TypeArray _ n e)) = type_text e @ ''['' @ (if n > 0 then dec n else []) @ '']''"
| "type_text (Some (TypeStruct _ s)) =
     ''struct{|'' @ dec (length (fields s)) @ '':'' @ dec (storage_size s) @ ''| '' @
     concat (map (\<lambda>f. type_text (fst f) @ ''; '') (fields s)) @ ''}''"
| "type_text (Some (TypePointer _ t)) = ''*'' @ type_text t"
| "type_text (Some (TypeMap _ k v)) = type_text v @ ''['' @ type_text k @ '']''"
| "type_text t = typeLiteralToString t"

lemma snprintf_at_take: "snprintf_at (Suc m) (take m x) s = take m (x @ s)"
  by (cases "length x \<le> m") (auto simp: snprintf_at_def snprintf_buf_def min_def)

lemma snprintf_fold:
  "foldl (\<lambda>b s. snprintf_at (Suc m) b (s @ e)) (take m x) ss = take m (x @ concat (map (\<lambda>s. s @ e) ss))"
proof (induction ss arbitrary: x)
  case (Cons s ss)
  show ?case unfolding foldl_Cons snprintf_at_take Cons.IH by simp
qed simp

lemma typeLiteralToString_struct:
  "typeLiteralToString (Some (TypeStruct x s)) =
     take 1023 ((''struct{|'' @ dec (length (fields s)) @ '':'' @ dec (storage_size s) @ ''| '') @
       concat (map (\<lambda>f. typeLiteralToString (fst f) @ ''; '') (fields s)) @ ''}'')"
proof -
  define h where "h = ''struct{|'' @ dec (length (fields s)) @ '':'' @ dec (storage_size s) @ ''| ''"
  have "typeLiteralToString (Some (TypeStruct x s)) =
      snprintf_at (Suc 1023) (foldl (\<lambda>b t. snprintf_at (Suc 1023) b (t @ ''; '')) (take 1023 h)
        (map (\<lambda>f. typeLiteralToString (fst f)) (fields s))) ''}''"
    by (simp add: Let_def snprintf_buf_def h_def del: take_append)
  also have "\<dots> = take 1023 (h @ concat (map (\<lambda>f. typeLiteralToString (fst f) @ ''; '') (fields s)) @ ''}'')"
    unfolding snprintf_fold snprintf_at_take map_map comp_def append_assoc by (rule refl)
  finally show ?thesis unfolding h_def .
qed

lemma length_typeLiteralToString: "length (typeLiteralToString t) \<le> 1023"
proof (cases t)
  case (Some u)
  show ?thesis
  proof (cases u)
    case (TypeStruct x s)
    show ?thesis unfolding Some TypeStruct typeLiteralToString_struct by (simp only: length_take min.cobounded2)
  qed (use Some in \<open>auto simp: snprintf_buf_def Let_def min_def simp del: take_append\<close>)
qed simp

lemma field_text_length:
  "f \<in> set fs \<Longrightarrow> length (type_text (fst f)) \<le> length (concat (map (\<lambda>f. type_text (fst f) @ ''; '') fs))"
  by (induction fs) auto

lemma typeLiteralToString_text: "length (type_text t) < 128 \<Longrightarrow> typeLiteralToString t = type_text t"
proof (induction t rule: type_text.induct)
  case (2 x s)
  have "typeLiteralToString (fst f) = type_text (fst f)" if f: "f \<in> set (fields s)" for f
    using 2 f field_text_length [OF f] by simp
  then have "map (\<lambda>f. typeLiteralToString (fst f) @ ''; '') (fields s) = map (\<lambda>f. type_text (fst f) @ ''; '') (fields s)"
    by simp
  then have "typeLiteralToString (Some (TypeStruct x s)) = take 1023 (type_text (Some (TypeStruct x s)))"
    unfolding typeLiteralToString_struct by (simp only: type_text.simps append_assoc)
  with 2 show ?case by (simp only: take_all)
qed (auto simp: snprintf_buf_def Let_def)

end
