(* ===== verification/Value.thy ===== *)
theory Value
  imports YargType IntOps
begin

section \<open>Values (\<^verbatim>\<open>src/cyarg/value.c\<close>, \<^verbatim>\<open>value.h\<close>, \<^verbatim>\<open>value_cell.c\<close>)\<close>

text \<open>
  The values of the language. A value is built by one of the macros of \<^verbatim>\<open>value.h\<close>, which are the
  constructors here: the tag is the type of the value and the payload is the member of the union
  that belongs to that type.
  \<^item> A signed machine integer is the word of its width, read through \<^const>\<open>sint\<close>.
  \<^item> A double is its 64-bit IEEE representation.
  \<^item> An integer is the \<^verbatim>\<open>Int\<close> that \<^verbatim>\<open>AS_INT\<close> yields, small or on the heap.
  \<^item> A value whose payload is an object carries the address of the object (\<open>None\<close> is the null
    pointer) and its type; \<^verbatim>\<open>IMPL_OBJ_VAL\<close> has the type \<^const>\<open>ImplementationObj\<close>.
  \<^item> \<^verbatim>\<open>fatalVMError\<close> and a failed assertion end the program: they are \<open>None\<close>.
\<close>

datatype Value =
    NIL_VAL
  | BOOL_VAL bool
  | DOUBLE_VAL u64
  | I8_VAL u8 | UI8_VAL u8
  | I16_VAL u16 | UI16_VAL u16
  | I32_VAL u32 | UI32_VAL u32
  | I64_VAL u64 | UI64_VAL u64
  | ADDRESS_VAL nat
  | INT_VAL Int_struct
  | YARGTYPE_VAL "YargType option"
  | TYPED_VAL "nat option" YargType

fun value_type :: "Value \<Rightarrow> YargType option" where
  "value_type NIL_VAL = None"
| "value_type (BOOL_VAL _) = Some TypeBool"
| "value_type (DOUBLE_VAL _) = Some TypeDouble"
| "value_type (I8_VAL _) = Some TypeInt8" | "value_type (UI8_VAL _) = Some TypeUint8"
| "value_type (I16_VAL _) = Some TypeInt16" | "value_type (UI16_VAL _) = Some TypeUint16"
| "value_type (I32_VAL _) = Some TypeInt32" | "value_type (UI32_VAL _) = Some TypeUint32"
| "value_type (I64_VAL _) = Some TypeInt64" | "value_type (UI64_VAL _) = Some TypeUint64"
| "value_type (ADDRESS_VAL _) = Some TypeAddress"
| "value_type (INT_VAL _) = Some TypeInt"
| "value_type (YARGTYPE_VAL _) = Some TypeYargType"
| "value_type (TYPED_VAL _ t) = Some t"

subsection \<open>Classification\<close>

fun isObjValue :: "Value \<Rightarrow> bool" where
  "isObjValue (TYPED_VAL ob t) \<longleftrightarrow>
     (t = ImplementationObj \<and> ob \<noteq> None \<or> is_obj_yargtype (Some t) \<and> ob \<noteq> None)"
| "isObjValue (YARGTYPE_VAL t) \<longleftrightarrow> t \<noteq> None"
| "isObjValue _ \<longleftrightarrow> False"

fun is_nil :: "Value \<Rightarrow> bool" where
  "is_nil NIL_VAL \<longleftrightarrow> True"
| "is_nil (TYPED_VAL ob t) \<longleftrightarrow>
     (if t = ImplementationObj \<and> ob \<noteq> None then False
      else yt t \<in> {YPointer, YClass, YInstance, YFunction, YRoutine, YChannel, YSyncGroup, YMap, YString}
           \<and> ob = None)"
| "is_nil _ \<longleftrightarrow> False"

fun concrete_typeof :: "Value \<Rightarrow> Value option" where
  "concrete_typeof a =
     (if is_nil a then Some NIL_VAL
      else case a of
        TYPED_VAL ob t \<Rightarrow>
          if t = ImplementationObj \<and> ob \<noteq> None then None else Some (YARGTYPE_VAL (Some t))
      | _ \<Rightarrow> Some (YARGTYPE_VAL (value_type a)))"

definition is_uniformarray :: "Value \<Rightarrow> bool" where
  "is_uniformarray v = (case value_type v of None \<Rightarrow> False | Some t \<Rightarrow> yt t = YArray)"

definition is_pointer :: "Value \<Rightarrow> bool" where
  "is_pointer v = (case value_type v of None \<Rightarrow> False | Some t \<Rightarrow> yt t = YPointer)"

definition is_struct :: "Value \<Rightarrow> bool" where
  "is_struct v = (case value_type v of None \<Rightarrow> False | Some t \<Rightarrow> yt t = YStruct)"

definition isUint32Pointer :: "Value \<Rightarrow> bool" where
  "isUint32Pointer val =
     (case value_type val of
        Some (TypePointer _ (Some t)) \<Rightarrow> yt t = YUint32
      | _ \<Rightarrow> False)"

definition isByteArray :: "Value \<Rightarrow> bool" where
  "isByteArray val =
     (case value_type val of
        Some (TypeArray _ _ (Some t)) \<Rightarrow> yt t = YUint8
      | _ \<Rightarrow> False)"

definition isArrayPointer :: "Value \<Rightarrow> bool" where
  "isArrayPointer val =
     (case value_type val of
        Some (TypePointer _ (Some t)) \<Rightarrow> yt t = YArray
      | _ \<Rightarrow> False)"

definition isStructPointer :: "Value \<Rightarrow> bool" where
  "isStructPointer val =
     (case value_type val of
        Some (TypePointer _ (Some t)) \<Rightarrow> yt t = YStruct
      | _ \<Rightarrow> False)"

subsection \<open>Equality\<close>

text \<open>
  Equality of doubles is that of IEEE 754: a NaN equals nothing and the two zeros are equal. A
  pointer is compared by the location its container object refers to, which \<open>loc\<close> gives.
\<close>

definition isAddressValue :: "Value \<Rightarrow> bool" where
  "isAddressValue val =
     (case val of INT_VAL i \<Rightarrow> i_literal i | ADDRESS_VAL _ \<Rightarrow> True | _ \<Rightarrow> False)"

definition double_nan :: "u64 \<Rightarrow> bool" where
  "double_nan x \<longleftrightarrow> take_bit 63 (unat x) > 0x7FF0000000000000"

definition double_eq :: "u64 \<Rightarrow> u64 \<Rightarrow> bool" where
  "double_eq x y \<longleftrightarrow> \<not> double_nan x \<and> \<not> double_nan y \<and>
     (x = y \<or> take_bit 63 (unat x) = 0 \<and> take_bit 63 (unat y) = 0)"

definition arraysEqual :: "nat option \<times> YargType \<Rightarrow> nat option \<times> YargType \<Rightarrow> bool" where
  "arraysEqual a b =
     (if \<not> typesEqual (Some (snd a)) (Some (snd b)) then False else fst a = fst b)"

definition structsEqual :: "nat option \<times> YargType \<Rightarrow> nat option \<times> YargType \<Rightarrow> bool" where
  "structsEqual a b =
     (if \<not> typesEqual (Some (snd a)) (Some (snd b)) then False else fst a = fst b)"

definition pointersEqual ::
  "(nat option \<Rightarrow> nat) \<Rightarrow> nat option \<times> YargType \<Rightarrow> nat option \<times> YargType \<Rightarrow> bool" where
  "pointersEqual loc a b =
     (if \<not> typesEqual (Some (snd a)) (Some (snd b)) then False else loc (fst a) = loc (fst b))"

fun typed_valuesEqual :: "(nat option \<Rightarrow> nat) \<Rightarrow> nat option \<times> YargType \<Rightarrow> nat option \<times> YargType \<Rightarrow> bool" where
  "typed_valuesEqual loc a b =
     (case yt (snd a) of
        YArray \<Rightarrow> arraysEqual a b
      | YStruct \<Rightarrow> structsEqual a b
      | YPointer \<Rightarrow> pointersEqual loc a b
      | _ \<Rightarrow> fst a = fst b)"

definition valuesEqual :: "(nat option \<Rightarrow> nat) \<Rightarrow> Value \<Rightarrow> Value \<Rightarrow> bool" where
  "valuesEqual loc a b =
     (if value_type a \<noteq> value_type b then False
      else if is_nil a \<and> is_nil b then True
      else case (a, b) of
        (BOOL_VAL x, BOOL_VAL y) \<Rightarrow> x = y
      | (DOUBLE_VAL x, DOUBLE_VAL y) \<Rightarrow> double_eq x y
      | (I8_VAL x, I8_VAL y) \<Rightarrow> x = y | (UI8_VAL x, UI8_VAL y) \<Rightarrow> x = y
      | (I16_VAL x, I16_VAL y) \<Rightarrow> x = y | (UI16_VAL x, UI16_VAL y) \<Rightarrow> x = y
      | (I32_VAL x, I32_VAL y) \<Rightarrow> x = y | (UI32_VAL x, UI32_VAL y) \<Rightarrow> x = y
      | (I64_VAL x, I64_VAL y) \<Rightarrow> x = y | (UI64_VAL x, UI64_VAL y) \<Rightarrow> x = y
      | (ADDRESS_VAL x, ADDRESS_VAL y) \<Rightarrow> x = y
      | (INT_VAL x, INT_VAL y) \<Rightarrow> int_is x y = INT_EQ
      | (YARGTYPE_VAL x, YARGTYPE_VAL y) \<Rightarrow> typesEqual x y
      | (TYPED_VAL x t, TYPED_VAL y u) \<Rightarrow> typed_valuesEqual loc (x, t) (y, u)
      | _ \<Rightarrow> False)"

subsection \<open>Positive integers\<close>

definition is_positive_integer :: "platform \<Rightarrow> Value \<Rightarrow> bool" where
  "is_positive_integer p a =
     (case a of
        UI32_VAL _ \<Rightarrow> True | UI16_VAL _ \<Rightarrow> True | UI8_VAL _ \<Rightarrow> True
      | I32_VAL x \<Rightarrow> sint x \<ge> 0 | I16_VAL x \<Rightarrow> sint x \<ge> 0 | I8_VAL x \<Rightarrow> sint x \<ge> 0
      | UI64_VAL x \<Rightarrow> (case p of Bits64 \<Rightarrow> True | Bits32 \<Rightarrow> unat x \<le> 0xFFFFFFFF)
      | I64_VAL x \<Rightarrow> (case p of Bits64 \<Rightarrow> sint x \<ge> 0 | Bits32 \<Rightarrow> sint x \<ge> 0 \<and> sint x \<le> 0xFFFFFFFF)
      | INT_VAL i \<Rightarrow>
          int_is_range i 0 (case p of Bits64 \<Rightarrow> 0xFFFFFFFFFFFFFFFF | Bits32 \<Rightarrow> 0xFFFFFFFF) = INT_WITHIN
      | _ \<Rightarrow> False)"

text \<open>The conversion of a signed integer to \<^verbatim>\<open>size_t\<close> is modulo the width of \<^verbatim>\<open>size_t\<close>.\<close>

definition size_t_of :: "platform \<Rightarrow> int \<Rightarrow> nat" where
  "size_t_of p x = nat (x mod 2 ^ (8 * sizeof_ptr p))"

definition as_positive_integer :: "platform \<Rightarrow> Value \<Rightarrow> nat" where
  "as_positive_integer p a =
     (case a of
        I32_VAL x \<Rightarrow> size_t_of p (sint x)
      | I8_VAL x \<Rightarrow> size_t_of p (sint x)
      | I16_VAL x \<Rightarrow> size_t_of p (sint x)
      | I64_VAL x \<Rightarrow> (case p of Bits64 \<Rightarrow> size_t_of p (sint x)
                      | Bits32 \<Rightarrow> if sint x \<le> 0xFFFFFFFF then size_t_of p (sint x) else 0)
      | UI32_VAL x \<Rightarrow> unat x
      | UI8_VAL x \<Rightarrow> unat x
      | UI16_VAL x \<Rightarrow> unat x
      | UI64_VAL x \<Rightarrow> (case p of Bits64 \<Rightarrow> unat x | Bits32 \<Rightarrow> if unat x \<le> 0xFFFFFFFF then unat x else 0)
      | INT_VAL i \<Rightarrow> (case p of
            Bits64 \<Rightarrow> if int_is_range i 0 0xFFFFFFFFFFFFFFFF = INT_WITHIN then unat (int_to_u64 i) else 0
          | Bits32 \<Rightarrow> if int_is_range i 0 0xFFFFFFFF = INT_WITHIN then unat (int_to_u32 i) else 0)
      | _ \<Rightarrow> 0)"

subsection \<open>Assignment to cells\<close>

text \<open>
  \<^verbatim>\<open>isInitialisableType\<close> decides whether a cell of type \<open>lhsType\<close> may take a value, and gives
  the value a literal integer is promoted to (\<^const>\<open>NIL_VAL\<close> when there is no promotion).
\<close>

definition promote_literal :: "YargType \<Rightarrow> Int_struct \<Rightarrow> Value" where
  "promote_literal lhsType i =
     (case yt lhsType of
        YInt8 \<Rightarrow> if int_is_range i (- 0x80) 0x7F = INT_WITHIN then I8_VAL (ucast (int_to_i32 i)) else NIL_VAL
      | YUint8 \<Rightarrow> if int_is_range i 0 0xFF = INT_WITHIN then UI8_VAL (ucast (int_to_u32 i)) else NIL_VAL
      | YInt16 \<Rightarrow> if int_is_range i (- 0x8000) 0x7FFF = INT_WITHIN then I16_VAL (ucast (int_to_i32 i)) else NIL_VAL
      | YUint16 \<Rightarrow> if int_is_range i 0 0xFFFF = INT_WITHIN then UI16_VAL (ucast (int_to_u32 i)) else NIL_VAL
      | YInt32 \<Rightarrow> if int_is_range i (- 0x80000000) 0x7FFFFFFF = INT_WITHIN then I32_VAL (int_to_i32 i) else NIL_VAL
      | YUint32 \<Rightarrow> if int_is_range i 0 0xFFFFFFFF = INT_WITHIN then UI32_VAL (int_to_u32 i) else NIL_VAL
      | YInt64 \<Rightarrow> if int_is_range i INT64_MIN 0x7FFFFFFFFFFFFFFF = INT_WITHIN then I64_VAL (int_to_i64 i) else NIL_VAL
      | YUint64 \<Rightarrow> if int_is_range i 0 0xFFFFFFFFFFFFFFFF = INT_WITHIN then UI64_VAL (int_to_u64 i) else NIL_VAL
      | _ \<Rightarrow> NIL_VAL)"

definition isInitialisableType :: "YargType option \<Rightarrow> Value \<Rightarrow> (bool \<times> Value) option" where
  "isInitialisableType lhs rhsValue =
     (case lhs of
        None \<Rightarrow> Some (True, NIL_VAL)
      | Some lhsType \<Rightarrow>
          if is_nil rhsValue then Some (is_nil_assignable_type lhs, NIL_VAL)
          else (case concrete_typeof rhsValue of
              Some (YARGTYPE_VAL (Some rhsConcreteType)) \<Rightarrow>
                if yt lhsType = YArray \<and> yt rhsConcreteType = YArray
                then Some (isInitializableArray (cardinality lhsType, element_type lhsType)
                             (cardinality rhsConcreteType, element_type rhsConcreteType), NIL_VAL)
                else (let promoted = (case rhsValue of
                            INT_VAL i \<Rightarrow> if i_literal i then promote_literal lhsType i else NIL_VAL
                          | _ \<Rightarrow> NIL_VAL)
                      in if promoted \<noteq> NIL_VAL then Some (True, promoted)
                         else Some (typesEqual lhs (Some rhsConcreteType), NIL_VAL))
            | _ \<Rightarrow> None))"

definition noLongerLiteralInt :: "Value \<Rightarrow> Value" where
  "noLongerLiteralInt v = (case v of INT_VAL i \<Rightarrow> INT_VAL (i\<lparr>i_literal := False\<rparr>) | _ \<Rightarrow> v)"

text \<open>
  \<^verbatim>\<open>assignToValueCellTarget\<close>: the new content of the cell, or \<open>Inl\<close> when the value does not fit
  the type of the cell and the cell is left alone.
\<close>

datatype cell_error = TypeMismatch

definition assignToValueCellTarget :: "YargType option \<Rightarrow> Value \<Rightarrow> (cell_error + Value) option" where
  "assignToValueCellTarget cellType rhsValue =
     (if cellType = None then Some (Inr (noLongerLiteralInt rhsValue))
      else case isInitialisableType cellType rhsValue of
        None \<Rightarrow> None
      | Some (ok, promoted) \<Rightarrow>
          if ok then
            if value_type promoted = None then Some (Inr (noLongerLiteralInt rhsValue))
            else Some (Inr promoted)
          else Some (Inl TypeMismatch))"

subsection \<open>Default values\<close>

definition defaultIntValue :: Value where
  "defaultIntValue = INT_VAL int_init_concrete2"

text \<open>\<open>newContainer\<close> is the allocation of a packed container (\<^verbatim>\<open>newPackedValueContainer\<close>).\<close>

definition defaultValue :: "(YargType \<Rightarrow> Value) \<Rightarrow> YargType option \<Rightarrow> Value" where
  "defaultValue newContainer type =
     (case type of
        None \<Rightarrow> NIL_VAL
      | Some ct \<Rightarrow> (case yt ct of
            YBool \<Rightarrow> BOOL_VAL False
          | YInt \<Rightarrow> defaultIntValue
          | YDouble \<Rightarrow> DOUBLE_VAL 0
          | YInt8 \<Rightarrow> I8_VAL 0 | YUint8 \<Rightarrow> UI8_VAL 0
          | YInt16 \<Rightarrow> I16_VAL 0 | YUint16 \<Rightarrow> UI16_VAL 0
          | YInt32 \<Rightarrow> I32_VAL 0 | YUint32 \<Rightarrow> UI32_VAL 0
          | YInt64 \<Rightarrow> I64_VAL 0 | YUint64 \<Rightarrow> UI64_VAL 0
          | YAddress \<Rightarrow> ADDRESS_VAL 0
          | YStruct \<Rightarrow> newContainer ct
          | YArray \<Rightarrow> newContainer ct
          | _ \<Rightarrow> NIL_VAL))"

end
