(* ===== verification/Packed.thy ===== *)
theory Packed
  imports Value "HOL-Library.Monad_Syntax"
begin

section \<open>Packed containers (\<^verbatim>\<open>src/cyarg/packed_containers.c\<close>, placed values of \<^verbatim>\<open>value.c\<close>)\<close>

text \<open>
  Arrays, structs and pointers refer to storage in which their elements are laid out one after the
  other. The model has the memory itself.
  \<^item> A byte of memory is a raw byte or a part of a stored \<^verbatim>\<open>Value\<close>; memory that the allocator
    hands out is zero, and a zeroed \<^verbatim>\<open>Value\<close> is nil.
  \<^item> A container is an object that refers to a location, and owns the storage around it or not.
    The address of a new container object is an argument, as the allocator returns it.
  \<^item> Machine integers are stored with the least significant byte first, as on all targets.
  \<^item> \<open>None\<close> is a fatal error, a failed assertion, or a read of bytes that are not a value of the type.
\<close>

subsection \<open>Memory\<close>

datatype byte = Raw u8 | Part Value nat

type_synonym memory = "nat \<Rightarrow> byte"

fun bytes_of :: "nat \<Rightarrow> nat \<Rightarrow> u8 list" where
  "bytes_of 0 v = []"
| "bytes_of (Suc n) v = of_nat (v mod 256) # bytes_of n (v div 256)"

fun nat_of_bytes :: "u8 list \<Rightarrow> nat" where
  "nat_of_bytes [] = 0"
| "nat_of_bytes (b # bs) = unat b + 256 * nat_of_bytes bs"

definition write_mem :: "memory \<Rightarrow> nat \<Rightarrow> byte list \<Rightarrow> memory" where
  "write_mem m a bs = (\<lambda>x. if a \<le> x \<and> x < a + length bs then bs ! (x - a) else m x)"

definition read_mem :: "memory \<Rightarrow> nat \<Rightarrow> nat \<Rightarrow> byte list" where
  "read_mem m a n = map (\<lambda>i. m (a + i)) [0..<n]"

definition write_int :: "memory \<Rightarrow> nat \<Rightarrow> nat \<Rightarrow> nat \<Rightarrow> memory" where
  "write_int m a n v = write_mem m a (map Raw (bytes_of n v))"

fun raw_bytes :: "byte list \<Rightarrow> u8 list option" where
  "raw_bytes [] = Some []"
| "raw_bytes (Raw b # bs) = map_option ((#) b) (raw_bytes bs)"
| "raw_bytes (Part _ _ # bs) = None"

definition read_int :: "memory \<Rightarrow> nat \<Rightarrow> nat \<Rightarrow> nat option" where
  "read_int m a n = map_option nat_of_bytes (raw_bytes (read_mem m a n))"

definition write_value :: "platform \<Rightarrow> memory \<Rightarrow> nat \<Rightarrow> Value \<Rightarrow> memory" where
  "write_value p m a v = write_mem m a (map (Part v) [0..<sizeof_Value p])"

definition read_value :: "platform \<Rightarrow> memory \<Rightarrow> nat \<Rightarrow> Value option" where
  "read_value p m a =
     (let bs = read_mem m a (sizeof_Value p)
      in case hd bs of
           Part v _ \<Rightarrow> if bs = map (Part v) [0..<sizeof_Value p] then Some v else None
         | Raw _ \<Rightarrow> if bs = replicate (sizeof_Value p) (Raw 0) then Some NIL_VAL else None)"

subsection \<open>Placed values\<close>

definition getPlacedValue :: "platform \<Rightarrow> memory \<Rightarrow> nat \<Rightarrow> YargType option \<Rightarrow> Value option" where
  "getPlacedValue p m a type =
     (if \<not> is_placeable_type type then None
      else case type of
        Some TypeDouble \<Rightarrow> map_option (\<lambda>n. DOUBLE_VAL (of_nat n)) (read_int m a 8)
      | Some TypeInt8 \<Rightarrow> map_option (\<lambda>n. I8_VAL (of_nat n)) (read_int m a 1)
      | Some TypeUint8 \<Rightarrow> map_option (\<lambda>n. UI8_VAL (of_nat n)) (read_int m a 1)
      | Some TypeInt16 \<Rightarrow> map_option (\<lambda>n. I16_VAL (of_nat n)) (read_int m a 2)
      | Some TypeUint16 \<Rightarrow> map_option (\<lambda>n. UI16_VAL (of_nat n)) (read_int m a 2)
      | Some TypeInt32 \<Rightarrow> map_option (\<lambda>n. I32_VAL (of_nat n)) (read_int m a 4)
      | Some TypeUint32 \<Rightarrow> map_option (\<lambda>n. UI32_VAL (of_nat n)) (read_int m a 4)
      | Some TypeInt64 \<Rightarrow> map_option (\<lambda>n. I64_VAL (of_nat n)) (read_int m a 8)
      | Some TypeUint64 \<Rightarrow> map_option (\<lambda>n. UI64_VAL (of_nat n)) (read_int m a 8)
      | Some TypeAddress \<Rightarrow> map_option ADDRESS_VAL (read_int m a (sizeof_ptr p))
      | _ \<Rightarrow> None)"

definition setPlacedValue :: "platform \<Rightarrow> memory \<Rightarrow> nat \<Rightarrow> Value \<Rightarrow> memory option" where
  "setPlacedValue p m a rhs =
     (case rhs of
        I8_VAL x \<Rightarrow> Some (write_int m a 1 (unat x))
      | UI8_VAL x \<Rightarrow> Some (write_int m a 1 (unat x))
      | I16_VAL x \<Rightarrow> Some (write_int m a 2 (unat x))
      | UI16_VAL x \<Rightarrow> Some (write_int m a 2 (unat x))
      | I32_VAL x \<Rightarrow> Some (write_int m a 4 (unat x))
      | UI32_VAL x \<Rightarrow> Some (write_int m a 4 (unat x))
      | I64_VAL x \<Rightarrow> Some (write_int m a 8 (unat x))
      | UI64_VAL x \<Rightarrow> Some (write_int m a 8 (unat x))
      | ADDRESS_VAL x \<Rightarrow> Some (write_int m a (sizeof_ptr p) x)
      | DOUBLE_VAL x \<Rightarrow> Some (write_int m a 8 (unat x))
      | _ \<Rightarrow> None)"

text \<open>\<^verbatim>\<open>assignToPlacedValueCellTarget\<close>: whether the value was accepted, and the memory after it.\<close>

definition assignToPlacedValueCellTarget ::
  "platform \<Rightarrow> memory \<Rightarrow> nat \<Rightarrow> YargType option \<Rightarrow> Value \<Rightarrow> (bool \<times> memory) option" where
  "assignToPlacedValueCellTarget p m a cellType rhsValue =
     (if cellType = None then None
      else case isInitialisableType cellType rhsValue of
        None \<Rightarrow> None
      | Some (ok, promoted) \<Rightarrow>
          if ok then
            if value_type promoted = None \<and> value_type rhsValue = None then None
            else if value_type promoted = None then
              (let rhs = noLongerLiteralInt rhsValue
               in if is_placeable_type (value_type rhs)
                  then map_option (Pair True) (setPlacedValue p m a rhs) else None)
            else if is_placeable_type (value_type promoted)
                 then map_option (Pair True) (setPlacedValue p m a promoted) else None
          else Some (False, m))"

subsection \<open>Containers\<close>

datatype ObjPackedContainer =
    OwningContainer (container_loc: nat) (container_storage: nat)
  | UnownedContainer (container_loc: nat)

record heap =
  mem :: memory
  containers :: "nat \<Rightarrow> ObjPackedContainer option"

definition createPackedValueContainerAt :: "heap \<Rightarrow> nat \<Rightarrow> nat \<Rightarrow> YargType \<Rightarrow> Value \<times> heap" where
  "createPackedValueContainerAt h new location type =
     (TYPED_VAL (Some new) type, h\<lparr>containers := (containers h)(new \<mapsto> UnownedContainer location)\<rparr>)"

definition newPackedValueContainerFor :: "heap \<Rightarrow> nat \<Rightarrow> nat \<Rightarrow> nat \<Rightarrow> nat \<Rightarrow> YargType \<Rightarrow> Value \<times> heap" where
  "newPackedValueContainerFor h new loc storage offset type =
     (TYPED_VAL (Some new) type, h\<lparr>containers := (containers h)(new \<mapsto> OwningContainer (loc + offset) storage)\<rparr>)"

definition createPackedContainerFor ::
  "heap \<Rightarrow> nat \<Rightarrow> ObjPackedContainer \<Rightarrow> nat \<Rightarrow> YargType \<Rightarrow> Value \<times> heap" where
  "createPackedContainerFor h new c offset type =
     (case c of
        UnownedContainer loc \<Rightarrow> createPackedValueContainerAt h new (loc + offset) type
      | OwningContainer loc storage \<Rightarrow> newPackedValueContainerFor h new loc storage offset type)"

definition containerElement ::
  "platform \<Rightarrow> heap \<Rightarrow> nat \<Rightarrow> ObjPackedContainer \<Rightarrow> YargType option \<Rightarrow> nat \<Rightarrow> (Value \<times> heap) option" where
  "containerElement p h new c etype eoffset =
     (let elementAddr = container_loc c + eoffset
      in case etype of
           Some t \<Rightarrow>
             if is_placeable_type etype \<and> is_packable_container_type etype
             then Some (createPackedContainerFor h new c eoffset t)
             else if is_placeable_type etype
             then map_option (\<lambda>v. (v, h)) (getPlacedValue p (mem h) elementAddr etype)
             else if is_packable_container_type etype
             then Some (createPackedContainerFor h new c eoffset t)
             else map_option (\<lambda>v. (v, h)) (read_value p (mem h) elementAddr)
         | None \<Rightarrow> map_option (\<lambda>v. (v, h)) (read_value p (mem h) elementAddr))"

definition setPlacedContainerElement ::
  "platform \<Rightarrow> heap \<Rightarrow> ObjPackedContainer \<Rightarrow> YargType option \<Rightarrow> nat \<Rightarrow> Value \<Rightarrow> (bool \<times> heap) option" where
  "setPlacedContainerElement p h c etype eoffset value =
     (let elementAddr = container_loc c + eoffset
      in if is_placeable_type etype
         then map_option (\<lambda>(ok, m). (ok, h\<lparr>mem := m\<rparr>))
                (assignToPlacedValueCellTarget p (mem h) elementAddr etype value)
         else (case assignToValueCellTarget etype value of
             None \<Rightarrow> None
           | Some (Inl _) \<Rightarrow> Some (False, h)
           | Some (Inr v) \<Rightarrow> Some (True, h\<lparr>mem := write_value p (mem h) elementAddr v\<rparr>)))"

text \<open>The container object of a value, and the operations by the kind of container.\<close>

definition AS_PACKEDCONTAINER :: "heap \<Rightarrow> Value \<Rightarrow> ObjPackedContainer option" where
  "AS_PACKEDCONTAINER h v = (case v of TYPED_VAL (Some a) _ \<Rightarrow> containers h a | _ \<Rightarrow> None)"

definition arrayElement :: "platform \<Rightarrow> heap \<Rightarrow> nat \<Rightarrow> Value \<Rightarrow> nat \<Rightarrow> (Value \<times> heap) option" where
  "arrayElement p h new array index =
     (case value_type array of
        Some (TypeArray _ _ e) \<Rightarrow> do {
          c \<leftarrow> AS_PACKEDCONTAINER h array;
          containerElement p h new c e (arrayElementOffset p e index)
        }
      | _ \<Rightarrow> None)"

definition setArrayElement :: "platform \<Rightarrow> heap \<Rightarrow> Value \<Rightarrow> nat \<Rightarrow> Value \<Rightarrow> (bool \<times> heap) option" where
  "setArrayElement p h array index value =
     (case value_type array of
        Some (TypeArray _ _ e) \<Rightarrow> do {
          c \<leftarrow> AS_PACKEDCONTAINER h array;
          setPlacedContainerElement p h c e (arrayElementOffset p e index) value
        }
      | _ \<Rightarrow> None)"

definition structField :: "platform \<Rightarrow> heap \<Rightarrow> nat \<Rightarrow> Value \<Rightarrow> nat \<Rightarrow> (Value \<times> heap) option" where
  "structField p h new structVal fieldIndex =
     (case value_type structVal of
        Some (TypeStruct _ s) \<Rightarrow>
          if fieldIndex < length (StructType.fields s) then do {
            c \<leftarrow> AS_PACKEDCONTAINER h structVal;
            containerElement p h new c (fst (StructType.fields s ! fieldIndex)) (structFieldOffset s fieldIndex)
          } else None
      | _ \<Rightarrow> None)"

definition setStructField :: "platform \<Rightarrow> heap \<Rightarrow> Value \<Rightarrow> nat \<Rightarrow> Value \<Rightarrow> (bool \<times> heap) option" where
  "setStructField p h structVal fieldIndex value =
     (case value_type structVal of
        Some (TypeStruct _ s) \<Rightarrow>
          if fieldIndex < length (StructType.fields s) then do {
            c \<leftarrow> AS_PACKEDCONTAINER h structVal;
            setPlacedContainerElement p h c (fst (StructType.fields s ! fieldIndex)) (structFieldOffset s fieldIndex) value
          } else None
      | _ \<Rightarrow> None)"

definition pointerDestination :: "platform \<Rightarrow> heap \<Rightarrow> nat \<Rightarrow> Value \<Rightarrow> (Value \<times> heap) option" where
  "pointerDestination p h new pointer =
     (case value_type pointer of
        Some (TypePointer _ t) \<Rightarrow> do { c \<leftarrow> AS_PACKEDCONTAINER h pointer; containerElement p h new c t 0 }
      | _ \<Rightarrow> None)"

definition setPointerDestination :: "platform \<Rightarrow> heap \<Rightarrow> Value \<Rightarrow> Value \<Rightarrow> (bool \<times> heap) option" where
  "setPointerDestination p h pointer value =
     (case value_type pointer of
        Some (TypePointer _ t) \<Rightarrow> do { c \<leftarrow> AS_PACKEDCONTAINER h pointer; setPlacedContainerElement p h c t 0 value }
      | _ \<Rightarrow> None)"

text \<open>The address of the new pointer type and of the new container are arguments.\<close>

definition containerElementPointer ::
  "heap \<Rightarrow> nat \<Rightarrow> nat \<Rightarrow> ObjPackedContainer \<Rightarrow> YargType option \<Rightarrow> nat \<Rightarrow> Value \<times> heap" where
  "containerElementPointer h newType new c etype eoffset =
     createPackedContainerFor h new c eoffset (TypePointer newType etype)"

definition arrayElementPointer ::
  "platform \<Rightarrow> heap \<Rightarrow> nat \<Rightarrow> nat \<Rightarrow> Value \<Rightarrow> nat \<Rightarrow> (Value \<times> heap) option" where
  "arrayElementPointer p h newType new array index =
     (case value_type array of
        Some (TypeArray _ _ e) \<Rightarrow> do {
          c \<leftarrow> AS_PACKEDCONTAINER h array;
          Some (containerElementPointer h newType new c e (arrayElementOffset p e index))
        }
      | _ \<Rightarrow> None)"

definition structFieldPointer ::
  "heap \<Rightarrow> nat \<Rightarrow> nat \<Rightarrow> Value \<Rightarrow> nat \<Rightarrow> (Value \<times> heap) option" where
  "structFieldPointer h newType new structVal fieldIndex =
     (case value_type structVal of
        Some (TypeStruct _ s) \<Rightarrow>
          if fieldIndex < length (StructType.fields s) then do {
            c \<leftarrow> AS_PACKEDCONTAINER h structVal;
            Some (containerElementPointer h newType new c (fst (StructType.fields s ! fieldIndex)) (structFieldOffset s fieldIndex))
          } else None
      | _ \<Rightarrow> None)"

definition pinPackedValueContainer :: "heap \<Rightarrow> Value \<Rightarrow> Value option" where
  "pinPackedValueContainer h v = do { c \<leftarrow> AS_PACKEDCONTAINER h v; Some (ADDRESS_VAL (container_loc c)) }"

definition offsetPointerDestination :: "platform \<Rightarrow> heap \<Rightarrow> Value \<Rightarrow> Value \<Rightarrow> heap option" where
  "offsetPointerDestination p h pointerVal offsetVal =
     (case pointerVal of
        TYPED_VAL (Some a) _ \<Rightarrow> do {
          c \<leftarrow> containers h a;
          let loc = sz p (container_loc c + as_positive_integer p offsetVal);
          Some (h\<lparr>containers := (containers h)(a \<mapsto> (case c of
              UnownedContainer _ \<Rightarrow> UnownedContainer loc
            | OwningContainer _ s \<Rightarrow> OwningContainer loc s))\<rparr>)
        }
      | _ \<Rightarrow> None)"

subsection \<open>New storage\<close>

fun yt_packs_asValue :: "YargType option \<Rightarrow> bool" where
  "yt_packs_asValue None = True"
| "yt_packs_asValue (Some t) \<longleftrightarrow>
     yt t \<in> {YBool, YInt, YString, YClass, YInstance, YFunction, YRoutine, YChannel, YSyncGroup, YMap, YYargType}"

fun yt_packable_element_count :: "platform \<Rightarrow> YargType option \<Rightarrow> nat" where
  "yt_packable_element_count p (Some (TypeArray _ n e)) = sz p (n * yt_packable_element_count p e)"
| "yt_packable_element_count p (Some (TypeStruct _ s)) =
     sz p (sum_list (map (\<lambda>f. yt_packable_element_count p (fst f)) (StructType.fields s)))"
| "yt_packable_element_count p _ = 1"

fun yt_packable_value_element_count :: "platform \<Rightarrow> YargType option \<Rightarrow> nat" where
  "yt_packable_value_element_count p (Some (TypeArray _ n e)) = sz p (n * yt_packable_value_element_count p e)"
| "yt_packable_value_element_count p (Some (TypeStruct _ s)) =
     sz p (sum_list (map (\<lambda>f. yt_packable_value_element_count p (fst f)) (StructType.fields s)))"
| "yt_packable_value_element_count p t = (if yt_packs_asValue t then 1 else 0)"

text \<open>The elements that \<^verbatim>\<open>yt_flatten_types\<close> writes from its cursor on.\<close>

fun yt_flatten_types :: "platform \<Rightarrow> nat \<Rightarrow> YargType option \<Rightarrow> (nat \<times> YargType option) list" where
  "yt_flatten_types p start_offset (Some (TypeArray _ n e)) =
     concat (map (\<lambda>i. yt_flatten_types p (sz p (start_offset + arrayElementOffset p e i)) e) [0..<n])"
| "yt_flatten_types p start_offset (Some (TypeStruct _ s)) =
     concat (map (\<lambda>f. yt_flatten_types p (sz p (start_offset + snd f)) (fst f)) (StructType.fields s))"
| "yt_flatten_types p start_offset t = [(start_offset, t)]"

text \<open>
  \<^verbatim>\<open>newPackedStorage\<close> at the location \<open>loc\<close> that the allocator returned: the zeroed memory with the
  default of every element that is a \<^verbatim>\<open>Value\<close>, the size, and the offsets of these elements, which
  the collector marks. An element written outside the array that was allocated for the elements, or
  a failed assertion, is \<open>None\<close>.
\<close>

definition newPackedStorage ::
  "platform \<Rightarrow> (YargType \<Rightarrow> Value) \<Rightarrow> memory \<Rightarrow> nat \<Rightarrow> YargType option \<Rightarrow> (memory \<times> nat \<times> nat list) option" where
  "newPackedStorage p newContainer m loc type =
     (let storage_required = yt_sizeof_type_storage p type;
          packed_elements = yt_packable_element_count p type;
          elements = yt_flatten_types p 0 type;
          value_elements = yt_packable_value_element_count p type;
          cells = filter (\<lambda>e. yt_packs_asValue (snd e)) elements
      in if length elements = packed_elements \<and> value_elements \<le> packed_elements \<and> length cells \<le> value_elements
         then Some (fold (\<lambda>e m. write_value p m (loc + fst e) (defaultValue newContainer (snd e))) cells
                      (write_mem m loc (replicate storage_required (Raw 0))),
                    storage_required, map fst cells)
         else None)"

text \<open>
  Containers with storage of their own. \<open>new\<close> is the container object and \<open>storage\<close> the storage
  object, whose bytes start at \<open>loc\<close>. The elements of storage that have default values are never
  containers, so that no further container is allocated.
\<close>

definition newPackedValueContainer ::
  "platform \<Rightarrow> heap \<Rightarrow> nat \<Rightarrow> nat \<Rightarrow> nat \<Rightarrow> YargType \<Rightarrow> (Value \<times> heap) option" where
  "newPackedValueContainer p h new storage loc type = do {
     (m, _, _) \<leftarrow> newPackedStorage p (\<lambda>_. NIL_VAL) (mem h) loc (Some type);
     Some (TYPED_VAL (Some new) type,
           h\<lparr>mem := m, containers := (containers h)(new \<mapsto> OwningContainer loc storage)\<rparr>)
   }"

definition duplicateStruct ::
  "platform \<Rightarrow> heap \<Rightarrow> nat \<Rightarrow> nat \<Rightarrow> nat \<Rightarrow> Value \<Rightarrow> (Value \<times> heap) option" where
  "duplicateStruct p h new storage loc rhsStructVal =
     (case value_type rhsStructVal of
        None \<Rightarrow> None
      | Some type \<Rightarrow> do {
          (m, size, _) \<leftarrow> newPackedStorage p (\<lambda>_. NIL_VAL) (mem h) loc (Some type);
          rhs \<leftarrow> AS_PACKEDCONTAINER h rhsStructVal;
          Some (TYPED_VAL (Some new) type,
                h\<lparr>mem := write_mem m loc (read_mem m (container_loc rhs) size),
                  containers := (containers h)(new \<mapsto> OwningContainer loc storage)\<rparr>)
        })"

definition duplicateArray :: "Value \<Rightarrow> Value" where
  "duplicateArray arrayVal = arrayVal"

definition duplicatePointer :: "Value \<Rightarrow> Value" where
  "duplicatePointer pointer = pointer"

definition allocByteArray ::
  "platform \<Rightarrow> heap \<Rightarrow> nat \<Rightarrow> nat \<Rightarrow> nat \<Rightarrow> nat \<Rightarrow> nat \<Rightarrow> (Value \<times> heap) option" where
  "allocByteArray p h newType new storage loc len =
     newPackedValueContainer p h new storage loc (TypeArray newType len (Some TypeUint8))"

definition createByteArrayAt :: "heap \<Rightarrow> nat \<Rightarrow> nat \<Rightarrow> nat \<Rightarrow> nat \<Rightarrow> Value \<times> heap" where
  "createByteArrayAt h newType new location len =
     createPackedValueContainerAt h new location (TypeArray newType len (Some TypeUint8))"

definition allocValueArray ::
  "platform \<Rightarrow> heap \<Rightarrow> nat \<Rightarrow> nat \<Rightarrow> nat \<Rightarrow> nat \<Rightarrow> nat \<Rightarrow> (Value \<times> heap) option" where
  "allocValueArray p h newType new storage loc len =
     newPackedValueContainer p h new storage loc (TypeArray newType len None)"

definition allocValueStructPair ::
  "platform \<Rightarrow> heap \<Rightarrow> nat \<Rightarrow> nat \<Rightarrow> nat \<Rightarrow> nat \<Rightarrow> string \<Rightarrow> string \<Rightarrow> (Value \<times> heap) option" where
  "allocValueStructPair p h newType new storage loc leftFieldName rightFieldName = do {
     s1 \<leftarrow> appendFieldType p None leftFieldName (newYargStructType 2);
     s2 \<leftarrow> appendFieldType p None rightFieldName s1;
     newPackedValueContainer p h new storage loc (TypeStruct newType s2)
   }"

text \<open>\<^verbatim>\<open>duplicateAsValueArray\<close> on the values that its objects stand for.\<close>

fun set_elements :: "platform \<Rightarrow> Value \<Rightarrow> nat \<Rightarrow> Value list \<Rightarrow> heap \<Rightarrow> heap option" where
  "set_elements p arr cursor [] h = Some h"
| "set_elements p arr cursor (v # vs) h = do {
     (_, h') \<leftarrow> setArrayElement p h arr cursor v;
     set_elements p arr (Suc cursor) vs h'
   }"

definition duplicateAsValueArray ::
  "platform \<Rightarrow> heap \<Rightarrow> nat \<Rightarrow> nat \<Rightarrow> nat \<Rightarrow> nat \<Rightarrow> Value list \<Rightarrow> (Value \<times> heap) option" where
  "duplicateAsValueArray p h newType new storage loc objects =
     (if objects = [] then Some (NIL_VAL, h)
      else do {
        (result, h') \<leftarrow> allocValueArray p h newType new storage loc (length objects);
        h'' \<leftarrow> set_elements p result 0 objects h';
        Some (result, h'')
      })"

text \<open>The values that \<^verbatim>\<open>markPackedStorage\<close> marks, for the cells recorded when the storage was made.\<close>

definition markPackedStorage :: "platform \<Rightarrow> memory \<Rightarrow> nat \<Rightarrow> nat list \<Rightarrow> Value option list" where
  "markPackedStorage p m loc values = map (\<lambda>off. read_value p m (loc + off)) values"

end
