(* ===== verification/YargType_Theorems.thy ===== *)
theory YargType_Theorems
  imports YargType
begin

section \<open>Properties of types and of their layout\<close>

subsection \<open>Equality of types\<close>

text \<open>
  The part of a type that \<^verbatim>\<open>typesEqual\<close> looks at: the addresses of the type objects, the names
  and the offsets of fields and the parameters of maps are left out.
\<close>

datatype shape = SAny | SSimple type_tag | SPointer shape | SArray nat shape | SStruct "shape list"

fun shape_of :: "YargType option \<Rightarrow> shape" where
  "shape_of None = SAny"
| "shape_of (Some (TypeArray _ n e)) = SArray n (shape_of e)"
| "shape_of (Some (TypeStruct _ s)) = SStruct (map (\<lambda>f. shape_of (fst f)) (fields s))"
| "shape_of (Some (TypePointer _ t)) = SPointer (shape_of t)"
| "shape_of (Some t) = SSimple (yt t)"

lemma shape_of_simple: "yt t \<notin> {YPointer, YArray, YStruct} \<Longrightarrow> shape_of (Some t) = SSimple (yt t)"
  by (cases t) simp_all

lemma shape_of_yt: "shape_of (Some t) = shape_of (Some u) \<Longrightarrow> yt t = yt u"
  by (cases t; cases u; simp)

lemma shape_of_None: "shape_of t = SAny \<longleftrightarrow> t = None" "SAny = shape_of t \<longleftrightarrow> t = None"
  by (cases t rule: shape_of.cases; simp)+

lemma map_eq_zip:
  "length xs = length ys \<Longrightarrow> map f xs = map g ys \<longleftrightarrow> (\<forall>p \<in> set (zip xs ys). f (fst p) = g (snd p))"
  by (induction xs ys rule: list_induct2) auto

lemma typesEqual_shape: "typesEqual a b \<longleftrightarrow> shape_of a = shape_of b"
proof (induction a b rule: typesEqual.induct)
  case (1 a b)
  show ?case
  proof (cases "a = b \<or> a = None \<or> b = None")
    case True
    then show ?thesis by (subst typesEqual.simps) (auto simp: shape_of_None split: option.splits)
  next
    case False
    then obtain t u where ab: "a = Some t" "b = Some u" and ne: "t \<noteq> u" by auto
    show ?thesis
    proof (cases "yt t = yt u \<and> yt t \<in> {YPointer, YArray, YStruct}")
      case False
      then have simple: "yt t \<noteq> YPointer \<and> yt t \<noteq> YArray \<and> yt t \<noteq> YStruct" if "yt t = yt u" using that by simp
      have "typesEqual a b \<longleftrightarrow> yt t = yt u"
        unfolding ab by (subst typesEqual.simps) (use ne simple in \<open>cases "yt t = yt u"; simp\<close>)
      moreover have "shape_of a = shape_of b" if "yt t = yt u"
        unfolding ab using that simple [OF that] by (simp only: shape_of_simple insert_iff empty_iff simp_thms)
      ultimately show ?thesis using ab shape_of_yt [of t u] by blast
    next
      case True
      then consider (ptr) x t' y u' where "t = TypePointer x t'" "u = TypePointer y u'"
        | (arr) x n t' y m u' where "t = TypeArray x n t'" "u = TypeArray y m u'"
        | (str) x s y r where "t = TypeStruct x s" "u = TypeStruct y r"
        by (cases t; cases u) auto
      then show ?thesis
      proof cases
        case ptr
        with 1(1) [of t u] ab ne show ?thesis by (subst typesEqual.simps) simp
      next
        case arr
        with 1(2) [of t u] ab ne show ?thesis by (subst typesEqual.simps) auto
      next
        case str
        have IH: "typesEqual (fst (fst fg)) (fst (snd fg)) \<longleftrightarrow> shape_of (fst (fst fg)) = shape_of (fst (snd fg))"
          if "length (fields s) = length (fields r)" "fg \<in> set (zip (fields s) (fields r))" for fg
          using 1(3) [of t u fg] ab ne str that by simp
        show ?thesis
        proof (cases "length (fields s) = length (fields r)")
          case True
          then show ?thesis using ab ne str IH by (subst typesEqual.simps) (auto simp: map_eq_zip)
        next
          case False
          then show ?thesis using ab ne str by (subst typesEqual.simps) (auto dest: map_eq_imp_length_eq)
        qed
      qed
    qed
  qed
qed



subsection \<open>Layout of struct types\<close>

text \<open>Well-formed types: sizes do not wrap, and the fields of a struct follow each other.\<close>

fun fields_ordered :: "platform \<Rightarrow> nat \<Rightarrow> (YargType option \<times> nat) list \<Rightarrow> nat \<Rightarrow> bool" where
  "fields_ordered p lo [] hi \<longleftrightarrow> lo \<le> hi"
| "fields_ordered p lo (f # fs) hi \<longleftrightarrow>
     lo \<le> snd f \<and> fields_ordered p (snd f + yt_sizeof_type_storage p (fst f)) fs hi"

fun wf_type :: "platform \<Rightarrow> YargType option \<Rightarrow> bool" where
  "wf_type p (Some (TypeArray _ n e)) \<longleftrightarrow>
     wf_type p e \<and> yt_sizeof_type_storage p e * n < 2 ^ (8 * sizeof_ptr p)"
| "wf_type p (Some (TypeStruct _ s)) \<longleftrightarrow>
     0 < alignment s \<and> storage_size s < 2 ^ (8 * sizeof_ptr p) \<and>
     fields_ordered p 0 (fields s) (storage_size s) \<and> (\<forall>f \<in> set (fields s). wf_type p (fst f))"
| "wf_type p _ \<longleftrightarrow> True"

lemma sizeof_simple_pos: "0 < sizeof_simple p y" "sizeof_simple p y < 2 ^ (8 * sizeof_ptr p)"
  by (cases p; simp add: sizeof_simple_def sizeof_Value_def sizeof_ptr_def)+

lemma sizeof_Value_bound: "0 < sizeof_Value p" "sizeof_Value p < 2 ^ (8 * sizeof_ptr p)"
  by (cases p; simp add: sizeof_Value_def sizeof_ptr_def)+

lemma sizeof_type_bound: "wf_type p t \<Longrightarrow> yt_sizeof_type_storage p t < 2 ^ (8 * sizeof_ptr p)"
  by (induction p t rule: wf_type.induct)
    (simp_all add: sz_def sizeof_simple_pos sizeof_Value_bound)

lemma alignment_pos: "wf_type p t \<Longrightarrow> 0 < yt_alignmentfor_type_storage p t"
  by (induction p t rule: wf_type.induct)
    (auto simp: sizeof_simple_pos sizeof_Value_def sizeof_BigSmallInt_def split: platform.splits)

text \<open>The layout that the declaration of a struct asks for: every field at the next multiple of its alignment.\<close>

definition round_up :: "nat \<Rightarrow> nat \<Rightarrow> nat" where
  "round_up a n = n + (a - n mod a) mod a"

lemma round_up_dvd: "0 < a \<Longrightarrow> a dvd round_up a n"
proof -
  assume a: "0 < a"
  have "n mod a < a" using a by simp
  then have "(n mod a + (a - n mod a) mod a) mod a = (n mod a + (a - n mod a)) mod a"
    by (simp add: mod_simps)
  also have "\<dots> = 0" using \<open>n mod a < a\<close> by simp
  finally show ?thesis unfolding round_up_def by (simp add: dvd_eq_mod_eq_0 mod_simps)
qed

lemma round_up_less: "0 < a \<Longrightarrow> round_up a n < n + a"
  by (simp add: round_up_def)

lemma round_up_ge: "n \<le> round_up a n"
  by (simp add: round_up_def)

fun auto_layout :: "platform \<Rightarrow> nat \<Rightarrow> YargType option list \<Rightarrow> (YargType option \<times> nat) list" where
  "auto_layout p off [] = []"
| "auto_layout p off (t # ts) =
     (let o1 = round_up (yt_alignmentfor_type_storage p t) off
      in (t, o1) # auto_layout p (o1 + yt_sizeof_type_storage p t) ts)"

fun auto_end :: "platform \<Rightarrow> nat \<Rightarrow> YargType option list \<Rightarrow> nat" where
  "auto_end p off [] = off"
| "auto_end p off (t # ts) =
     auto_end p (round_up (yt_alignmentfor_type_storage p t) off + yt_sizeof_type_storage p t) ts"

definition space :: "platform \<Rightarrow> YargType option list \<Rightarrow> nat" where
  "space p ts = sum_list (map (\<lambda>t. yt_alignmentfor_type_storage p t + yt_sizeof_type_storage p t) ts)"

lemma space_Cons [simp]:
  "space p (t # ts) = yt_alignmentfor_type_storage p t + yt_sizeof_type_storage p t + space p ts"
  by (simp add: space_def)

lemma auto_end_le: "\<forall>t \<in> set ts. wf_type p t \<Longrightarrow> auto_end p off ts \<le> off + space p ts"
proof (induction ts arbitrary: off)
  case (Cons t ts)
  have "round_up (yt_alignmentfor_type_storage p t) off < off + yt_alignmentfor_type_storage p t"
    using Cons.prems by (intro round_up_less alignment_pos) simp
  with Cons.IH [of "round_up (yt_alignmentfor_type_storage p t) off + yt_sizeof_type_storage p t"] Cons.prems
  show ?case by simp
qed (simp add: space_def)

lemma auto_layout_ordered: "fields_ordered p off (auto_layout p off ts) (auto_end p off ts)"
proof -
  have "lo \<le> off \<Longrightarrow> fields_ordered p lo (auto_layout p off ts) (auto_end p off ts)" for lo
    by (induction ts arbitrary: lo off) (auto simp: Let_def intro: order_trans [OF _ round_up_ge])
  then show ?thesis by simp
qed

lemma fields_ordered_end:
  "fields_ordered p lo fs hi \<Longrightarrow> i < length fs \<Longrightarrow>
     lo \<le> snd (fs ! i) \<and> snd (fs ! i) + yt_sizeof_type_storage p (fst (fs ! i)) \<le> hi"
proof (induction fs arbitrary: lo i)
  case (Cons f fs)
  have "lo' \<le> hi" if "fields_ordered p lo' fs hi" for lo'
    using that by (induction fs arbitrary: lo') fastforce+
  with Cons show ?case by (cases i) fastforce+
qed simp

lemma fields_ordered_nth:
  "fields_ordered p lo fs hi \<Longrightarrow> j < i \<Longrightarrow> i < length fs \<Longrightarrow>
     snd (fs ! j) + yt_sizeof_type_storage p (fst (fs ! j)) \<le> snd (fs ! i)"
proof (induction fs arbitrary: lo i j)
  case (Cons f fs)
  show ?case
  proof (cases j)
    case 0
    then show ?thesis
      using Cons.prems fields_ordered_end [of p "snd f + yt_sizeof_type_storage p (fst f)" fs hi "i - 1"]
      by (cases i) auto
  next
    case (Suc k)
    then show ?thesis using Cons.IH [of _ k "i - 1"] Cons.prems by (cases i) auto
  qed
qed simp

lemma auto_layout_types: "map fst (auto_layout p off ts) = ts"
  by (induction ts arbitrary: off) (auto simp: Let_def)

lemma auto_layout_aligned:
  "\<forall>t \<in> set ts. wf_type p t \<Longrightarrow> f \<in> set (auto_layout p off ts) \<Longrightarrow>
     yt_alignmentfor_type_storage p (fst f) dvd snd f"
  by (induction ts arbitrary: off) (auto simp: Let_def round_up_dvd alignment_pos)

lemma map_of_zip_upt:
  "distinct ns \<Longrightarrow> i < length ns \<Longrightarrow> map_of (zip ns [k..<k + length ns]) (ns ! i) = Some (k + i)"
  by (simp add: map_of_zip_nth)

lemma map_of_zip_None: "length ns = length ks \<Longrightarrow> n \<notin> set ns \<Longrightarrow> map_of (zip ns ks) n = None"
  by (induction ns ks rule: list_induct2) auto

lemma appendFieldType_step:
  assumes "fields st = fs @ replicate (Suc m) (None, 0)" "field_names st = zip ns [0..<length fs]"
    "length ns = length fs" "name \<notin> set ns" "wf_type p t"
    "storage_size st + yt_alignmentfor_type_storage p t + yt_sizeof_type_storage p t < 2 ^ (8 * sizeof_ptr p)"
  shows "appendFieldType p t name st =
    (let o1 = round_up (yt_alignmentfor_type_storage p t) (storage_size st)
     in Some (StructType (zip (ns @ [name]) [0..<Suc (length fs)]) (fs @ (t, o1) # replicate m (None, 0))
          (o1 + yt_sizeof_type_storage p t) (max (yt_alignmentfor_type_storage p t) (alignment st))))"
proof -
  let ?a = "yt_alignmentfor_type_storage p t" and ?z = "yt_sizeof_type_storage p t"
  have "round_up ?a (storage_size st) < storage_size st + ?a"
    using assms(5) by (intro round_up_less alignment_pos)
  with assms(6) have "sz p (round_up ?a (storage_size st)) = round_up ?a (storage_size st)"
    and "sz p (round_up ?a (storage_size st) + ?z) = round_up ?a (storage_size st) + ?z"
    by (simp_all add: sz_def)
  moreover have "set_name name (length fs) (zip ns [0..<length fs]) = zip (ns @ [name]) [0..<Suc (length fs)]"
    using assms(3,4) by (simp add: set_name_def map_of_zip_None)
  ultimately show ?thesis
    using assms(1-3) by (simp add: appendFieldType_def Let_def round_up_def max_def nth_append)
qed

lemma op_type_struct_loop_auto:
  assumes "fields st = fs @ replicate (length tn) (None, 0)" "field_names st = zip ns [0..<length fs]"
    "length ns = length fs" "distinct (ns @ map snd tn)" "\<forall>t \<in> set (map fst tn). wf_type p t"
    "storage_size st + space p (map fst tn) < 2 ^ (8 * sizeof_ptr p)"
  shows "\<exists>a. op_type_struct_loop p (map (\<lambda>(t, n). (t, AutoOffset, n)) tn) st =
     Inr (StructType (zip (ns @ map snd tn) [0..<length fs + length tn])
            (fs @ auto_layout p (storage_size st) (map fst tn))
            (auto_end p (storage_size st) (map fst tn)) a) \<and> alignment st \<le> a"
  using assms
proof (induction tn arbitrary: st fs ns)
  case Nil
  then show ?case by (cases st) auto
next
  case (Cons x tn)
  obtain t n where x: "x = (t, n)" by (cases x)
  let ?o = "round_up (yt_alignmentfor_type_storage p t) (storage_size st)"
  let ?st = "StructType (zip (ns @ [n]) [0..<Suc (length fs)]) (fs @ (t, ?o) # replicate (length tn) (None, 0))
          (?o + yt_sizeof_type_storage p t) (max (yt_alignmentfor_type_storage p t) (alignment st))"
  have step: "appendFieldType p t n st = Some ?st"
    using appendFieldType_step [of st fs "length tn" ns n p t] Cons.prems x by (simp add: Let_def)
  have "?o < storage_size st + yt_alignmentfor_type_storage p t"
    using Cons.prems(5) x by (intro round_up_less alignment_pos) simp
  then have "\<exists>a. op_type_struct_loop p (map (\<lambda>(t, n). (t, AutoOffset, n)) tn) ?st =
     Inr (StructType (zip ((ns @ [n]) @ map snd tn) [0..<length (fs @ [(t, ?o)]) + length tn])
            ((fs @ [(t, ?o)]) @ auto_layout p (storage_size ?st) (map fst tn))
            (auto_end p (storage_size ?st) (map fst tn)) a) \<and> alignment ?st \<le> a"
    using Cons.prems x by (intro Cons.IH) auto
  moreover have "structFieldIndex st n = None"
    using Cons.prems x by (simp add: structFieldIndex_def map_of_zip_None)
  ultimately show ?case using step x by (auto simp: Let_def)
qed



text \<open>
  The storage of a struct is not rounded up to its alignment, so an array of structs has
  misaligned elements: in an array of two \<^verbatim>\<open>struct { uint64 a; uint8 b; }\<close> the second struct
  starts at offset 9, although its field \<^verbatim>\<open>a\<close> asks for an alignment of 8.
\<close>

lemma struct_array_misaligned:
  "\<exists>st. op_type_struct Bits64 [(Some TypeUint64, AutoOffset, ''a''), (Some TypeUint8, AutoOffset, ''b'')] = Inr st \<and>
     arrayElementOffset Bits64 (Some (TypeStruct 0 st)) 1 = 9 \<and>
     yt_alignmentfor_type_storage Bits64 (Some (TypeStruct 0 st)) = 8"
  by (simp add: op_type_struct_def newYargStructType_def structFieldIndex_def appendFieldType_def set_name_def
      sizeof_simple_def sz_def sizeof_ptr_def arrayElementOffset_def)

end
