(* ===== verification/Value_Theorems.thy ===== *)
theory Value_Theorems
  imports Value YargType_Theorems BigInt_Theorems
begin

section \<open>Properties of values and of typed cells\<close>

subsection \<open>The integer a value stands for\<close>

fun value_num :: "Value \<Rightarrow> int option" where
  "value_num (I8_VAL x) = Some (sint x)" | "value_num (UI8_VAL x) = Some (int (unat x))"
| "value_num (I16_VAL x) = Some (sint x)" | "value_num (UI16_VAL x) = Some (int (unat x))"
| "value_num (I32_VAL x) = Some (sint x)" | "value_num (UI32_VAL x) = Some (int (unat x))"
| "value_num (I64_VAL x) = Some (sint x)" | "value_num (UI64_VAL x) = Some (int (unat x))"
| "value_num (INT_VAL i) = Some (int_val i)"
| "value_num _ = None"

text \<open>The range of a machine integer type.\<close>

definition machine_range :: "type_tag \<Rightarrow> (int \<times> int) option" where
  "machine_range y = map_of
     [(YInt8, (- (2 ^ 7), 2 ^ 7)), (YUint8, (0, 2 ^ 8)), (YInt16, (- (2 ^ 15), 2 ^ 15)), (YUint16, (0, 2 ^ 16)),
      (YInt32, (- (2 ^ 31), 2 ^ 31)), (YUint32, (0, 2 ^ 32)), (YInt64, (- (2 ^ 63), 2 ^ 63)), (YUint64, (0, 2 ^ 64))] y"

lemma ucast_word_of_sint:
  fixes x :: u32
  shows "ucast x = (word_of_int (sint x) :: u8)" "ucast x = (word_of_int (sint x) :: u16)"
  by (transfer, simp add: take_bit_signed_take_bit)+

lemma sint_ucast_small:
  fixes x :: u32
  shows "- 128 \<le> sint x \<Longrightarrow> sint x < 128 \<Longrightarrow> sint (ucast x :: u8) = sint x"
    and "- 32768 \<le> sint x \<Longrightarrow> sint x < 32768 \<Longrightarrow> sint (ucast x :: u16) = sint x"
  unfolding ucast_word_of_sint sint_sbintrunc' by (simp_all add: signed_take_bit_int_eq_self)

lemma unat_ucast_small:
  fixes x :: u32
  shows "unat x < 256 \<Longrightarrow> unat (ucast x :: u8) = unat x"
    and "unat x < 65536 \<Longrightarrow> unat (ucast x :: u16) = unat x"
  by (simp_all add: unsigned_ucast_eq take_bit_nat_eq_self)

lemma int_to_u64_value:
  assumes "int_norm i" "0 \<le> int_val i" "int_val i < 2 ^ 64"
  shows "int (unat (int_to_u64 i)) = int_val i"
proof (cases "i_neg i")
  case True
  then have "int_val i = 0" using assms by (simp add: int_val_def)
  then show ?thesis using True by (simp add: int_to_u64_def)
qed (use assms int_to_u64_correct in blast)

text \<open>The promotion of a literal succeeds exactly when the literal is in the range of the type.\<close>

lemma promote_literal_correct:
  assumes i: "int_norm i" and r: "machine_range (yt t) = Some (lo, hi)"
  shows "if lo \<le> int_val i \<and> int_val i < hi
    then value_num (promote_literal t i) = Some (int_val i) \<and> value_type (promote_literal t i) = Some t
    else promote_literal t i = NIL_VAL"
proof -
  have "sint (- 0x80 :: u64) = - 128" "sint (- 0x8000 :: u64) = - 32768" "sint (- 0x80000000 :: u64) = - (2 ^ 31)"
    "sint INT64_MIN = - (2 ^ 63)"
    by (simp_all add: INT64_MIN_def)
  note range = int_is_range_correct [OF i] this
  note conv = int_to_i32_correct [OF i] int_to_u32_correct [OF i] int_to_i64_correct [OF i] int_to_u64_value [OF i]
  have i8: "sint (ucast (int_to_i32 i) :: u8) = int_val i" if "- 128 \<le> int_val i" "int_val i < 128"
    using conv(1) that by (simp add: sint_ucast_small)
  have i16: "sint (ucast (int_to_i32 i) :: u16) = int_val i" if "- 32768 \<le> int_val i" "int_val i < 32768"
    using conv(1) that by (simp add: sint_ucast_small)
  have u8: "int (unat (ucast (int_to_u32 i) :: u8)) = int_val i" if "0 \<le> int_val i" "int_val i < 256"
    using conv(2) that unat_ucast_small(1) [of "int_to_u32 i"] by simp
  have u16: "int (unat (ucast (int_to_u32 i) :: u16)) = int_val i" if "0 \<le> int_val i" "int_val i < 65536"
    using conv(2) that unat_ucast_small(2) [of "int_to_u32 i"] by simp
  show ?thesis
    using r i8 i16 u8 u16 conv
    by (cases t) (simp_all add: machine_range_def promote_literal_def range)
qed

subsection \<open>Typed cells\<close>

text \<open>What the type of a cell promises of its content.\<close>

definition cell_admits :: "YargType option \<Rightarrow> Value \<Rightarrow> bool" where
  "cell_admits ct v =
     (case ct of
        None \<Rightarrow> True
      | Some t \<Rightarrow>
          if is_nil v then is_nil_assignable_type ct
          else (case value_type v of
              None \<Rightarrow> False
            | Some u \<Rightarrow>
                if yt t = YArray \<and> yt u = YArray
                then isInitializableArray (cardinality t, element_type t) (cardinality u, element_type u)
                else typesEqual ct (Some u)))"

fun literal_value :: "Value \<Rightarrow> bool" where
  "literal_value (INT_VAL i) = i_literal i"
| "literal_value _ = False"

lemma i_literal_update [simp]:
  "int_val (i\<lparr>i_literal := b\<rparr>) = int_val i" "int_norm (i\<lparr>i_literal := b\<rparr>) = int_norm i"
  "int_ok (i\<lparr>i_literal := b\<rparr>) = int_ok i"
  by (simp_all add: int_val_def int_abs_def int_norm_def int_store_def int_ok_def int_invariant_def)

lemma noLongerLiteralInt_simps [simp]:
  "\<not> literal_value (noLongerLiteralInt v)" "value_type (noLongerLiteralInt v) = value_type v"
  "is_nil (noLongerLiteralInt v) = is_nil v" "value_num (noLongerLiteralInt v) = value_num v"
  "\<not> literal_value v \<Longrightarrow> noLongerLiteralInt v = v"
  by (cases v; simp add: noLongerLiteralInt_def)+

lemma cell_admits_noLongerLiteralInt [simp]: "cell_admits ct (noLongerLiteralInt v) = cell_admits ct v"
  unfolding cell_admits_def noLongerLiteralInt_simps ..

lemma value_type_None [simp]: "value_type v = None \<longleftrightarrow> v = NIL_VAL"
  by (cases v) simp_all

lemma promote_literal_type:
  "promote_literal t i \<noteq> NIL_VAL \<Longrightarrow>
     value_type (promote_literal t i) = Some t \<and> \<not> is_nil (promote_literal t i) \<and>
     \<not> literal_value (promote_literal t i) \<and> yt t \<noteq> YArray \<and> machine_range (yt t) \<noteq> None"
  by (cases t) (simp_all add: promote_literal_def machine_range_def split: if_splits)

lemma concrete_typeof_cases:
  "\<not> is_nil v \<Longrightarrow> concrete_typeof v = Some (YARGTYPE_VAL (Some u)) \<longleftrightarrow>
     value_type v = Some u \<and> \<not> (u = ImplementationObj \<and> isObjValue v)"
  by (cases v) auto

lemma isInitialisableType_total:
  assumes "concrete_typeof v \<noteq> None"
  shows "\<exists>r. isInitialisableType (Some t) v = Some r"
proof (cases "is_nil v")
  case False
  then obtain u where "concrete_typeof v = Some (YARGTYPE_VAL (Some u))"
    using assms by (cases v) (auto split: if_splits)
  then show ?thesis using False by (auto simp: isInitialisableType_def Let_def simp del: concrete_typeof.simps)
qed (simp add: isInitialisableType_def)

text \<open>The outcome of \<^verbatim>\<open>isInitialisableType\<close> for a cell with a type, in one case distinction.\<close>

lemma isInitialisableType_Some:
  assumes "isInitialisableType (Some t) v = Some (ok, pr)"
  shows "(pr = NIL_VAL \<and> ok = cell_admits (Some t) v) \<or>
    (\<exists>i. v = INT_VAL i \<and> i_literal i \<and> pr = promote_literal t i \<and> pr \<noteq> NIL_VAL \<and> ok)"
proof (cases "is_nil v")
  case True
  then show ?thesis using assms by (simp add: isInitialisableType_def cell_admits_def)
next
  case nn: False
  then obtain u where u: "concrete_typeof v = Some (YARGTYPE_VAL (Some u))"
    using assms by (cases v) (auto simp: isInitialisableType_def split: if_splits)
  then have vt: "value_type v = Some u" using nn concrete_typeof_cases by blast
  show ?thesis
  proof (cases "yt t = YArray \<and> yt u = YArray")
    case True
    then show ?thesis using assms nn u vt by (simp add: isInitialisableType_def cell_admits_def del: concrete_typeof.simps)
  next
    case False
    then have ca: "cell_admits (Some t) v = typesEqual (Some t) (Some u)"
      using nn vt by (auto simp: cell_admits_def)
    define q where "q = (case v of INT_VAL i \<Rightarrow> if i_literal i then promote_literal t i else NIL_VAL | _ \<Rightarrow> NIL_VAL)"
    have eq: "Some (ok, pr) = (if q \<noteq> NIL_VAL then Some (True, q) else Some (typesEqual (Some t) (Some u), NIL_VAL))"
      unfolding assms [symmetric] isInitialisableType_def q_def
      using False nn u by (auto simp: Let_def simp del: concrete_typeof.simps)
    show ?thesis
    proof (cases "q = NIL_VAL")
      case True
      then show ?thesis using eq ca by simp
    next
      case False
      then obtain i where "v = INT_VAL i" "i_literal i" by (cases v) (auto simp: q_def split: if_splits)
      then show ?thesis using False eq by (simp add: q_def)
    qed
  qed
qed

lemma cell_accepts_again:
  assumes "cell_admits (Some t) w" "\<not> literal_value w" "concrete_typeof w \<noteq> None"
  shows "assignToValueCellTarget (Some t) w = Some (Inr w)"
proof -
  obtain ok pr where i: "isInitialisableType (Some t) w = Some (ok, pr)"
    using isInitialisableType_total [OF assms(3)] by fastforce
  from isInitialisableType_Some [OF this] assms(1,2) have "pr = NIL_VAL" "ok" by auto
  then show ?thesis using i assms(2) by (simp add: assignToValueCellTarget_def)
qed

text \<open>
  C22: Cells are typed. When a value is assigned to a cell, the cell is left alone with an error, or
  it then holds a value its type admits, which is no longer a literal, denotes the same integer as
  the value assigned when that is one, and would be accepted by the same cell again and stored
  unchanged.
\<close>

theorem cell_assignment_type_safe:
  assumes "assignToValueCellTarget ct v = Some (Inr w)" "\<forall>i. v = INT_VAL i \<longrightarrow> int_norm i"
  shows "cell_admits ct w \<and> \<not> literal_value w \<and> value_num w = value_num v \<and>
    assignToValueCellTarget ct w = Some (Inr w)"
proof (cases ct)
  case None
  then show ?thesis using assms by (auto simp: assignToValueCellTarget_def cell_admits_def)
next
  case (Some t)
  obtain ok pr where init: "isInitialisableType (Some t) v = Some (ok, pr)" and "ok"
    and w: "w = (if pr = NIL_VAL then noLongerLiteralInt v else pr)"
    using assms Some by (auto simp: assignToValueCellTarget_def split: option.splits prod.splits if_splits)
  from isInitialisableType_Some [OF init] consider
      (same) "pr = NIL_VAL" "cell_admits (Some t) v"
    | (promoted) i where "v = INT_VAL i" "pr = promote_literal t i" "pr \<noteq> NIL_VAL"
    using \<open>ok\<close> by blast
  then show ?thesis
  proof cases
    case same
    then have adm: "cell_admits (Some t) w" using w by simp
    have "concrete_typeof w \<noteq> None"
    proof (cases "is_nil v")
      case False
      then have "concrete_typeof v \<noteq> None" using init by (auto simp: isInitialisableType_def split: option.splits)
      then show ?thesis using w same(1) by (cases v) (auto simp: noLongerLiteralInt_def)
    qed (use w same(1) in simp)
    then show ?thesis using Some same(1) w adm cell_accepts_again by simp
  next
    case promoted
    obtain lo hi where r: "machine_range (yt t) = Some (lo, hi)"
      using promote_literal_type promoted by fastforce
    have pt: "value_type pr = Some t" "\<not> is_nil pr" "\<not> literal_value pr" "yt t \<noteq> YArray"
      using promote_literal_type [of t i] promoted by auto
    then have "cell_admits (Some t) pr" by (simp add: cell_admits_def typesEqual_shape)
    moreover have "concrete_typeof pr \<noteq> None"
      using pt r by (cases pr) (auto simp: machine_range_def)
    moreover have "value_num pr = value_num v"
      using promote_literal_correct [of i t lo hi] r promoted assms(2) by (auto split: if_splits)
    ultimately show ?thesis using Some w promoted(3) pt(3) cell_accepts_again by simp
  qed
qed

theorem cell_assignment_type_safe_witness:
  "assignToValueCellTarget (Some TypeUint8) (INT_VAL ((sample 200)\<lparr>i_literal := True\<rparr>)) = Some (Inr (UI8_VAL 200)) \<and>
   cell_admits (Some TypeUint8) (UI8_VAL 200)"
proof -
  let ?i = "(sample 200)\<lparr>i_literal := True\<rparr>"
  have i: "int_norm ?i" "int_val ?i = 200"
    by simp_all
  have "int_to_u32 ?i = 200" using int_to_u32_correct [OF i(1)] i(2) by (simp add: word_unat_eq_iff)
  then have "assignToValueCellTarget (Some TypeUint8) (INT_VAL ?i) = Some (Inr (UI8_VAL 200))"
    using int_is_range_correct [OF i(1), of 0 255] i(2)
    by (simp add: assignToValueCellTarget_def isInitialisableType_def promote_literal_def)
  with cell_assignment_type_safe [of "Some TypeUint8" "INT_VAL ?i" "UI8_VAL 200"] i(1) show ?thesis by auto
qed



subsection \<open>Indices and sizes\<close>

lemma size_t_of_id: "0 \<le> x \<Longrightarrow> x < 2 ^ (8 * sizeof_ptr p) \<Longrightarrow> int (size_t_of p x) = x"
  by (simp add: size_t_of_def)

lemma sint_word_less:
  "sint (x :: u8) < 2 ^ 32" "sint (y :: u16) < 2 ^ 32" "sint (z :: u32) < 2 ^ 32" "sint (w :: u64) < 2 ^ 64"
  using sint_lt [of x] sint_lt [of y] sint_lt [of z] sint_lt [of w] by simp_all

lemma unat_word_less:
  "unat (x :: u8) < 2 ^ 32" "unat (y :: u16) < 2 ^ 32" "unat (z :: u32) < 2 ^ 32" "unat (w :: u64) < 2 ^ 64"
  using unsigned_less [of x, where ?'a = nat] unsigned_less [of y, where ?'a = nat]
    unsigned_less [of z, where ?'a = nat] unsigned_less [of w, where ?'a = nat] by (simp_all del: unat_u16_less)

text \<open>
  C24: Whenever \<^verbatim>\<open>is_positive_integer\<close> accepts a value as an index, an offset or a cardinality,
  \<^verbatim>\<open>as_positive_integer\<close> converts it to \<^verbatim>\<open>size_t\<close> without changing it, on 32-bit and on
  64-bit builds; and it rejects every integer that is negative or does not fit.
\<close>

theorem positive_integer_correct:
  assumes "value_num v = Some n" "\<forall>i. v = INT_VAL i \<longrightarrow> int_norm i"
  shows "is_positive_integer p v = (0 \<le> n \<and> n < 2 ^ (8 * sizeof_ptr p)) \<and>
    (is_positive_integer p v \<longrightarrow> int (as_positive_integer p v) = n)"
proof (cases v)
  case (INT_VAL i)
  then have i: "int_norm i" "n = int_val i" using assms by auto
  show ?thesis
    using i int_to_u64_value [OF i(1)] int_to_u32_correct [OF i(1)]
    by (cases p) (auto simp: INT_VAL is_positive_integer_def as_positive_integer_def int_is_range_correct sizeof_ptr_def)
next
  case (I64_VAL x)
  then show ?thesis using assms sint_word_less(4) [of x]
    by (cases p) (auto simp: is_positive_integer_def as_positive_integer_def sizeof_ptr_def size_t_of_id)
next
  case (UI64_VAL x)
  then show ?thesis using assms unat_word_less(4) [of x]
    by (cases p) (auto simp: is_positive_integer_def as_positive_integer_def sizeof_ptr_def)
next
  case (I32_VAL x)
  then show ?thesis using assms sint_word_less(3) [of x]
    by (cases p) (auto simp: is_positive_integer_def as_positive_integer_def sizeof_ptr_def size_t_of_id)
next
  case (UI32_VAL x)
  then show ?thesis using assms unat_word_less(3) [of x]
    by (cases p) (auto simp: is_positive_integer_def as_positive_integer_def sizeof_ptr_def)
next
  case (I16_VAL x)
  then show ?thesis using assms sint_word_less(2) [of x]
    by (cases p) (auto simp: is_positive_integer_def as_positive_integer_def sizeof_ptr_def size_t_of_id)
next
  case (UI16_VAL x)
  then show ?thesis using assms unat_word_less(2) [of x]
    by (cases p) (auto simp: is_positive_integer_def as_positive_integer_def sizeof_ptr_def)
next
  case (I8_VAL x)
  then show ?thesis using assms sint_word_less(1) [of x]
    by (cases p) (auto simp: is_positive_integer_def as_positive_integer_def sizeof_ptr_def size_t_of_id)
next
  case (UI8_VAL x)
  then show ?thesis using assms unat_word_less(1) [of x]
    by (cases p) (auto simp: is_positive_integer_def as_positive_integer_def sizeof_ptr_def)
qed (use assms in auto)

theorem positive_integer_correct_witness:
  "is_positive_integer Bits32 (INT_VAL (sample 70000)) \<and> as_positive_integer Bits32 (INT_VAL (sample 70000)) = 70000"
  using positive_integer_correct [of "INT_VAL (sample 70000)" 70000 Bits32] by (simp add: sizeof_ptr_def)

subsection \<open>Equality of values\<close>

text \<open>What \<^verbatim>\<open>valuesEqual\<close> compares, by kind of value.\<close>

datatype value_key =
  KValue Value | KInt int | KZero | KShape shape | KLoc nat YargType

fun key_of :: "(nat option \<Rightarrow> nat) \<Rightarrow> Value \<Rightarrow> value_key" where
  "key_of loc (INT_VAL i) = KInt (int_val i)"
| "key_of loc (DOUBLE_VAL x) = (if take_bit 63 (unat x) = 0 then KZero else KValue (DOUBLE_VAL x))"
| "key_of loc (YARGTYPE_VAL t) = KShape (shape_of t)"
| "key_of loc (TYPED_VAL ob t) = (if yt t = YPointer then KLoc (loc ob) t else KValue (TYPED_VAL ob t))"
| "key_of loc v = KValue v"

fun nan_value :: "Value \<Rightarrow> bool" where
  "nan_value (DOUBLE_VAL x) = double_nan x"
| "nan_value _ = False"

fun norm_value :: "Value \<Rightarrow> bool" where
  "norm_value (INT_VAL i) = int_norm i"
| "norm_value _ = True"

lemma typed_valuesEqual_key:
  "typed_valuesEqual loc (x, t) (y, t) \<longleftrightarrow> (if yt t = YPointer then loc x = loc y else x = y)"
  by (cases t) (simp_all add: arraysEqual_def structsEqual_def pointersEqual_def typesEqual_shape)

lemma valuesEqual_key:
  assumes "norm_value a" "norm_value b"
  shows "valuesEqual loc a b \<longleftrightarrow> \<not> nan_value a \<and> \<not> nan_value b \<and> key_of loc a = key_of loc b"
proof (cases "is_nil a \<and> is_nil b")
  case True
  then show ?thesis by (cases a; cases b) (auto simp: valuesEqual_def)
next
  case False
  show ?thesis
  proof (cases a)
    case (TYPED_VAL x t)
    with False show ?thesis by (cases b) (auto simp: valuesEqual_def typed_valuesEqual_key simp del: typed_valuesEqual.simps)
  next
    case (INT_VAL i)
    with False assms show ?thesis by (cases b) (auto simp: valuesEqual_def int_is_correct comp_of_def)
  next
    case (DOUBLE_VAL x)
    with False show ?thesis by (cases b) (auto simp: valuesEqual_def double_eq_def double_nan_def)
  next
    case (YARGTYPE_VAL t)
    with False show ?thesis by (cases b) (auto simp: valuesEqual_def typesEqual_shape)
  qed (use False in \<open>cases b; auto simp: valuesEqual_def\<close>)+
qed

text \<open>
  C25: Equality of values is symmetric and transitive, and reflexive but for a NaN; on integers it is
  equality of the numbers, whatever the size of their storage.
\<close>

theorem valuesEqual_partial_equivalence:
  assumes "norm_value a" "norm_value b" "norm_value c"
  shows "valuesEqual loc a a = (\<not> nan_value a) \<and> valuesEqual loc a b = valuesEqual loc b a \<and>
    (valuesEqual loc a b \<and> valuesEqual loc b c \<longrightarrow> valuesEqual loc a c) \<and>
    (a = INT_VAL i \<and> b = INT_VAL j \<longrightarrow> valuesEqual loc a b = (int_val i = int_val j))"
  using valuesEqual_key [OF assms(1,1)] valuesEqual_key [OF assms(1,2)] valuesEqual_key [OF assms(2,1)]
    valuesEqual_key [OF assms(2,3)] valuesEqual_key [OF assms(1,3)] by auto

theorem valuesEqual_partial_equivalence_witness:
  "valuesEqual (\<lambda>_. 0) (INT_VAL (sample 5)) (INT_VAL ((sample 5)\<lparr>i_literal := True\<rparr>))"
  using valuesEqual_partial_equivalence [of "INT_VAL (sample 5)" "INT_VAL ((sample 5)\<lparr>i_literal := True\<rparr>)"
      NIL_VAL "\<lambda>_. 0" "sample 5" "(sample 5)\<lparr>i_literal := True\<rparr>"] by auto

end
