(* ===== verification/Packed_Theorems.thy ===== *)
theory Packed_Theorems
  imports Packed Value_Theorems
begin

section \<open>Properties of packed storage\<close>

subsection \<open>Memory\<close>

lemma length_bytes_of [simp]: "length (bytes_of n v) = n"
  by (induction n arbitrary: v) simp_all

lemma nat_of_bytes_of [simp]: "nat_of_bytes (bytes_of n v) = v mod 256 ^ n"
proof (induction n arbitrary: v)
  case (Suc n)
  have "v mod 256 ^ Suc n = v mod 256 + 256 * (v div 256 mod 256 ^ n)"
    using mod_mult2_eq [of v 256 "256 ^ n"] by simp
  then show ?case using Suc by (simp add: unat_of_nat)
qed simp

lemma raw_bytes_Raw [simp]: "raw_bytes (map Raw bs) = Some bs"
  by (induction bs) simp_all

lemma length_read_mem [simp]: "length (read_mem m a n) = n"
  by (simp add: read_mem_def)

lemma read_write_same [simp]: "n = length bs \<Longrightarrow> read_mem (write_mem m a bs) a n = bs"
  by (rule nth_equalityI) (simp_all add: read_mem_def write_mem_def)

lemma read_write_apart:
  "a + n \<le> b \<or> b + length bs \<le> a \<Longrightarrow> read_mem (write_mem m b bs) a n = read_mem m a n"
  by (auto simp: read_mem_def write_mem_def)

lemma read_mem_replicate:
  "a \<le> b \<Longrightarrow> b + n \<le> a + k \<Longrightarrow> read_mem (write_mem m a (replicate k x)) b n = replicate n x"
  by (rule nth_equalityI) (simp_all add: read_mem_def write_mem_def)

lemma read_int_cong: "read_mem m a n = read_mem m' a n \<Longrightarrow> read_int m a n = read_int m' a n"
  by (simp add: read_int_def)

lemma read_write_int [simp]: "read_int (write_int m a n v) a n = Some (v mod 256 ^ n)"
  by (simp add: read_int_def write_int_def)

lemma read_int_zero: "read_mem m a n = replicate n (Raw 0) \<Longrightarrow> read_int m a n = Some 0"
proof -
  have "raw_bytes (replicate n (Raw 0)) = Some (replicate n 0)" by (induction n) simp_all
  moreover have "nat_of_bytes (replicate n 0) = 0" by (induction n) simp_all
  ultimately show "read_mem m a n = replicate n (Raw 0) \<Longrightarrow> read_int m a n = Some 0"
    by (simp add: read_int_def)
qed

lemma hd_parts: "hd (map (Part v) [0..<sizeof_Value p]) = Part v 0"
  using sizeof_Value_bound(1) [of p] by (simp add: hd_map)

lemma read_write_value [simp]: "read_value p (write_value p m a v) a = Some v"
  by (simp add: read_value_def write_value_def Let_def hd_parts)

lemma read_value_cong: "read_mem m a (sizeof_Value p) = read_mem m' a (sizeof_Value p) \<Longrightarrow> read_value p m a = read_value p m' a"
  by (simp add: read_value_def)

subsection \<open>An element is a typed cell\<close>

text \<open>
  The types of the elements that storage holds by value: everything but the containers, whose
  elements are reached through a further container, and addresses (see below).
\<close>

definition leaf :: "YargType option \<Rightarrow> bool" where
  "leaf t \<longleftrightarrow> (case t of None \<Rightarrow> True | Some u \<Rightarrow> yt u \<notin> {YArray, YStruct, YPointer, YAddress})"

lemma leaf_not_container: "leaf t \<Longrightarrow> \<not> is_packable_container_type t"
  by (cases t) (simp_all add: leaf_def)

lemma leaf_placeable:
  "leaf t \<Longrightarrow> is_placeable_type t \<longleftrightarrow>
     t \<in> Some ` {TypeInt8, TypeUint8, TypeInt16, TypeUint16, TypeInt32, TypeUint32, TypeInt64, TypeUint64, TypeDouble}"
  by (cases t rule: is_placeable_type.cases) (auto simp: leaf_def)

lemma leaf_packs: "leaf t \<Longrightarrow> yt_packs_asValue t \<longleftrightarrow> \<not> is_placeable_type t"
  by (cases t rule: is_placeable_type.cases) (auto simp: leaf_def)

lemma leaf_size:
  "leaf t \<Longrightarrow> \<not> is_placeable_type t \<Longrightarrow> yt_sizeof_type_storage p t = sizeof_Value p"
  by (cases t rule: is_placeable_type.cases) (auto simp: leaf_def sizeof_simple_def)

text \<open>Values whose payload is the one their type promises.\<close>

definition constructed :: "Value \<Rightarrow> bool" where
  "constructed v = (case v of TYPED_VAL _ t \<Rightarrow> \<not> is_placeable_type (Some t) \<or> is_packable_container_type (Some t) | _ \<Rightarrow> True)"

lemma shape_of_simple_eq:
  "yt t \<notin> {YArray, YStruct, YPointer, YMap, YBool} \<Longrightarrow> shape_of (Some t) = shape_of (Some u) \<Longrightarrow> u = t"
  by (cases t; cases u) simp_all

lemma typed_assignment_type:
  assumes "assignToValueCellTarget (Some t) v = Some (Inr w)" "is_placeable_type (Some t)" "leaf (Some t)" "constructed v"
  shows "value_type w = Some t \<and> constructed w"
proof -
  obtain ok pr where init: "isInitialisableType (Some t) v = Some (ok, pr)" and "ok"
    and w: "w = (if pr = NIL_VAL then noLongerLiteralInt v else pr)"
    using assms(1) by (auto simp: assignToValueCellTarget_def split: option.splits prod.splits if_splits)
  from isInitialisableType_Some [OF init] consider
      (same) "pr = NIL_VAL" "cell_admits (Some t) v"
    | (promoted) i where "pr = promote_literal t i" "pr \<noteq> NIL_VAL"
    using \<open>ok\<close> by blast
  then show ?thesis
  proof cases
    case same
    have "\<not> is_nil_assignable_type (Some t)" using leaf_placeable [OF assms(3)] assms(2) by auto
    moreover have "yt t \<notin> {YArray, YStruct, YPointer, YMap, YBool}" using leaf_placeable [OF assms(3)] assms(2) by auto
    ultimately have "value_type v = Some t"
      using same(2) shape_of_simple_eq [of t]
      by (auto simp: cell_admits_def typesEqual_shape split: if_splits option.splits)
    moreover have "constructed (noLongerLiteralInt v)"
      using assms(4) by (cases v) (simp_all add: constructed_def noLongerLiteralInt_def)
    ultimately show ?thesis using same(1) w by simp
  next
    case promoted
    have "constructed (promote_literal t i)" by (simp add: promote_literal_def constructed_def split: type_tag.split)
    then show ?thesis using promoted w promote_literal_type by simp
  qed
qed

lemma placed_roundtrip:
  assumes "value_type w = Some t" "is_placeable_type (Some t)" "leaf (Some t)" "constructed w"
  obtains m' where "setPlacedValue p m a w = Some m'" "getPlacedValue p m' a (Some t) = Some w"
    "\<And>b n. b + n \<le> a \<or> a + yt_sizeof_type_storage p (Some t) \<le> b \<Longrightarrow> read_mem m' b n = read_mem m b n"
proof -
  have t: "t \<in> {TypeInt8, TypeUint8, TypeInt16, TypeUint16, TypeInt32, TypeUint32, TypeInt64, TypeUint64, TypeDouble}"
    using leaf_placeable [OF assms(3)] assms(2) by auto
  have "unat (x :: u32) < 4294967296" "unat (y :: u64) < 18446744073709551616" "unat (z :: u8) < 256" for x y z
    using unsigned_less [of x, where ?'a = nat] unsigned_less [of y, where ?'a = nat] unsigned_less [of z, where ?'a = nat]
    by simp_all
  note small = this of_nat_unat
  have apart: "read_mem (write_int m a k x) b n = read_mem m b n" if "b + n \<le> a \<or> a + k \<le> b" for k x b n
    using that unfolding write_int_def by (intro read_write_apart) auto
  have "\<exists>m'. setPlacedValue p m a w = Some m' \<and> getPlacedValue p m' a (Some t) = Some w \<and>
    (\<forall>b n. b + n \<le> a \<or> a + yt_sizeof_type_storage p (Some t) \<le> b \<longrightarrow> read_mem m' b n = read_mem m b n)"
    using t assms(1,4)
    by (cases w) (auto simp: setPlacedValue_def getPlacedValue_def small apart sizeof_simple_def constructed_def)
  then show ?thesis using that by blast
qed

lemma containerElement_leaf:
  "leaf e \<Longrightarrow> containerElement p h new c e off =
     map_option (\<lambda>v. (v, h)) (if is_placeable_type e then getPlacedValue p (mem h) (container_loc c + off) e
       else read_value p (mem h) (container_loc c + off))"
  using leaf_not_container [of e] by (cases e) (simp_all add: containerElement_def Let_def)

text \<open>Storing into an element, for the types that storage holds by value.\<close>

lemma element_store:
  assumes leaf: "leaf e" and c: "constructed v" and w: "assignToValueCellTarget e v = Some (Inr w)"
  obtains m' where "setPlacedContainerElement p h c e off v = Some (True, h\<lparr>mem := m'\<rparr>)"
    "\<And>h' new. mem h' = m' \<Longrightarrow> containerElement p h' new c e off = Some (w, h')"
    "\<And>b n. b + n \<le> container_loc c + off \<or> container_loc c + off + yt_sizeof_type_storage p e \<le> b \<Longrightarrow>
       read_mem m' b n = read_mem (mem h) b n"
proof (cases "is_placeable_type e")
  case False
  let ?m = "write_value p (mem h) (container_loc c + off) w"
  have "setPlacedContainerElement p h c e off v = Some (True, h\<lparr>mem := ?m\<rparr>)"
    using False w by (simp add: setPlacedContainerElement_def Let_def)
  moreover have "containerElement p h' new c e off = Some (w, h')" if "mem h' = ?m" for h' new
    using False leaf that by (simp add: containerElement_leaf)
  moreover have "read_mem ?m b n = read_mem (mem h) b n"
    if "b + n \<le> container_loc c + off \<or> container_loc c + off + yt_sizeof_type_storage p e \<le> b" for b n
    using that leaf_size [OF leaf False] unfolding write_value_def by (intro read_write_apart) auto
  ultimately show ?thesis using that by blast
next
  case True
  then obtain t where e: "e = Some t" by (cases e) auto
  have w': "value_type w = Some t" "constructed w"
    using typed_assignment_type [of t v w] True leaf c w e by auto
  obtain ok pr where init: "isInitialisableType (Some t) v = Some (ok, pr)" and "ok"
    and wpr: "w = (if pr = NIL_VAL then noLongerLiteralInt v else pr)"
    using w e by (auto simp: assignToValueCellTarget_def split: option.splits prod.splits if_splits)
  obtain m' where m': "setPlacedValue p (mem h) (container_loc c + off) w = Some m'"
    "getPlacedValue p m' (container_loc c + off) (Some t) = Some w"
    "\<And>b n. b + n \<le> container_loc c + off \<or> container_loc c + off + yt_sizeof_type_storage p (Some t) \<le> b \<Longrightarrow>
       read_mem m' b n = read_mem (mem h) b n"
    using placed_roundtrip w' True leaf e by metis
  have "value_type v \<noteq> None" if "pr = NIL_VAL" using w' wpr that by auto
  then have "assignToPlacedValueCellTarget p (mem h) (container_loc c + off) e v = Some (True, m')"
    using init \<open>ok\<close> e w' wpr m'(1) True
    by (auto simp: assignToPlacedValueCellTarget_def Let_def simp del: is_placeable_type.simps split: if_splits)
  then have "setPlacedContainerElement p h c e off v = Some (True, h\<lparr>mem := m'\<rparr>)"
    using True by (simp add: setPlacedContainerElement_def Let_def)
  moreover have "containerElement p h' new c e off = Some (w, h')" if "mem h' = m'" for h' new
    using True leaf that m'(2) e by (simp add: containerElement_leaf del: is_placeable_type.simps)
  ultimately show ?thesis using that m'(3) e by blast
qed

lemma element_refuse:
  assumes leaf: "leaf e" and v: "assignToValueCellTarget e v = Some (Inl x)"
  shows "setPlacedContainerElement p h c e off v = Some (False, h)"
proof -
  from v obtain t where e: "e = Some t" by (cases e) (simp add: assignToValueCellTarget_def)
  show ?thesis using v unfolding e
    by (auto simp: assignToValueCellTarget_def setPlacedContainerElement_def assignToPlacedValueCellTarget_def Let_def
        split: option.splits prod.splits if_splits)
qed

text \<open>What is read from an element depends only on the bytes of that element.\<close>

lemma placed_read_cong:
  assumes "is_placeable_type (Some t)" "leaf (Some t)"
    "read_mem m a (yt_sizeof_type_storage p (Some t)) = read_mem m' a (yt_sizeof_type_storage p (Some t))"
  shows "getPlacedValue p m a (Some t) = getPlacedValue p m' a (Some t)"
proof -
  have "t \<in> {TypeInt8, TypeUint8, TypeInt16, TypeUint16, TypeInt32, TypeUint32, TypeInt64, TypeUint64, TypeDouble}"
    using leaf_placeable [OF assms(2)] assms(1) by auto
  moreover have "read_int m a (yt_sizeof_type_storage p (Some t)) = read_int m' a (yt_sizeof_type_storage p (Some t))"
    using assms(3) by (rule read_int_cong)
  ultimately show ?thesis by (cases t) (simp_all add: getPlacedValue_def sizeof_simple_def)
qed

lemma element_read_cong:
  assumes "e \<noteq> Some TypeAddress"
    "read_mem (mem h) (container_loc c + off) (yt_sizeof_type_storage p e) =
     read_mem (mem h') (container_loc c + off) (yt_sizeof_type_storage p e)"
  shows "map_option fst (containerElement p h new c e off) = map_option fst (containerElement p h' new c e off)"
proof (cases "leaf e")
  case True
  have "getPlacedValue p (mem h) (container_loc c + off) e = getPlacedValue p (mem h') (container_loc c + off) e"
    if "is_placeable_type e"
  proof -
    obtain t where "e = Some t" using \<open>is_placeable_type e\<close> by (cases e) simp
    then show ?thesis using placed_read_cong [of t "mem h" "container_loc c + off" p "mem h'"] that True assms(2) by (simp only:)
  qed
  moreover have "read_value p (mem h) (container_loc c + off) = read_value p (mem h') (container_loc c + off)"
    if "\<not> is_placeable_type e"
    using leaf_size [OF True that] assms(2) by (intro read_value_cong) simp
  ultimately show ?thesis using True by (simp add: containerElement_leaf option.map_comp comp_def)
next
  case False
  then obtain t where e: "e = Some t" "is_packable_container_type e"
    using assms(1) by (cases e; cases "the e") (auto simp: leaf_def)
  then show ?thesis
    by (cases c) (simp_all add: containerElement_def Let_def createPackedContainerFor_def createPackedValueContainerAt_def
        newPackedValueContainerFor_def del: is_packable_container_type.simps)
qed

subsection \<open>Arrays and structs\<close>

lemma arrayElementOffset_wf:
  assumes "wf_type p (Some (TypeArray x n e))" "i < n"
  shows "arrayElementOffset p e i = i * yt_sizeof_type_storage p e"
    "j < n \<Longrightarrow> j \<noteq> i \<Longrightarrow> j * yt_sizeof_type_storage p e + yt_sizeof_type_storage p e \<le> i * yt_sizeof_type_storage p e \<or>
       i * yt_sizeof_type_storage p e + yt_sizeof_type_storage p e \<le> j * yt_sizeof_type_storage p e"
proof -
  let ?z = "yt_sizeof_type_storage p e"
  have "i * ?z \<le> n * ?z" using assms(2) by (intro mult_le_mono1) simp
  moreover have "?z * n < 2 ^ (8 * sizeof_ptr p)" using assms(1) by simp
  ultimately have "i * ?z < 2 ^ (8 * sizeof_ptr p)" unfolding mult.commute [of ?z n] by (rule le_less_trans)
  then show "arrayElementOffset p e i = i * ?z" by (simp add: arrayElementOffset_def sz_def)
  have step: "a * ?z + ?z \<le> b * ?z" if "a < b" for a b :: nat
    using that mult_le_mono1 [of "Suc a" b ?z] by simp
  show "j * ?z + ?z \<le> i * ?z \<or> i * ?z + ?z \<le> j * ?z" if "j < n" "j \<noteq> i"
    using step [of j i] step [of i j] that(2) by linarith
qed





subsection \<open>Elements that are not typed cells\<close>

text \<open>
  A pointer stored in a field does not come back: the assignment writes a \<^verbatim>\<open>Value\<close>, and reading the
  field makes a container at the address of the field itself, whatever the field holds.
\<close>

lemma pointer_field_reads_itself:
  assumes "value_type sv = Some (TypeStruct x s)" "i < length (StructType.fields s)"
    "fst (StructType.fields s ! i) = Some (TypePointer y t)" "AS_PACKEDCONTAINER h sv = Some (UnownedContainer a)"
  shows "structField p h new sv i =
    Some (TYPED_VAL (Some new) (TypePointer y t), h\<lparr>containers := (containers h)(new \<mapsto> UnownedContainer (a + structFieldOffset s i))\<rparr>)"
  using assms by (simp add: structField_def containerElement_def createPackedContainerFor_def createPackedValueContainerAt_def)

text \<open>
  An address has the size of a pointer in storage, but it is not placeable and is written as a whole
  \<^verbatim>\<open>Value\<close>, over the elements after it: after an assignment to the first of three addresses the
  second one reads as no value.
\<close>

lemma address_array_overlap:
  "let h = \<lparr>mem = (\<lambda>_. Raw 0), containers = [7 \<mapsto> UnownedContainer 4096]\<rparr>;
       arr = TYPED_VAL (Some 7) (TypeArray 1 3 (Some TypeAddress))
   in arrayElementOffset Bits64 (Some TypeAddress) 1 = 8 \<and>
      (\<exists>h'. setArrayElement Bits64 h arr 0 (ADDRESS_VAL 5) = Some (True, h') \<and>
        mem h' (4096 + 23) = Part (ADDRESS_VAL 5) 23 \<and> arrayElement Bits64 h' 9 arr 1 = None)"
  by (simp add: setArrayElement_def arrayElement_def AS_PACKEDCONTAINER_def setPlacedContainerElement_def containerElement_def
      assignToValueCellTarget_def isInitialisableType_def typesEqual_shape noLongerLiteralInt_def write_value_def write_mem_def
      arrayElementOffset_def sizeof_simple_def sizeof_ptr_def sizeof_Value_def sz_def read_value_def read_mem_def upt_rec)

subsection \<open>New storage\<close>

lemma fields_ordered_append:
  "fields_ordered p lo xs mid \<Longrightarrow> fields_ordered p mid ys hi \<Longrightarrow> fields_ordered p lo (xs @ ys) hi"
proof (induction xs arbitrary: lo)
  case Nil
  then show ?case by (cases ys) auto
qed simp

lemma fields_ordered_concat:
  assumes "\<And>i. i < n \<Longrightarrow> fields_ordered p (lo + i * z) (f i) (lo + i * z + z)"
  shows "fields_ordered p lo (concat (map f [0..<n])) (lo + n * z)"
  using assms
proof (induction n)
  case (Suc n)
  have "fields_ordered p (lo + n * z) (f n) (lo + n * z + z)" using Suc.prems by simp
  moreover have "fields_ordered p lo (concat (map f [0..<n])) (lo + n * z)" using Suc by simp
  moreover have "lo + n * z + z = lo + Suc n * z" by simp
  ultimately show ?case by (simp add: fields_ordered_append)
qed simp

lemma fields_ordered_weaken:
  "fields_ordered p lo xs hi \<Longrightarrow> hi \<le> hi' \<Longrightarrow> fields_ordered p lo xs hi'"
  by (induction xs arbitrary: lo) auto

lemma fields_ordered_nested:
  assumes "fields_ordered p lo fs hi"
    "\<And>f. f \<in> set fs \<Longrightarrow> fields_ordered p (b + snd f) (g f) (b + snd f + yt_sizeof_type_storage p (fst f))"
  shows "fields_ordered p (b + lo) (concat (map g fs)) (b + hi)"
  using assms
proof (induction fs arbitrary: lo)
  case (Cons f fs)
  have "fields_ordered p (b + snd f + yt_sizeof_type_storage p (fst f)) (concat (map g fs)) (b + hi)"
    using Cons.IH [of "snd f + yt_sizeof_type_storage p (fst f)"] Cons.prems by (simp add: add.assoc)
  with Cons.prems(2) [of f] have "fields_ordered p (b + snd f) (g f @ concat (map g fs)) (b + hi)"
    by (auto intro: fields_ordered_append)
  moreover have "fields_ordered p l xs h \<Longrightarrow> k \<le> l \<Longrightarrow> fields_ordered p k xs h" for k l xs h
    by (cases xs) auto
  ultimately show ?case using Cons.prems(1) by (metis add_le_cancel_left concat.simps(2) fields_ordered.simps(2) list.simps(9))
qed simp

text \<open>The elements of a well-formed type follow each other in its storage.\<close>

lemma flatten_ordered:
  "wf_type p t \<Longrightarrow> lo + yt_sizeof_type_storage p t < 2 ^ (8 * sizeof_ptr p) \<Longrightarrow>
     fields_ordered p lo (map prod.swap (yt_flatten_types p lo t)) (lo + yt_sizeof_type_storage p t)"
proof (induction p lo t rule: yt_flatten_types.induct)
  case (1 p lo x n e)
  let ?z = "yt_sizeof_type_storage p e"
  have size: "yt_sizeof_type_storage p (Some (TypeArray x n e)) = n * ?z"
    using 1(2) by (simp add: sz_def mult.commute)
  have elem: "fields_ordered p (lo + i * ?z) (map prod.swap (yt_flatten_types p (lo + i * ?z) e)) (lo + i * ?z + ?z)"
    and off: "sz p (lo + arrayElementOffset p e i) = lo + i * ?z" if i: "i < n" for i
  proof -
    have "i * ?z + ?z \<le> n * ?z" using i mult_le_mono1 [of "Suc i" n ?z] by simp
    with 1(3) size have lt: "lo + i * ?z + ?z < 2 ^ (8 * sizeof_ptr p)" by linarith
    with arrayElementOffset_wf(1) [OF 1(2) i] show off: "sz p (lo + arrayElementOffset p e i) = lo + i * ?z"
      by (simp add: sz_def)
    show "fields_ordered p (lo + i * ?z) (map prod.swap (yt_flatten_types p (lo + i * ?z) e)) (lo + i * ?z + ?z)"
      using 1(1) [of i] 1(2) i lt unfolding off by simp
  qed
  have "map prod.swap (yt_flatten_types p lo (Some (TypeArray x n e))) =
      concat (map (\<lambda>i. map prod.swap (yt_flatten_types p (lo + i * ?z) e)) [0..<n])"
    unfolding yt_flatten_types.simps map_concat map_map comp_def
    by (intro arg_cong [of _ _ concat] map_cong refl) (simp add: off)
  then show ?case unfolding size using fields_ordered_concat [of n p lo ?z] elem by simp
next
  case (2 p lo x s)
  have ord: "fields_ordered p 0 (StructType.fields s) (storage_size s)" using 2(2) by simp
  have elem: "fields_ordered p (lo + snd f) (map prod.swap (yt_flatten_types p (lo + snd f) (fst f)))
        (lo + snd f + yt_sizeof_type_storage p (fst f))"
    and off: "sz p (lo + snd f) = lo + snd f" if f: "f \<in> set (StructType.fields s)" for f
  proof -
    obtain i where "i < length (StructType.fields s)" "f = StructType.fields s ! i" using f by (metis in_set_conv_nth)
    from fields_ordered_end [OF ord this(1)] this(2)
    have "snd f + yt_sizeof_type_storage p (fst f) \<le> storage_size s" by simp
    with 2(3) have lt: "lo + snd f + yt_sizeof_type_storage p (fst f) < 2 ^ (8 * sizeof_ptr p)" by simp
    then show off: "sz p (lo + snd f) = lo + snd f" by (simp add: sz_def)
    show "fields_ordered p (lo + snd f) (map prod.swap (yt_flatten_types p (lo + snd f) (fst f)))
        (lo + snd f + yt_sizeof_type_storage p (fst f))"
      using 2(1) [OF f] 2(2) f lt unfolding off by simp
  qed
  have "map prod.swap (yt_flatten_types p lo (Some (TypeStruct x s))) =
      concat (map (\<lambda>f. map prod.swap (yt_flatten_types p (lo + snd f) (fst f))) (StructType.fields s))"
    unfolding yt_flatten_types.simps map_concat map_map comp_def
    by (intro arg_cong [of _ _ concat] map_cong refl) (simp add: off)
  then show ?case using fields_ordered_nested [OF ord, of lo] elem by simp
qed simp_all

lemma flatten_types: "map snd (yt_flatten_types p lo t) = map snd (yt_flatten_types p lo' t)"
proof (induction p lo t arbitrary: lo' rule: yt_flatten_types.induct)
  case (1 p lo x n e)
  show ?case unfolding yt_flatten_types.simps map_concat map_map comp_def
    by (intro arg_cong [of _ _ concat] map_cong refl 1) simp
next
  case (2 p lo x s)
  show ?case unfolding yt_flatten_types.simps map_concat map_map comp_def
    by (intro arg_cong [of _ _ concat] map_cong refl 2) simp
qed simp_all

lemma flatten_no_containers:
  "e \<in> set (yt_flatten_types p lo t) \<Longrightarrow> \<not> (\<exists>u. snd e = Some u \<and> yt u \<in> {YArray, YStruct})"
  by (induction p lo t rule: yt_flatten_types.induct) auto

lemma element_size_pos:
  "\<not> (\<exists>u. t = Some u \<and> yt u \<in> {YArray, YStruct}) \<Longrightarrow> 0 < yt_sizeof_type_storage p t"
  by (cases t rule: is_placeable_type.cases) (auto simp: sizeof_simple_pos sizeof_Value_bound)

lemma fields_ordered_length:
  "fields_ordered p lo fs hi \<Longrightarrow> (\<And>f. f \<in> set fs \<Longrightarrow> 0 < yt_sizeof_type_storage p (fst f)) \<Longrightarrow> lo + length fs \<le> hi"
proof (induction fs arbitrary: lo)
  case (Cons f fs)
  then have "snd f + yt_sizeof_type_storage p (fst f) + length fs \<le> hi" by simp
  moreover have "0 < yt_sizeof_type_storage p (fst f)" using Cons.prems by simp
  ultimately show ?case using Cons.prems(1) by simp
qed simp

lemma flatten_length_bound:
  assumes "wf_type p t"
  shows "length (yt_flatten_types p lo t) < 2 ^ (8 * sizeof_ptr p)"
proof -
  have "length (yt_flatten_types p lo t) = length (yt_flatten_types p 0 t)"
    using flatten_types by (metis length_map)
  also have "\<dots> \<le> yt_sizeof_type_storage p t"
  proof -
    have "0 < yt_sizeof_type_storage p (snd e)" if "e \<in> set (yt_flatten_types p 0 t)" for e
      using flatten_no_containers [OF that] by (rule element_size_pos)
    then have "0 < yt_sizeof_type_storage p (fst f)" if "f \<in> set (map prod.swap (yt_flatten_types p 0 t))" for f
      using that by auto
    from fields_ordered_length [OF flatten_ordered [OF assms, of 0] this] sizeof_type_bound [OF assms]
    show ?thesis by simp
  qed
  finally show ?thesis using sizeof_type_bound [OF assms] by simp
qed

text \<open>
  The number of the elements for which a predicate holds, computed on the type, is the number of
  such elements in the list: both counts of the code are of this form.
\<close>

lemma count_elements:
  assumes arr: "\<And>x n e. cnt (Some (TypeArray x n e)) = sz p (n * cnt e)"
    and str: "\<And>x s. cnt (Some (TypeStruct x s)) = sz p (sum_list (map (\<lambda>f. cnt (fst f)) (StructType.fields s)))"
    and other: "\<And>t. \<not> (\<exists>u. t = Some u \<and> yt u \<in> {YArray, YStruct}) \<Longrightarrow> cnt t = (if Q t then 1 else 0)"
    and wf: "wf_type p t"
  shows "cnt t = length (filter (\<lambda>e. Q (snd e)) (yt_flatten_types p lo t))"
  using assms
proof (induction p t arbitrary: lo rule: yt_packable_element_count.induct)
  case (1 p x n e)
  let ?els = "yt_flatten_types p lo (Some (TypeArray x n e))"
  have e: "cnt e = length (filter (\<lambda>e. Q (snd e)) (yt_flatten_types p l e))" for l
    using 1 by simp
  have "length (filter (\<lambda>e. Q (snd e)) ?els) = n * cnt e"
    by (simp add: filter_concat length_concat comp_def sum_list_triv flip: e)
  moreover have "length (filter (\<lambda>e. Q (snd e)) ?els) < 2 ^ (8 * sizeof_ptr p)"
    using flatten_length_bound [OF 1(5), of lo] length_filter_le by (rule le_less_trans [rotated])
  ultimately show ?case unfolding 1(2) by (simp add: sz_def)
next
  case (2 p x s)
  let ?els = "yt_flatten_types p lo (Some (TypeStruct x s))"
  have e: "length (filter (\<lambda>e. Q (snd e)) (yt_flatten_types p l (fst f))) = cnt (fst f)" if "f \<in> set (StructType.fields s)" for f l
    using 2 that by simp
  have "length (filter (\<lambda>e. Q (snd e)) ?els) = sum_list (map (\<lambda>f. cnt (fst f)) (StructType.fields s))"
    unfolding yt_flatten_types.simps filter_concat length_concat map_map comp_def
    by (intro arg_cong [of _ _ sum_list] map_cong refl e)
  moreover have "length (filter (\<lambda>e. Q (snd e)) ?els) < 2 ^ (8 * sizeof_ptr p)"
    using flatten_length_bound [OF 2(5), of lo] length_filter_le by (rule le_less_trans [rotated])
  ultimately show ?case unfolding 2(3) by (simp add: sz_def)
qed simp_all

lemma packable_element_counts:
  assumes "wf_type p t"
  shows "yt_packable_element_count p t = length (yt_flatten_types p lo t)"
    "yt_packable_value_element_count p t = length (filter (\<lambda>e. yt_packs_asValue (snd e)) (yt_flatten_types p lo t))"
proof -
  have "yt_packable_element_count p t = 1" if "\<not> (\<exists>u. t = Some u \<and> yt u \<in> {YArray, YStruct})" for t
    using that by (cases t rule: is_placeable_type.cases) auto
  then show "yt_packable_element_count p t = length (yt_flatten_types p lo t)"
    using count_elements [of "yt_packable_element_count p" p "\<lambda>_. True" t lo] assms by simp
  have "yt_packable_value_element_count p t = (if yt_packs_asValue t then 1 else 0)"
    if "\<not> (\<exists>u. t = Some u \<and> yt u \<in> {YArray, YStruct})" for t
    using that by (cases t rule: is_placeable_type.cases) auto
  then show "yt_packable_value_element_count p t = length (filter (\<lambda>e. yt_packs_asValue (snd e)) (yt_flatten_types p lo t))"
    by (intro count_elements [of "yt_packable_value_element_count p" p] assms) simp_all
qed

lemma fields_ordered_filter:
  "fields_ordered p lo (map prod.swap es) hi \<Longrightarrow> fields_ordered p lo (map prod.swap (filter Q es)) hi"
proof (induction es arbitrary: lo)
  case (Cons e es)
  have mono: "fields_ordered p l xs h \<Longrightarrow> k \<le> l \<Longrightarrow> fields_ordered p k xs h" for k l xs h
    by (cases xs) auto
  have "fields_ordered p (fst e + yt_sizeof_type_storage p (snd e)) (map prod.swap (filter Q es)) hi"
    using Cons by simp
  then show ?case using Cons.prems mono [of "fst e + yt_sizeof_type_storage p (snd e)" _ hi lo] by auto
qed simp

text \<open>Writing the default values: the cells do not overlap, so each keeps its value.\<close>

definition init_cells :: "platform \<Rightarrow> (YargType option \<Rightarrow> Value) \<Rightarrow> nat \<Rightarrow> (nat \<times> YargType option) list \<Rightarrow> memory \<Rightarrow> memory" where
  "init_cells p dv loc cells m = fold (\<lambda>e m. write_value p m (loc + fst e) (dv (snd e))) cells m"

lemma init_cells_apart:
  assumes "\<And>e. e \<in> set cells \<Longrightarrow> a + n \<le> loc + fst e \<or> loc + fst e + sizeof_Value p \<le> a"
  shows "read_mem (init_cells p dv loc cells m) a n = read_mem m a n"
  using assms unfolding init_cells_def
proof (induction cells arbitrary: m)
  case (Cons e cells)
  have "read_mem (write_value p m (loc + fst e) (dv (snd e))) a n = read_mem m a n"
    using Cons.prems [of e] unfolding write_value_def by (intro read_write_apart) auto
  with Cons show ?case by simp
qed simp

lemma init_cells_value:
  assumes "fields_ordered p lo (map prod.swap cells) hi" "e \<in> set cells"
    "\<And>e. e \<in> set cells \<Longrightarrow> yt_sizeof_type_storage p (snd e) = sizeof_Value p"
  shows "read_value p (init_cells p dv loc cells m) (loc + fst e) = Some (dv (snd e))"
  using assms
proof (induction cells arbitrary: lo m)
  case (Cons c cells)
  show ?case
  proof (cases "e \<in> set cells")
    case True
    from Cons.prems(1) have "fields_ordered p (fst c + yt_sizeof_type_storage p (snd c)) (map prod.swap cells) hi" by simp
    from Cons.IH [OF this True] Cons.prems(3) show ?thesis by (simp add: init_cells_def)
  next
    case False
    then have e: "e = c" using Cons.prems(2) by simp
    have "fst c + sizeof_Value p \<le> fst d" if d: "d \<in> set cells" for d
    proof -
      from d obtain i where "i < length cells" "d = cells ! i" unfolding in_set_conv_nth by blast
      then show ?thesis
        using fields_ordered_nth [OF Cons.prems(1), of 0 "Suc i"] Cons.prems(3) [of c] by simp
    qed
    then have "read_mem (init_cells p dv loc cells m') (loc + fst c) (sizeof_Value p) = read_mem m' (loc + fst c) (sizeof_Value p)" for m'
      by (intro init_cells_apart) fastforce
    from read_value_cong [OF this] show ?thesis unfolding e by (simp add: init_cells_def)
  qed
qed simp

lemma packs_size: "yt_packs_asValue t \<Longrightarrow> yt_sizeof_type_storage p t = sizeof_Value p"
  by (cases t rule: is_placeable_type.cases) (auto simp: sizeof_simple_def)

lemma placed_zero:
  assumes "is_placeable_type (Some t)" "leaf (Some t)"
    "read_mem m a (yt_sizeof_type_storage p (Some t)) = replicate (yt_sizeof_type_storage p (Some t)) (Raw 0)"
  shows "getPlacedValue p m a (Some t) = Some (defaultValue nc (Some t))"
proof -
  have "t \<in> {TypeInt8, TypeUint8, TypeInt16, TypeUint16, TypeInt32, TypeUint32, TypeInt64, TypeUint64, TypeDouble}"
    using leaf_placeable [OF assms(2)] assms(1) by auto
  moreover have "read_int m a (yt_sizeof_type_storage p (Some t)) = Some 0"
    using assms(3) by (rule read_int_zero)
  ultimately show ?thesis by (cases t) (simp_all add: getPlacedValue_def sizeof_simple_def defaultValue_def)
qed

lemma elements_apart:
  assumes "fields_ordered p lo (map prod.swap es) hi" "a \<in> set es" "b \<in> set es" "a \<noteq> b"
  shows "fst a + yt_sizeof_type_storage p (snd a) \<le> fst b \<or> fst b + yt_sizeof_type_storage p (snd b) \<le> fst a"
proof -
  obtain i j where ij: "i < length es" "a = es ! i" "j < length es" "b = es ! j"
    using assms(2,3) unfolding in_set_conv_nth by blast
  with assms(4) have "i < j \<or> j < i" by (metis linorder_neqE_nat)
  then show ?thesis
    using fields_ordered_nth [OF assms(1), of i j] fields_ordered_nth [OF assms(1), of j i] ij by auto
qed

lemma element_bound:
  assumes "fields_ordered p lo (map prod.swap es) hi" "a \<in> set es"
  shows "fst a + yt_sizeof_type_storage p (snd a) \<le> hi"
proof -
  obtain i where "i < length es" "a = es ! i" using assms(2) unfolding in_set_conv_nth by blast
  then show ?thesis using fields_ordered_end [OF assms(1), of i] by simp
qed



end
