(* ===== verification/Table.thy ===== *)
theory Table
  imports Value "HOL-Library.Monad_Syntax"
begin

section \<open>Hash tables (\<^verbatim>\<open>src/cyarg/table.c\<close>)\<close>

text \<open>
  The open-addressing hash tables of the run-time system, with linear probing and tombstones.
  \<^item> \<^verbatim>\<open>table.c\<close> has the same code twice: \<^verbatim>\<open>ValueTable\<close> maps strings to values, and
    \<^verbatim>\<open>ValueCellTable\<close> maps them to typed cells. The operations are defined once over the kind
    of payload (\<open>slot_ops\<close>), and the two tables are its instances.
  \<^item> A key is a pointer to an interned string object; it carries the address of the object, so
    comparing pointers is equality in the model.
  \<^item> A probe that meets no empty slot never ends: the loop is a \<open>partial_function\<close>, and \<open>None\<close>
    is a loop that does not return, or a failed assertion.
  \<^item> The comparison with \<^verbatim>\<open>capacity * 0.75\<close> is exact in double arithmetic for every \<^verbatim>\<open>int\<close>; it
    is written without fractions.
\<close>

record ObjString =
  s_addr :: nat
  s_chars :: string
  s_hash :: u32

record ValueCell =
  vc_value :: Value
  vc_cellType :: "YargType option"

type_synonym 'v entry = "ObjString option \<times> 'v"

record 'v table =
  count :: nat
  capacity :: nat
  entries :: "'v entry list"

type_synonym ValueTable = "Value table"
type_synonym ValueCellTable = "ValueCell table"

text \<open>What the code asks of a payload: is it nil, the payloads of empty slots and tombstones.\<close>

record 'v slot_ops =
  so_nil :: "'v \<Rightarrow> bool"
  so_empty :: 'v
  so_tomb :: 'v
  so_is_tomb :: "'v \<Rightarrow> bool"
  so_asserts :: bool

definition value_slots :: "Value slot_ops" where
  "value_slots = \<lparr>so_nil = is_nil, so_empty = NIL_VAL, so_tomb = BOOL_VAL True,
     so_is_tomb = (\<lambda>v. valuesEqual (\<lambda>_. 0) v (BOOL_VAL True)), so_asserts = True\<rparr>"

definition cell_slots :: "ValueCell slot_ops" where
  "cell_slots = \<lparr>so_nil = (\<lambda>c. is_nil (vc_value c)),
     so_empty = \<lparr>vc_value = NIL_VAL, vc_cellType = None\<rparr>,
     so_tomb = \<lparr>vc_value = BOOL_VAL True, vc_cellType = None\<rparr>,
     so_is_tomb = (\<lambda>c. valuesEqual (\<lambda>_. 0) (vc_value c) (BOOL_VAL True)), so_asserts = False\<rparr>"

subsection \<open>Operations on either kind of table\<close>

definition init_table :: "'v table" where
  "init_table = \<lparr>count = 0, capacity = 0, entries = []\<rparr>"

definition GROW_CAPACITY :: "nat \<Rightarrow> nat" where
  "GROW_CAPACITY c = (if c < 8 then 8 else c * 2)"

partial_function (option) probe ::
  "'v slot_ops \<Rightarrow> 'v entry list \<Rightarrow> nat \<Rightarrow> ObjString \<Rightarrow> nat \<Rightarrow> nat option \<Rightarrow> nat option" where
  [code]: "probe ops es cap key index tombstone =
     (case es ! index of
        (None, v) \<Rightarrow>
          if so_nil ops v then Some (case tombstone of Some t \<Rightarrow> t | None \<Rightarrow> index)
          else probe ops es cap key ((index + 1) AND (cap - 1))
                 (case tombstone of None \<Rightarrow> Some index | Some t \<Rightarrow> Some t)
      | (Some k, v) \<Rightarrow>
          if k = key then Some index else probe ops es cap key ((index + 1) AND (cap - 1)) tombstone)"

definition find_entry :: "'v slot_ops \<Rightarrow> 'v entry list \<Rightarrow> nat \<Rightarrow> ObjString \<Rightarrow> nat option" where
  "find_entry ops es cap key = probe ops es cap key (unat (s_hash key) AND (cap - 1)) None"

definition table_get :: "'v slot_ops \<Rightarrow> 'v table \<Rightarrow> ObjString \<Rightarrow> 'v option option" where
  "table_get ops t key =
     (if count t = 0 then Some None
      else do {
        i \<leftarrow> find_entry ops (entries t) (capacity t) key;
        case entries t ! i of (None, _) \<Rightarrow> Some None | (Some _, v) \<Rightarrow> Some (Some v)
      })"

text \<open>\<^verbatim>\<open>tableInvariant\<close>: the count is the number of keys and tombstones.\<close>

definition table_invariant :: "'v slot_ops \<Rightarrow> 'v table \<Rightarrow> bool" where
  "table_invariant ops t =
     (if capacity t = 0 then count t = 0
      else length (filter (\<lambda>e. fst e \<noteq> None) (entries t)) +
           length (filter (\<lambda>e. fst e = None \<and> so_is_tomb ops (snd e)) (entries t)) = count t)"

definition check_invariant :: "'v slot_ops \<Rightarrow> 'v table \<Rightarrow> bool" where
  "check_invariant ops t = (so_asserts ops \<longrightarrow> table_invariant ops t)"

fun rehash :: "'v slot_ops \<Rightarrow> nat \<Rightarrow> 'v entry list \<Rightarrow> nat \<Rightarrow> 'v entry list \<Rightarrow> (nat \<times> 'v entry list) option" where
  "rehash ops cap [] n dest = Some (n, dest)"
| "rehash ops cap ((None, v) # es) n dest = rehash ops cap es n dest"
| "rehash ops cap ((Some key, v) # es) n dest = do {
     i \<leftarrow> find_entry ops dest cap key;
     rehash ops cap es (n + 1) (dest[i := (Some key, v)])
   }"

definition adjust_capacity :: "'v slot_ops \<Rightarrow> 'v table \<Rightarrow> nat \<Rightarrow> 'v table option" where
  "adjust_capacity ops t cap = do {
     (n, dest) \<leftarrow> rehash ops cap (entries t) 0 (replicate cap (None, so_empty ops));
     let t' = \<lparr>count = n, capacity = cap, entries = dest\<rparr>;
     if check_invariant ops t' then Some t' else None
   }"

definition table_set :: "'v slot_ops \<Rightarrow> 'v table \<Rightarrow> ObjString \<Rightarrow> 'v \<Rightarrow> (bool \<times> 'v table) option" where
  "table_set ops t key value =
     (if \<not> check_invariant ops t then None
      else do {
        t1 \<leftarrow> (if 4 * (count t + 1) > 3 * capacity t
               then adjust_capacity ops t (GROW_CAPACITY (capacity t)) else Some t);
        i \<leftarrow> find_entry ops (entries t1) (capacity t1) key;
        let isNewKey = (fst (entries t1 ! i) = None);
        Some (isNewKey,
              t1\<lparr>count := (if isNewKey \<and> so_nil ops (snd (entries t1 ! i)) then count t1 + 1 else count t1),
                 entries := (entries t1)[i := (Some key, value)]\<rparr>)
      })"

definition table_delete :: "'v slot_ops \<Rightarrow> 'v table \<Rightarrow> ObjString \<Rightarrow> (bool \<times> 'v table) option" where
  "table_delete ops t key =
     (if count t = 0 then Some (False, t)
      else do {
        i \<leftarrow> find_entry ops (entries t) (capacity t) key;
        if fst (entries t ! i) = None then Some (False, t)
        else Some (True, t\<lparr>entries := (entries t)[i := (None, so_tomb ops)]\<rparr>)
      })"

fun table_add_all :: "'v slot_ops \<Rightarrow> 'v entry list \<Rightarrow> 'v table \<Rightarrow> 'v table option" where
  "table_add_all ops [] t = Some t"
| "table_add_all ops ((None, v) # es) t = table_add_all ops es t"
| "table_add_all ops ((Some key, v) # es) t = do {
     (_, t') \<leftarrow> table_set ops t key v;
     table_add_all ops es t'
   }"

partial_function (option) probe_string ::
  "'v slot_ops \<Rightarrow> 'v entry list \<Rightarrow> nat \<Rightarrow> string \<Rightarrow> u32 \<Rightarrow> nat \<Rightarrow> ObjString option option" where
  [code]: "probe_string ops es cap chars hash index =
     (case es ! index of
        (None, v) \<Rightarrow>
          if so_nil ops v then Some None
          else probe_string ops es cap chars hash ((index + 1) AND (cap - 1))
      | (Some k, v) \<Rightarrow>
          if length (s_chars k) = length chars \<and> s_hash k = hash \<and> s_chars k = chars then Some (Some k)
          else probe_string ops es cap chars hash ((index + 1) AND (cap - 1)))"

definition table_find_string :: "'v slot_ops \<Rightarrow> 'v table \<Rightarrow> string \<Rightarrow> u32 \<Rightarrow> ObjString option option" where
  "table_find_string ops t chars hash =
     (if \<not> check_invariant ops t then None
      else if count t = 0 then Some None
      else probe_string ops (entries t) (capacity t) chars hash (unat hash AND (capacity t - 1)))"

text \<open>
  \<^verbatim>\<open>tableRemoveWhite\<close> walks the slots in order while it deletes; \<open>marked\<close> tells whether the
  collector has reached a string.
\<close>

fun remove_white_from :: "'v slot_ops \<Rightarrow> (ObjString \<Rightarrow> bool) \<Rightarrow> nat list \<Rightarrow> 'v table \<Rightarrow> 'v table option" where
  "remove_white_from ops marked [] t = Some t"
| "remove_white_from ops marked (i # is) t =
     (case fst (entries t ! i) of
        Some key \<Rightarrow>
          if \<not> marked key then do { (_, t') \<leftarrow> table_delete ops t key; remove_white_from ops marked is t' }
          else remove_white_from ops marked is t
      | None \<Rightarrow> remove_white_from ops marked is t)"

definition table_remove_white :: "'v slot_ops \<Rightarrow> (ObjString \<Rightarrow> bool) \<Rightarrow> 'v table \<Rightarrow> 'v table option" where
  "table_remove_white ops marked t =
     (if \<not> check_invariant ops t then None
      else do {
        t' \<leftarrow> remove_white_from ops marked [0..<capacity t] t;
        if check_invariant ops t' then Some t' else None
      })"

subsection \<open>The two tables of the source\<close>

definition initTable :: ValueTable where "initTable = init_table"
definition findEntry :: "Value entry list \<Rightarrow> nat \<Rightarrow> ObjString \<Rightarrow> nat option" where
  "findEntry = find_entry value_slots"
definition tableGet :: "ValueTable \<Rightarrow> ObjString \<Rightarrow> Value option option" where
  "tableGet = table_get value_slots"
definition adjustCapacity :: "ValueTable \<Rightarrow> nat \<Rightarrow> ValueTable option" where
  "adjustCapacity = adjust_capacity value_slots"
definition tableSet :: "ValueTable \<Rightarrow> ObjString \<Rightarrow> Value \<Rightarrow> (bool \<times> ValueTable) option" where
  "tableSet = table_set value_slots"
definition tableDelete :: "ValueTable \<Rightarrow> ObjString \<Rightarrow> (bool \<times> ValueTable) option" where
  "tableDelete = table_delete value_slots"
definition tableAddAll :: "ValueTable \<Rightarrow> ValueTable \<Rightarrow> ValueTable option" where
  "tableAddAll from to = table_add_all value_slots (entries from) to"
definition tableFindString :: "ValueTable \<Rightarrow> string \<Rightarrow> u32 \<Rightarrow> ObjString option option" where
  "tableFindString = table_find_string value_slots"
definition tableRemoveWhite :: "(ObjString \<Rightarrow> bool) \<Rightarrow> ValueTable \<Rightarrow> ValueTable option" where
  "tableRemoveWhite = table_remove_white value_slots"
definition tableInvariant :: "ValueTable \<Rightarrow> bool" where
  "tableInvariant = table_invariant value_slots"

definition initCellTable :: ValueCellTable where "initCellTable = init_table"
definition findCellEntry :: "ValueCell entry list \<Rightarrow> nat \<Rightarrow> ObjString \<Rightarrow> nat option" where
  "findCellEntry = find_entry cell_slots"
definition tableCellGet :: "ValueCellTable \<Rightarrow> ObjString \<Rightarrow> ValueCell option option" where
  "tableCellGet = table_get cell_slots"
definition adjustCellCapacity :: "ValueCellTable \<Rightarrow> nat \<Rightarrow> ValueCellTable option" where
  "adjustCellCapacity = adjust_capacity cell_slots"
definition tableCellSet :: "ValueCellTable \<Rightarrow> ObjString \<Rightarrow> ValueCell \<Rightarrow> (bool \<times> ValueCellTable) option" where
  "tableCellSet = table_set cell_slots"
definition tableCellDelete :: "ValueCellTable \<Rightarrow> ObjString \<Rightarrow> (bool \<times> ValueCellTable) option" where
  "tableCellDelete = table_delete cell_slots"
definition tableCellAddAll :: "ValueCellTable \<Rightarrow> ValueCellTable \<Rightarrow> ValueCellTable option" where
  "tableCellAddAll from to = table_add_all cell_slots (entries from) to"
definition tableCellFindString :: "ValueCellTable \<Rightarrow> string \<Rightarrow> u32 \<Rightarrow> ObjString option option" where
  "tableCellFindString = table_find_string cell_slots"
definition tableCellRemoveWhite :: "(ObjString \<Rightarrow> bool) \<Rightarrow> ValueCellTable \<Rightarrow> ValueCellTable option" where
  "tableCellRemoveWhite marked t = remove_white_from cell_slots marked [0..<capacity t] t"

text \<open>\<^verbatim>\<open>tableCellGetPlace\<close> gives the slot of the cell; \<open>put_cell\<close> writes through the place.\<close>

definition tableCellGetPlace :: "ValueCellTable \<Rightarrow> ObjString \<Rightarrow> nat option option" where
  "tableCellGetPlace t key =
     (if count t = 0 then Some None
      else do {
        i \<leftarrow> findCellEntry (entries t) (capacity t) key;
        case entries t ! i of (None, _) \<Rightarrow> Some None | (Some _, _) \<Rightarrow> Some (Some i)
      })"

definition put_cell :: "ValueCellTable \<Rightarrow> nat \<Rightarrow> ValueCell \<Rightarrow> ValueCellTable" where
  "put_cell t i c = t\<lparr>entries := (entries t)[i := (fst (entries t ! i), c)]\<rparr>"

end
