(* ===== verification/Table_Probe.thy ===== *)
theory Table_Probe
  imports Table
begin

section \<open>Linear probing\<close>

text \<open>
  The representation invariant of the slots of a table, the finite map they stand for, and what the
  probe loop returns under the invariant. The laws that an instance of the payload has to satisfy
  are the locale \<open>slots\<close>, interpreted on both tables of the source.
\<close>

definition used :: "'v slot_ops \<Rightarrow> 'v entry \<Rightarrow> bool" where
  "used ops e \<longleftrightarrow> fst e \<noteq> None \<or> \<not> so_nil ops (snd e)"

definition used_count :: "'v slot_ops \<Rightarrow> 'v entry list \<Rightarrow> nat" where
  "used_count ops es = length (filter (used ops) es)"

definition path :: "nat \<Rightarrow> u32 \<Rightarrow> nat \<Rightarrow> nat" where
  "path cap hash d = (unat hash + d) mod cap"

definition keys_distinct :: "'v entry list \<Rightarrow> bool" where
  "keys_distinct es \<longleftrightarrow>
     (\<forall>i < length es. \<forall>j < length es. fst (es ! i) \<noteq> None \<and> fst (es ! i) = fst (es ! j) \<longrightarrow> i = j)"

definition reachable :: "'v slot_ops \<Rightarrow> nat \<Rightarrow> 'v entry list \<Rightarrow> ObjString \<Rightarrow> nat \<Rightarrow> bool" where
  "reachable ops cap es key i \<longleftrightarrow>
     (\<exists>d < cap. i = path cap (s_hash key) d \<and> (\<forall>d' < d. used ops (es ! path cap (s_hash key) d')))"

definition entries_ok :: "'v slot_ops \<Rightarrow> nat \<Rightarrow> 'v entry list \<Rightarrow> bool" where
  "entries_ok ops cap es \<longleftrightarrow>
     length es = cap \<and> keys_distinct es \<and>
     (\<forall>e \<in> set es. fst e = None \<longrightarrow> so_nil ops (snd e) \<or> so_is_tomb ops (snd e)) \<and>
     (\<forall>i < cap. \<forall>key. fst (es ! i) = Some key \<longrightarrow> reachable ops cap es key i)"

definition table_map :: "'v entry list \<Rightarrow> ObjString \<Rightarrow> 'v option" where
  "table_map es key = map_option snd (find (\<lambda>e. fst e = Some key) es)"

subsection \<open>The finite map of the slots\<close>

lemma table_map_Some:
  assumes "keys_distinct es"
  shows "table_map es key = Some v \<longleftrightarrow> (\<exists>i < length es. es ! i = (Some key, v))"
proof -
  have "(\<exists>i < length es. es ! i = (Some key, v))" if "table_map es key = Some v"
  proof -
    from that obtain e where "find (\<lambda>e. fst e = Some key) es = Some e" "snd e = v"
      by (auto simp: table_map_def)
    then obtain i where "i < length es" "es ! i = e" "fst e = Some key" by (auto simp: find_Some_iff)
    then show ?thesis using \<open>snd e = v\<close> by (intro exI [of _ i]) (auto simp: prod_eq_iff)
  qed
  moreover have "table_map es key = Some v" if i: "i < length es" "es ! i = (Some key, v)" for i
  proof -
    have "fst (es ! j) \<noteq> Some key" if "j < i" for j
    proof
      assume "fst (es ! j) = Some key"
      then have "j = i" using assms i \<open>j < i\<close> unfolding keys_distinct_def by (auto dest!: spec [of _ j])
      then show False using \<open>j < i\<close> by simp
    qed
    then have "find (\<lambda>e. fst e = Some key) es = Some (Some key, v)"
      using i by (auto simp: find_Some_iff intro!: exI [of _ i])
    then show ?thesis by (simp add: table_map_def)
  qed
  ultimately show ?thesis by blast
qed

lemma table_map_None: "table_map es key = None \<longleftrightarrow> (\<forall>i < length es. fst (es ! i) \<noteq> Some key)"
  unfolding table_map_def by (auto simp: find_None_iff) (metis fst_conv nth_mem surj_pair in_set_conv_nth)+

lemma table_map_Nil [simp]: "table_map [] = Map.empty"
  by (auto simp: table_map_def)

lemma table_map_replicate [simp]: "table_map (replicate n (None, v)) = Map.empty"
  by (auto simp: table_map_None)

lemma table_map_Cons_None [simp]: "table_map ((None, v) # es) = table_map es"
  by (auto simp: table_map_def)

lemma table_map_Cons_Some: "table_map ((Some key, v) # es) = (table_map es)(key \<mapsto> v)"
  by (auto simp: table_map_def)

lemma keys_distinct_update:
  assumes "keys_distinct es" "i < length es" "\<forall>j < length es. j \<noteq> i \<longrightarrow> k \<noteq> None \<longrightarrow> fst (es ! j) \<noteq> k"
  shows "keys_distinct (es[i := (k, v)])"
  using assms unfolding keys_distinct_def by (auto simp: nth_list_update)

lemma map_eqI: "(\<And>k v. m k = Some v \<longleftrightarrow> m' k = Some v) \<Longrightarrow> m = m'"
  by (rule ext) (metis not_Some_eq)

lemma table_map_set:
  assumes es: "keys_distinct es" "i < length es"
    and k: "fst (es ! i) = None \<and> table_map es key = None \<or> fst (es ! i) = Some key"
  shows "table_map (es[i := (Some key, v)]) = (table_map es)(key \<mapsto> v)" "keys_distinct (es[i := (Some key, v)])"
proof -
  have other: "\<forall>j < length es. j \<noteq> i \<longrightarrow> fst (es ! j) \<noteq> Some key"
    using k es unfolding table_map_None keys_distinct_def by (metis option.distinct(1))
  then show kd: "keys_distinct (es[i := (Some key, v)])" using keys_distinct_update [OF es] by blast
  show "table_map (es[i := (Some key, v)]) = (table_map es)(key \<mapsto> v)"
  proof (rule map_eqI)
    fix k' w
    show "table_map (es[i := (Some key, v)]) k' = Some w \<longleftrightarrow> ((table_map es)(key \<mapsto> v)) k' = Some w"
    proof (cases "k' = key")
      case True
      then show ?thesis unfolding table_map_Some [OF kd] using other es(2) by (auto simp: nth_list_update)
    next
      case False
      then show ?thesis unfolding table_map_Some [OF kd] using k es(2)
        by (auto simp: nth_list_update table_map_Some [OF es(1)]) (metis fst_conv option.distinct(1) option.inject)+
    qed
  qed
qed

lemma table_map_delete:
  assumes es: "keys_distinct es" "i < length es" and k: "fst (es ! i) = Some key"
  shows "table_map (es[i := (None, v)]) = (table_map es)(key := None)" "keys_distinct (es[i := (None, v)])"
proof -
  show kd: "keys_distinct (es[i := (None, v)])" using keys_distinct_update [OF es] by blast
  have other: "\<forall>j < length es. j \<noteq> i \<longrightarrow> fst (es ! j) \<noteq> Some key"
    using k es unfolding keys_distinct_def by (metis option.distinct(1))
  show "table_map (es[i := (None, v)]) = (table_map es)(key := None)"
  proof (rule map_eqI)
    fix k' w
    show "table_map (es[i := (None, v)]) k' = Some w \<longleftrightarrow> ((table_map es)(key := None)) k' = Some w"
      unfolding table_map_Some [OF kd] using k es(2) other
      by (auto simp: nth_list_update table_map_Some [OF es(1)])
  qed
qed

lemma used_count_update:
  assumes "i < length es"
  shows "used_count ops (es[i := e]) + (if used ops (es ! i) then 1 else 0) =
    used_count ops es + (if used ops e then 1 else 0)"
proof -
  let ?x = "take i es" and ?y = "drop (Suc i) es"
  have "length (filter P es) = length (filter P ?x) + (if P (es ! i) then 1 else 0) + length (filter P ?y)" for P
    by (subst id_take_nth_drop [OF assms]) simp
  then show ?thesis unfolding used_count_def upd_conv_take_nth_drop [OF assms] by simp
qed

subsection \<open>The probe loop\<close>

lemma and_pow2_minus_1: "n AND (2 ^ k - 1 :: nat) = n mod 2 ^ k"
  by (metis take_bit_eq_mask take_bit_eq_mod mask_eq_exp_minus_1)

lemma path_Suc: "cap = 2 ^ k \<Longrightarrow> Suc (path cap h d) AND (cap - Suc 0) = path cap h (Suc d)"
  unfolding path_def using and_pow2_minus_1 [of "Suc ((unat h + d) mod cap)" k] by (simp add: mod_simps)

lemma path_less [simp]: "0 < cap \<Longrightarrow> path cap h d < cap"
  by (simp add: path_def)

lemma path_surj:
  assumes "i < cap"
  shows "\<exists>d < cap. i = path cap h d"
proof (intro exI conjI)
  let ?d = "(i + cap - unat h mod cap) mod cap"
  show "?d < cap" using assms by (intro mod_less_divisor) simp
  have le: "unat h mod cap < cap" using assms by (intro mod_less_divisor) simp
  have "path cap h ?d = (unat h mod cap + (i + cap - unat h mod cap)) mod cap"
    unfolding path_def by (simp add: mod_simps)
  also have "unat h mod cap + (i + cap - unat h mod cap) = i + cap" using le by linarith
  also have "(i + cap) mod cap = i" using assms by simp
  finally show "i = path cap h ?d" by simp
qed

lemma probe_present:
  assumes "cap = 2 ^ k" "d \<le> j" "fst (es ! path cap h j) = Some key"
    "\<forall>d'. d \<le> d' \<and> d' < j \<longrightarrow> used ops (es ! path cap h d') \<and> fst (es ! path cap h d') \<noteq> Some key"
  shows "probe ops es cap key (path cap h d) tomb = Some (path cap h j)"
  using assms(2,4)
proof (induction "j - d" arbitrary: d tomb)
  case 0
  then have "d = j" by simp
  then show ?case using assms(3) by (subst probe.simps) (auto split: prod.splits)
next
  case (Suc n)
  then have d: "d < j" by simp
  then have IH: "probe ops es cap key (path cap h (Suc d)) tomb' = Some (path cap h j)" for tomb'
    using Suc by simp
  from d Suc.prems have "used ops (es ! path cap h d)" "fst (es ! path cap h d) \<noteq> Some key" by auto
  then show ?case
    by (subst probe.simps) (auto simp: path_Suc [OF assms(1)] IH used_def split: prod.splits option.splits)
qed

lemma probe_absent:
  assumes "cap = 2 ^ k" "d \<le> m" "\<not> used ops (es ! path cap h m)"
    "\<forall>d'. d \<le> d' \<and> d' < m \<longrightarrow> used ops (es ! path cap h d') \<and> fst (es ! path cap h d') \<noteq> Some key"
  shows "\<exists>r. probe ops es cap key (path cap h d) tomb = Some r \<and>
    (case tomb of Some t \<Rightarrow> r = t
     | None \<Rightarrow> \<exists>j. d \<le> j \<and> j \<le> m \<and> r = path cap h j \<and> fst (es ! path cap h j) = None)"
  using assms(2,4)
proof (induction "m - d" arbitrary: d tomb)
  case 0
  then have "d = m" by simp
  then show ?case
    using assms(3) by (subst probe.simps) (auto simp: used_def split: prod.splits option.splits)
next
  case (Suc n)
  then have d: "d < m" by simp
  let ?i = "path cap h d"
  have IH: "\<exists>r. probe ops es cap key (path cap h (Suc d)) tomb' = Some r \<and>
      (case tomb' of Some t \<Rightarrow> r = t
       | None \<Rightarrow> \<exists>j. Suc d \<le> j \<and> j \<le> m \<and> r = path cap h j \<and> fst (es ! path cap h j) = None)" for tomb'
    using Suc d by (intro Suc.hyps(1)) auto
  from d Suc.prems have i: "used ops (es ! ?i)" "fst (es ! ?i) \<noteq> Some key" by auto
  show ?case
  proof (cases "fst (es ! ?i)")
    case None
    define tomb' where "tomb' = (case tomb of None \<Rightarrow> Some ?i | Some t \<Rightarrow> Some t)"
    have "probe ops es cap key ?i tomb = probe ops es cap key (path cap h (Suc d)) tomb'"
      using None i by (subst probe.simps) (auto simp: path_Suc [OF assms(1)] used_def tomb'_def split: prod.splits)
    with IH [of tomb'] None d show ?thesis
      by (auto simp: tomb'_def split: option.splits)
  next
    case (Some k')
    have "probe ops es cap key ?i tomb = probe ops es cap key (path cap h (Suc d)) tomb"
      using Some i by (subst probe.simps) (auto simp: path_Suc [OF assms(1)] split: prod.splits)
    with IH [of tomb] show ?thesis by (auto split: option.splits) (metis Suc_leD)
  qed
qed

end
