(* ===== verification/Table_Ops.thy ===== *)
theory Table_Ops
  imports Table_Probe
begin

section \<open>Operations of the hash tables against finite maps\<close>

definition table_ok :: "'v slot_ops \<Rightarrow> 'v table \<Rightarrow> bool" where
  "table_ok ops t \<longleftrightarrow>
     (capacity t = 0 \<or> (\<exists>k \<ge> 3. capacity t = 2 ^ k)) \<and> 4 * count t \<le> 3 * capacity t \<and>
     entries_ok ops (capacity t) (entries t) \<and> used_count ops (entries t) = count t"

abbreviation lookup :: "'v table \<Rightarrow> ObjString \<Rightarrow> 'v option" where
  "lookup t \<equiv> table_map (entries t)"

subsection \<open>Finding a slot\<close>

lemma used_count_le: "used_count ops es \<le> length es"
  by (simp add: used_count_def)

lemma empty_slot_exists:
  assumes "used_count ops es < length es"
  shows "\<exists>i < length es. \<not> used ops (es ! i)"
proof (rule ccontr)
  assume "\<not> ?thesis"
  then have "\<forall>e \<in> set es. used ops e" by (metis in_set_conv_nth)
  then have "filter (used ops) es = es" by simp
  with assms show False by (simp add: used_count_def)
qed

text \<open>The first empty slot on the path of a key.\<close>

lemma first_empty:
  assumes "length es = cap" "used_count ops es < cap"
  obtains m where "m < cap" "\<not> used ops (es ! path cap h m)" "\<forall>d < m. used ops (es ! path cap h d)"
proof -
  obtain i where "i < cap" "\<not> used ops (es ! i)" using empty_slot_exists assms by blast
  then obtain d where d: "d < cap" "\<not> used ops (es ! path cap h d)" using path_surj [of i cap h] by auto
  let ?m = "LEAST d. \<not> used ops (es ! path cap h d)"
  have "?m \<le> d" using d(2) by (rule Least_le)
  moreover have "\<not> used ops (es ! path cap h ?m)" using d(2) by (rule LeastI)
  moreover have "\<forall>d < ?m. used ops (es ! path cap h d)" using not_less_Least by blast
  ultimately show ?thesis using that d(1) by (meson le_less_trans)
qed

lemma find_entry_path: "cap = 2 ^ k \<Longrightarrow> find_entry ops es cap key = probe ops es cap key (path cap (s_hash key) 0) None"
  unfolding find_entry_def path_def using and_pow2_minus_1 [of "unat (s_hash key)" k] by simp

lemma find_entry_present:
  assumes ok: "entries_ok ops cap es" and cap: "cap = 2 ^ k"
    and i: "i < cap" "fst (es ! i) = Some key"
  shows "find_entry ops es cap key = Some i"
proof -
  obtain d where d: "d < cap" "i = path cap (s_hash key) d"
      "\<forall>d' < d. used ops (es ! path cap (s_hash key) d')"
    using ok i unfolding entries_ok_def reachable_def by blast
  define j where "j = (LEAST j. fst (es ! path cap (s_hash key) j) = Some key)"
  have j: "fst (es ! path cap (s_hash key) j) = Some key" "j \<le> d"
    unfolding j_def using i d by (auto intro: LeastI [of _ d] Least_le)
  have "probe ops es cap key (path cap (s_hash key) 0) None = Some (path cap (s_hash key) j)"
  proof (rule probe_present [OF cap])
    show "\<forall>d'. 0 \<le> d' \<and> d' < j \<longrightarrow>
        used ops (es ! path cap (s_hash key) d') \<and> fst (es ! path cap (s_hash key) d') \<noteq> Some key"
      using d(3) j(2) not_less_Least unfolding j_def by fastforce
  qed (use j in simp_all)
  moreover have "path cap (s_hash key) j = i"
  proof -
    have "path cap (s_hash key) j < cap" using cap by simp
    then show ?thesis
      using ok i j(1) unfolding entries_ok_def keys_distinct_def by (metis option.distinct(1))
  qed
  ultimately show ?thesis by (simp add: find_entry_path [OF cap])
qed

lemma find_entry_absent:
  assumes ok: "entries_ok ops cap es" and cap: "cap = 2 ^ k" and room: "used_count ops es < cap"
    and no: "table_map es key = None"
  shows "\<exists>i. find_entry ops es cap key = Some i \<and> i < cap \<and> fst (es ! i) = None \<and> reachable ops cap es key i"
proof -
  have len: "length es = cap" using ok by (simp add: entries_ok_def)
  obtain m where m: "m < cap" "\<not> used ops (es ! path cap (s_hash key) m)"
      "\<forall>d < m. used ops (es ! path cap (s_hash key) d)"
    using first_empty [OF len room] by blast
  have "fst (es ! path cap (s_hash key) d) \<noteq> Some key" for d
    using no len cap unfolding table_map_None by simp
  then obtain r j where "find_entry ops es cap key = Some r" "j \<le> m" "r = path cap (s_hash key) j" "fst (es ! r) = None"
    using probe_absent [OF cap _ m(2), of 0 key None] m(3) unfolding find_entry_path [OF cap] by auto
  moreover then have "reachable ops cap es key r"
    unfolding reachable_def using m by (intro exI [of _ j]) auto
  ultimately show ?thesis using cap by auto
qed

lemma find_entry_cases:
  assumes "entries_ok ops cap es" "cap = 2 ^ k" "used_count ops es < cap"
  obtains i where "find_entry ops es cap key = Some i" "i < cap" "reachable ops cap es key i"
    "fst (es ! i) = None \<and> table_map es key = None \<or> fst (es ! i) = Some key \<and> table_map es key = Some (snd (es ! i))"
proof (cases "table_map es key")
  case None
  then show ?thesis using find_entry_absent [OF assms] that by blast
next
  case (Some v)
  have kd: "keys_distinct es" and len: "length es = cap" using assms(1) by (auto simp: entries_ok_def)
  obtain i where i: "i < cap" "es ! i = (Some key, v)" using Some len unfolding table_map_Some [OF kd] by auto
  then have "find_entry ops es cap key = Some i" using find_entry_present [OF assms(1,2)] by simp
  moreover have "reachable ops cap es key i" using assms(1) i unfolding entries_ok_def by simp
  ultimately show ?thesis using that i Some by simp
qed

subsection \<open>Writing a slot\<close>

lemma reachable_mono:
  assumes "reachable ops cap es key i" "0 < cap"
    "\<And>d. d < cap \<Longrightarrow> used ops (es ! d) \<Longrightarrow> used ops (es' ! d)"
  shows "reachable ops cap es' key i"
proof -
  obtain d where "d < cap" "i = path cap (s_hash key) d" "\<forall>d' < d. used ops (es ! path cap (s_hash key) d')"
    using assms(1) unfolding reachable_def by blast
  moreover have "used ops (es' ! path cap (s_hash key) d')" if "d' < d" for d'
    using calculation(3) that assms(2) by (intro assms(3)) auto
  ultimately show ?thesis unfolding reachable_def by blast
qed

lemma entries_ok_set:
  assumes ok: "entries_ok ops cap es" and i: "i < cap" "reachable ops cap es key i"
    and k: "fst (es ! i) = None \<and> table_map es key = None \<or> fst (es ! i) = Some key"
  shows "entries_ok ops cap (es[i := (Some key, v)])"
    "table_map (es[i := (Some key, v)]) = (table_map es)(key \<mapsto> v)"
    "used_count ops (es[i := (Some key, v)]) =
       (if fst (es ! i) = None \<and> so_nil ops (snd (es ! i)) then used_count ops es + 1 else used_count ops es)"
proof -
  have kd: "keys_distinct es" and len: "length es = cap" using ok by (auto simp: entries_ok_def)
  note upd = table_map_set [OF kd _ k, unfolded len, OF i(1)]
  show "table_map (es[i := (Some key, v)]) = (table_map es)(key \<mapsto> v)" using upd by blast
  show "used_count ops (es[i := (Some key, v)]) =
       (if fst (es ! i) = None \<and> so_nil ops (snd (es ! i)) then used_count ops es + 1 else used_count ops es)"
    using used_count_update [of i es ops "(Some key, v)"] i len by (auto simp: used_def split: if_splits)
  have "reachable ops cap (es[i := (Some key, v)]) key' j"
    if "j < cap" "fst (es[i := (Some key, v)] ! j) = Some key'" for key' j
  proof -
    have "reachable ops cap es key' j"
      using that i ok len unfolding entries_ok_def by (cases "j = i") auto
    then show ?thesis
      by (rule reachable_mono) (use i len in \<open>auto simp: nth_list_update used_def\<close>)
  qed
  moreover have "\<forall>e \<in> set (es[i := (Some key, v)]). fst e = None \<longrightarrow> so_nil ops (snd e) \<or> so_is_tomb ops (snd e)"
    using ok unfolding entries_ok_def by (auto dest!: set_update_subset_insert [THEN subsetD])
  ultimately show "entries_ok ops cap (es[i := (Some key, v)])"
    using upd(2) len by (simp add: entries_ok_def)
qed

lemma entries_ok_delete:
  assumes ok: "entries_ok ops cap es" and i: "i < cap" "fst (es ! i) = Some key"
    and tomb: "\<not> so_nil ops v" "so_is_tomb ops v"
  shows "entries_ok ops cap (es[i := (None, v)])"
    "table_map (es[i := (None, v)]) = (table_map es)(key := None)"
    "used_count ops (es[i := (None, v)]) = used_count ops es"
proof -
  have kd: "keys_distinct es" and len: "length es = cap" using ok by (auto simp: entries_ok_def)
  note upd = table_map_delete [OF kd _ i(2), unfolded len, OF i(1)]
  show "table_map (es[i := (None, v)]) = (table_map es)(key := None)" using upd by blast
  show "used_count ops (es[i := (None, v)]) = used_count ops es"
    using used_count_update [of i es ops "(None, v)"] i len tomb by (auto simp: used_def)
  have "reachable ops cap (es[i := (None, v)]) key' j"
    if "j < cap" "fst (es[i := (None, v)] ! j) = Some key'" for key' j
  proof -
    have "reachable ops cap es key' j"
      using that i ok len unfolding entries_ok_def by (cases "j = i") auto
    then show ?thesis
      by (rule reachable_mono) (use i len tomb in \<open>auto simp: nth_list_update used_def\<close>)
  qed
  moreover have "\<forall>e \<in> set (es[i := (None, v)]). fst e = None \<longrightarrow> so_nil ops (snd e) \<or> so_is_tomb ops (snd e)"
    using ok tomb unfolding entries_ok_def by (auto dest!: set_update_subset_insert [THEN subsetD])
  ultimately show "entries_ok ops cap (es[i := (None, v)])"
    using upd(2) len by (simp add: entries_ok_def)
qed

definition passed_over :: "'v slot_ops \<Rightarrow> string \<Rightarrow> u32 \<Rightarrow> 'v entry \<Rightarrow> bool" where
  "passed_over ops chars h e \<longleftrightarrow>
     used ops e \<and> (\<forall>k. fst e = Some k \<longrightarrow> \<not> (s_chars k = chars \<and> s_hash k = h))"

lemma keys_distinct_ConsD:
  assumes "keys_distinct (e # es)"
  shows "keys_distinct es" "fst e = Some key \<Longrightarrow> table_map es key = None"
proof -
  have at: "i = j" if "i < Suc (length es)" "j < Suc (length es)" "fst ((e # es) ! i) \<noteq> None"
      "fst ((e # es) ! i) = fst ((e # es) ! j)" for i j
    using assms that unfolding keys_distinct_def by simp
  show "keys_distinct es"
    unfolding keys_distinct_def
  proof (intro allI impI)
    fix i j assume "i < length es" "j < length es" "fst (es ! i) \<noteq> None \<and> fst (es ! i) = fst (es ! j)"
    then show "i = j" using at [of "Suc i" "Suc j"] unfolding nth_Cons_Suc Suc_less_eq nat.inject by blast
  qed
  show "table_map es key = None" if "fst e = Some key"
    unfolding table_map_None
  proof (intro allI impI notI)
    fix i assume "i < length es" "fst (es ! i) = Some key"
    then show False using at [of 0 "Suc i"] that by simp
  qed
qed

subsection \<open>The contract of a payload\<close>

locale slots =
  fixes ops :: "'v slot_ops"
  assumes nil_empty: "so_nil ops (so_empty ops)"
    and tomb_not_nil: "\<not> so_nil ops (so_tomb ops)"
    and tomb_is_tomb: "so_is_tomb ops (so_tomb ops)"
    and nil_not_tomb: "so_nil ops v \<Longrightarrow> \<not> so_is_tomb ops v"
begin

lemma entries_ok_empty: "entries_ok ops cap (replicate cap (None, so_empty ops))"
  by (auto simp: entries_ok_def keys_distinct_def nil_empty)

lemma used_count_empty: "used_count ops (replicate cap (None, so_empty ops)) = 0"
  by (simp add: used_count_def used_def nil_empty)

lemma invariant_holds:
  assumes "table_ok ops t"
  shows "check_invariant ops t"
proof -
  have "length (filter (\<lambda>e. fst e \<noteq> None) es) + length (filter (\<lambda>e. fst e = None \<and> so_is_tomb ops (snd e)) es) =
      used_count ops es"
    if "\<forall>e \<in> set es. fst e = None \<longrightarrow> so_nil ops (snd e) \<or> so_is_tomb ops (snd e)" for es
    using that by (induction es) (auto simp: used_count_def used_def nil_not_tomb)
  then show ?thesis using assms
    by (auto simp: check_invariant_def table_invariant_def table_ok_def entries_ok_def)
qed

lemma rehash_ok:
  assumes "cap = 2 ^ k" "entries_ok ops cap dest" "used_count ops dest = n" "keys_distinct es"
    "n + length (filter (\<lambda>e. fst e \<noteq> None) es) < cap" "\<forall>key. table_map es key \<noteq> None \<longrightarrow> table_map dest key = None"
    "\<forall>e \<in> set dest. fst e = None \<longrightarrow> so_nil ops (snd e)"
  shows "\<exists>dest'. rehash ops cap es n dest = Some (n + length (filter (\<lambda>e. fst e \<noteq> None) es), dest') \<and>
    entries_ok ops cap dest' \<and> used_count ops dest' = n + length (filter (\<lambda>e. fst e \<noteq> None) es) \<and>
    table_map dest' = table_map dest ++ table_map es"
  using assms(2-)
proof (induction es arbitrary: n dest)
  case (Cons e es)
  note kd = keys_distinct_ConsD [OF Cons.prems(3)]
  show ?case
  proof (cases "fst e")
    case None
    then obtain v where "e = (None, v)" by (cases e) auto
    then show ?thesis using Cons.IH [OF Cons.prems(1,2) kd(1)] Cons.prems by simp
  next
    case (Some key)
    then obtain v where e: "e = (Some key, v)" by (cases e) auto
    have no: "table_map dest key = None" using Cons.prems(5) e by (simp add: table_map_Cons_Some)
    then obtain i where i: "find_entry ops dest cap key = Some i" "i < cap" "fst (dest ! i) = None"
        "reachable ops cap dest key i"
      using find_entry_absent [OF Cons.prems(1) assms(1) _ no] Cons.prems(2,4) e by auto
    note set = entries_ok_set [OF Cons.prems(1) i(2,4), of v]
    have "length dest = cap" using Cons.prems(1) by (simp add: entries_ok_def)
    then have new: "so_nil ops (snd (dest ! i))" using Cons.prems(6) i(2,3) by simp
    have notin: "table_map es key = None" using kd(2) e by simp
    have clean: "\<forall>e \<in> set (dest[i := (Some key, v)]). fst e = None \<longrightarrow> so_nil ops (snd e)"
      using Cons.prems(6) by (auto dest!: set_update_subset_insert [THEN subsetD])
    have "\<exists>dest'. rehash ops cap es (n + 1) (dest[i := (Some key, v)]) =
        Some (n + 1 + length (filter (\<lambda>e. fst e \<noteq> None) es), dest') \<and>
      entries_ok ops cap dest' \<and> used_count ops dest' = n + 1 + length (filter (\<lambda>e. fst e \<noteq> None) es) \<and>
      table_map dest' = table_map (dest[i := (Some key, v)]) ++ table_map es"
      using Cons.prems set i no e new notin kd clean by (intro Cons.IH) (auto simp: table_map_Cons_Some)
    moreover have "table_map (dest[i := (Some key, v)]) ++ table_map es = table_map dest ++ table_map (e # es)"
      using set(2) no i(3) notin e by (auto simp: table_map_Cons_Some fun_eq_iff map_add_def split: option.splits)
    ultimately show ?thesis using e i(1) by auto
  qed
qed simp

lemma keys_le_used: "length (filter (\<lambda>e. fst e \<noteq> None) es) \<le> used_count ops es"
  unfolding used_count_def used_def by (induction es) auto

lemma adjust_capacity_ok:
  assumes "table_ok ops t" "cap = 2 ^ k" "3 \<le> k" "count t + 1 \<le> 3 * cap div 4"
  shows "\<exists>t'. adjust_capacity ops t cap = Some t' \<and> table_ok ops t' \<and> capacity t' = cap \<and>
    count t' \<le> count t \<and> lookup t' = lookup t"
proof -
  have ok: "keys_distinct (entries t)" "used_count ops (entries t) = count t"
    using assms(1) by (auto simp: table_ok_def entries_ok_def)
  let ?n = "length (filter (\<lambda>e. fst e \<noteq> None) (entries t))"
  have n: "?n \<le> count t" using keys_le_used [of "entries t"] ok by simp
  let ?empty = "replicate cap (None, so_empty ops)"
  have "\<exists>dest'. rehash ops cap (entries t) 0 ?empty = Some (0 + ?n, dest') \<and>
    entries_ok ops cap dest' \<and> used_count ops dest' = 0 + ?n \<and>
    table_map dest' = table_map ?empty ++ lookup t"
    by (rule rehash_ok [OF assms(2) entries_ok_empty used_count_empty ok(1)])
      (use n assms(4) in \<open>auto simp: nil_empty\<close>)
  then obtain dest where dest: "rehash ops cap (entries t) 0 ?empty = Some (?n, dest)"
      "entries_ok ops cap dest" "used_count ops dest = ?n" "table_map dest = lookup t" by auto
  define t' where "t' = \<lparr>count = ?n, capacity = cap, entries = dest\<rparr>"
  have "table_ok ops t'"
    using dest assms(2-4) n by (auto simp: table_ok_def t'_def)
  moreover from this have "adjust_capacity ops t cap = Some t'"
    using dest invariant_holds by (simp add: adjust_capacity_def t'_def)
  ultimately show ?thesis using dest n by (auto simp: t'_def)
qed

lemma table_room:
  assumes "table_ok ops t" "0 < capacity t"
  shows "used_count ops (entries t) < capacity t"
  using assms by (auto simp: table_ok_def)

lemma find_in_table:
  assumes "table_ok ops t" "0 < capacity t"
  obtains i where "find_entry ops (entries t) (capacity t) key = Some i" "i < capacity t"
    "reachable ops (capacity t) (entries t) key i"
    "fst (entries t ! i) = None \<and> lookup t key = None \<or>
     fst (entries t ! i) = Some key \<and> lookup t key = Some (snd (entries t ! i))"
proof -
  obtain k where "capacity t = 2 ^ k" using assms by (auto simp: table_ok_def)
  then show ?thesis
    using find_entry_cases [of ops "capacity t" "entries t" k key] table_room [OF assms] assms(1) that
    by (auto simp: table_ok_def)
qed

lemma count_zero_lookup: "table_ok ops t \<Longrightarrow> count t = 0 \<Longrightarrow> lookup t key = None"
  by (fastforce simp: table_ok_def used_count_def filter_empty_conv used_def table_map_None)

lemma count_capacity: "table_ok ops t \<Longrightarrow> count t \<noteq> 0 \<Longrightarrow> 0 < capacity t"
  by (auto simp: table_ok_def)

lemma get_ok:
  assumes "table_ok ops t"
  shows "table_get ops t key = Some (lookup t key)"
proof (cases "count t = 0")
  case False
  then obtain i where "find_entry ops (entries t) (capacity t) key = Some i"
      "fst (entries t ! i) = None \<and> lookup t key = None \<or>
       fst (entries t ! i) = Some key \<and> lookup t key = Some (snd (entries t ! i))"
    using find_in_table [OF assms count_capacity [OF assms False]] by metis
  then show ?thesis using False by (auto simp: table_get_def split: prod.splits option.splits)
qed (simp add: table_get_def count_zero_lookup [OF assms])

lemma set_in_room:
  assumes "table_ok ops t" "4 * (count t + 1) \<le> 3 * capacity t"
  obtains i where "find_entry ops (entries t) (capacity t) key = Some i"
    "fst (entries t ! i) = None \<longleftrightarrow> lookup t key = None"
    "table_ok ops (t\<lparr>count := (if fst (entries t ! i) = None \<and> so_nil ops (snd (entries t ! i)) then count t + 1 else count t),
        entries := (entries t)[i := (Some key, v)]\<rparr>)"
    "table_map ((entries t)[i := (Some key, v)]) = (lookup t)(key \<mapsto> v)"
proof -
  have cap: "0 < capacity t" using assms(2) by simp
  obtain i where i: "find_entry ops (entries t) (capacity t) key = Some i" "i < capacity t"
    "reachable ops (capacity t) (entries t) key i"
    "fst (entries t ! i) = None \<and> lookup t key = None \<or>
     fst (entries t ! i) = Some key \<and> lookup t key = Some (snd (entries t ! i))"
    by (rule find_in_table [OF assms(1) cap]) blast
  have "entries_ok ops (capacity t) (entries t)" using assms(1) by (simp add: table_ok_def)
  note set = entries_ok_set [OF this i(2,3), of v]
  show ?thesis
  proof (rule that [OF i(1)])
    show "table_ok ops (t\<lparr>count := (if fst (entries t ! i) = None \<and> so_nil ops (snd (entries t ! i)) then count t + 1 else count t),
        entries := (entries t)[i := (Some key, v)]\<rparr>)"
      using set i(4) assms by (auto simp: table_ok_def)
  qed (use set(2) i(4) in auto)
qed

lemma set_ok:
  assumes "table_ok ops t"
  shows "\<exists>t'. table_set ops t key v = Some (lookup t key = None, t') \<and> table_ok ops t' \<and>
    lookup t' = (lookup t)(key \<mapsto> v)"
proof -
  obtain t1 where t1: "(if 4 * (count t + 1) > 3 * capacity t
        then adjust_capacity ops t (GROW_CAPACITY (capacity t)) else Some t) = Some t1"
    and ok1: "table_ok ops t1" "4 * (count t1 + 1) \<le> 3 * capacity t1" "lookup t1 = lookup t"
  proof (cases "4 * (count t + 1) > 3 * capacity t")
    case True
    have le: "4 * count t \<le> 3 * capacity t" using assms by (simp add: table_ok_def)
    obtain k where k: "3 \<le> k" "GROW_CAPACITY (capacity t) = 2 ^ k" "2 * capacity t \<le> 2 ^ k" "(8 :: nat) \<le> 2 ^ k"
    proof (cases "capacity t = 0")
      case True
      then show ?thesis using that [of 3] by (simp add: GROW_CAPACITY_def)
    next
      case False
      then obtain j where j: "3 \<le> j" "capacity t = 2 ^ j" using assms by (auto simp: table_ok_def)
      then have "(8 :: nat) \<le> 2 ^ j" using power_increasing [of 3 j "2 :: nat"] by simp
      then show ?thesis using that [of "Suc j"] j by (simp add: GROW_CAPACITY_def)
    qed
    have "count t + 1 \<le> 3 * 2 ^ k div 4" using le k(3,4) by linarith
    from adjust_capacity_ok [OF assms refl k(1) this]
    obtain t' where t': "adjust_capacity ops t (2 ^ k) = Some t'" "table_ok ops t'" "capacity t' = 2 ^ k"
        "count t' \<le> count t" "lookup t' = lookup t" by blast
    show ?thesis
    proof (rule that [of t'])
      have "4 * (count t' + 1) \<le> 4 * count t + 4" using t'(4) by simp
      also have "\<dots> \<le> 3 * capacity t + 4" using le by simp
      also have "\<dots> \<le> 3 * 2 ^ k" using k(3,4) by linarith
      finally show "4 * (count t' + 1) \<le> 3 * capacity t'" using t'(3) by simp
    qed (use t' True k(2) in auto)
  qed (use that [of t] assms in auto)
  obtain i where i: "find_entry ops (entries t1) (capacity t1) key = Some i"
    "fst (entries t1 ! i) = None \<longleftrightarrow> lookup t1 key = None"
    "table_ok ops (t1\<lparr>count := (if fst (entries t1 ! i) = None \<and> so_nil ops (snd (entries t1 ! i)) then count t1 + 1 else count t1),
        entries := (entries t1)[i := (Some key, v)]\<rparr>)"
    "table_map ((entries t1)[i := (Some key, v)]) = (lookup t1)(key \<mapsto> v)"
    by (rule set_in_room [OF ok1(1,2), of key v]) (rule that)
  have "table_set ops t key v = Some (fst (entries t1 ! i) = None,
      t1\<lparr>count := (if fst (entries t1 ! i) = None \<and> so_nil ops (snd (entries t1 ! i)) then count t1 + 1 else count t1),
        entries := (entries t1)[i := (Some key, v)]\<rparr>)"
    using invariant_holds [OF assms] t1 i(1) by (simp add: table_set_def Let_def)
  then show ?thesis using i ok1(3) by simp
qed

lemma delete_ok:
  assumes "table_ok ops t"
  shows "\<exists>t'. table_delete ops t key = Some (lookup t key \<noteq> None, t') \<and> table_ok ops t' \<and>
    lookup t' = (lookup t)(key := None) \<and> capacity t' = capacity t \<and>
    (\<forall>k j. k \<noteq> key \<longrightarrow> (fst (entries t' ! j) = Some k \<longleftrightarrow> fst (entries t ! j) = Some k))"
proof (cases "count t = 0")
  case True
  then show ?thesis using assms count_zero_lookup [OF assms True] by (auto simp: table_delete_def fun_eq_iff)
next
  case False
  obtain i where i: "find_entry ops (entries t) (capacity t) key = Some i" "i < capacity t"
      "fst (entries t ! i) = None \<and> lookup t key = None \<or>
       fst (entries t ! i) = Some key \<and> lookup t key = Some (snd (entries t ! i))"
    by (rule find_in_table [OF assms count_capacity [OF assms False]]) blast
  show ?thesis
  proof (cases "fst (entries t ! i) = None")
    case True
    then show ?thesis using False i assms by (auto simp: table_delete_def fun_eq_iff)
  next
    case present: False
    then have key: "fst (entries t ! i) = Some key" "lookup t key \<noteq> None" using i by auto
    have "entries_ok ops (capacity t) (entries t)" using assms by (simp add: table_ok_def)
    note del = entries_ok_delete [OF this i(2) key(1) tomb_not_nil tomb_is_tomb]
    have "table_delete ops t key = Some (True, t\<lparr>entries := (entries t)[i := (None, so_tomb ops)]\<rparr>)"
      using False i(1) present by (simp add: table_delete_def)
    moreover have "length (entries t) = capacity t" using assms by (simp add: table_ok_def entries_ok_def)
    then have "\<forall>k j. k \<noteq> key \<longrightarrow>
        (fst ((entries t)[i := (None, so_tomb ops)] ! j) = Some k \<longleftrightarrow> fst (entries t ! j) = Some k)"
      using key(1) i(2) by (metis fst_conv nth_list_update_eq nth_list_update_neq option.distinct(1) option.inject)
    ultimately show ?thesis using del key(2) assms by (auto simp: table_ok_def)
  qed
qed

lemma add_all_ok:
  assumes "table_ok ops t" "keys_distinct es"
  shows "\<exists>t'. table_add_all ops es t = Some t' \<and> table_ok ops t' \<and> lookup t' = lookup t ++ table_map es"
  using assms
proof (induction es arbitrary: t)
  case (Cons e es)
  note kd = keys_distinct_ConsD [OF Cons.prems(2)]
  show ?case
  proof (cases "fst e")
    case None
    then obtain v where "e = (None, v)" by (cases e) auto
    then show ?thesis using Cons.IH [OF Cons.prems(1) kd(1)] by simp
  next
    case (Some key)
    then obtain v where e: "e = (Some key, v)" by (cases e) auto
    obtain t1 where t1: "table_set ops t key v = Some (lookup t key = None, t1)" "table_ok ops t1"
        "lookup t1 = (lookup t)(key \<mapsto> v)"
      using set_ok [OF Cons.prems(1)] by blast
    have "table_map es key = None" using kd(2) e by simp
    then have "lookup t1 ++ table_map es = lookup t ++ table_map (e # es)"
      by (auto simp: t1(3) e table_map_Cons_Some fun_eq_iff map_add_def split: option.splits)
    then show ?thesis using Cons.IH [OF t1(2) kd(1)] e t1(1) by auto
  qed
qed simp

lemma remove_white_from_ok:
  assumes "table_ok ops t" "\<forall>i \<in> set is. i < capacity t"
  shows "\<exists>t'. remove_white_from ops marked is t = Some t' \<and> table_ok ops t' \<and> capacity t' = capacity t \<and>
    (\<forall>key. lookup t' key = (if \<not> marked key \<and> (\<exists>i \<in> set is. fst (entries t ! i) = Some key) then None else lookup t key))"
  using assms
proof (induction "is" arbitrary: t)
  case (Cons i "is")
  show ?case
  proof (cases "\<exists>key. fst (entries t ! i) = Some key \<and> \<not> marked key")
    case False
    then have "remove_white_from ops marked (i # is) t = remove_white_from ops marked is t"
      by (auto split: option.splits)
    then show ?thesis using Cons.IH [OF Cons.prems(1)] Cons.prems(2) False by auto
  next
    case True
    then obtain key where key: "fst (entries t ! i) = Some key" "\<not> marked key" by blast
    have ok: "keys_distinct (entries t)" "length (entries t) = capacity t"
      using Cons.prems(1) by (auto simp: table_ok_def entries_ok_def)
    obtain t1 where t1: "table_delete ops t key = Some (lookup t key \<noteq> None, t1)" "table_ok ops t1"
        "lookup t1 = (lookup t)(key := None)" "capacity t1 = capacity t"
        and same: "\<forall>k j. k \<noteq> key \<longrightarrow> (fst (entries t1 ! j) = Some k \<longleftrightarrow> fst (entries t ! j) = Some k)"
      using delete_ok [OF Cons.prems(1)] by blast
    from Cons.IH [OF t1(2)] Cons.prems(2) t1(4) obtain t' where t': "remove_white_from ops marked is t1 = Some t'"
        "table_ok ops t'" "capacity t' = capacity t1"
        "\<forall>k. lookup t' k = (if \<not> marked k \<and> (\<exists>j \<in> set is. fst (entries t1 ! j) = Some k) then None else lookup t1 k)"
      by auto
    have "lookup t' k = (if \<not> marked k \<and> (\<exists>j \<in> set (i # is). fst (entries t ! j) = Some k) then None else lookup t k)" for k
      using t'(4) t1(3) key same by (cases "k = key") auto
    then show ?thesis using t' t1 key by simp
  qed
qed simp

lemma remove_white_ok:
  assumes "table_ok ops t"
  shows "\<exists>t'. table_remove_white ops marked t = Some t' \<and> table_ok ops t' \<and>
    lookup t' = lookup t |` {key. marked key}"
    and "\<exists>t'. remove_white_from ops marked [0..<capacity t] t = Some t' \<and> table_ok ops t' \<and>
    lookup t' = lookup t |` {key. marked key}"
proof -
  obtain t' where t': "remove_white_from ops marked [0..<capacity t] t = Some t'" "table_ok ops t'"
    "\<forall>key. lookup t' key = (if \<not> marked key \<and> (\<exists>i \<in> set [0..<capacity t]. fst (entries t ! i) = Some key)
       then None else lookup t key)"
    using remove_white_from_ok [OF assms, of "[0..<capacity t]" marked] by auto
  have "length (entries t) = capacity t" using assms by (simp add: table_ok_def entries_ok_def)
  then have "(\<exists>i \<in> set [0..<capacity t]. fst (entries t ! i) = Some key) \<longleftrightarrow> lookup t key \<noteq> None" for key
    using table_map_None [of "entries t" key] by auto
  then have "lookup t' = lookup t |` {key. marked key}"
    using t'(3) by (intro ext) (auto simp: restrict_map_def)
  with t' invariant_holds [OF assms] invariant_holds [OF t'(2)]
  show "\<exists>t'. table_remove_white ops marked t = Some t' \<and> table_ok ops t' \<and> lookup t' = lookup t |` {key. marked key}"
    and "\<exists>t'. remove_white_from ops marked [0..<capacity t] t = Some t' \<and> table_ok ops t' \<and>
      lookup t' = lookup t |` {key. marked key}"
    by (auto simp: table_remove_white_def)
qed

text \<open>The search for a string by its characters and hash.\<close>

lemma probe_string_step:
  assumes "cap = 2 ^ k" "passed_over ops chars h (es ! path cap h d)"
  shows "probe_string ops es cap chars h (path cap h d) = probe_string ops es cap chars h (path cap h (Suc d))"
  using assms(2) by (subst probe_string.simps)
    (auto simp: path_Suc [OF assms(1)] passed_over_def used_def split: prod.splits option.splits)

lemma probe_string_found:
  assumes "cap = 2 ^ k" "d \<le> j" "fst (es ! path cap h j) = Some key" "s_chars key = chars" "s_hash key = h"
    "\<forall>d'. d \<le> d' \<and> d' < j \<longrightarrow> passed_over ops chars h (es ! path cap h d')"
  shows "probe_string ops es cap chars h (path cap h d) = Some (Some key)"
  using assms(2,6)
proof (induction "j - d" arbitrary: d)
  case 0
  then have "d = j" by simp
  then show ?case using assms(3,4,5) by (subst probe_string.simps) (auto split: prod.splits)
next
  case (Suc n)
  then have d: "d < j" by simp
  have "probe_string ops es cap chars h (path cap h (Suc d)) = Some (Some key)"
    by (rule Suc.hyps(1)) (use Suc.hyps(2) d Suc.prems(2) in \<open>simp_all add: Suc_le_eq less_imp_le\<close>)
  moreover have "passed_over ops chars h (es ! path cap h d)" using d Suc.prems(2) by simp
  ultimately show ?case using probe_string_step [OF assms(1)] by simp
qed

lemma probe_string_missing:
  assumes "cap = 2 ^ k" "d \<le> m" "\<not> used ops (es ! path cap h m)"
    "\<forall>d'. d \<le> d' \<and> d' < m \<longrightarrow> passed_over ops chars h (es ! path cap h d')"
  shows "probe_string ops es cap chars h (path cap h d) = Some None"
  using assms(2,4)
proof (induction "m - d" arbitrary: d)
  case 0
  then have "d = m" by simp
  then show ?case using assms(3) by (subst probe_string.simps) (auto simp: used_def split: prod.splits)
next
  case (Suc n)
  then have d: "d < m" by simp
  have "probe_string ops es cap chars h (path cap h (Suc d)) = Some None"
    by (rule Suc.hyps(1)) (use Suc.hyps(2) d Suc.prems(2) in \<open>simp_all add: Suc_le_eq less_imp_le\<close>)
  moreover have "passed_over ops chars h (es ! path cap h d)" using d Suc.prems(2) by simp
  ultimately show ?case using probe_string_step [OF assms(1)] by simp
qed

lemma find_string_ok:
  assumes "table_ok ops t"
  shows "\<exists>r. table_find_string ops t chars h = Some r \<and>
    (case r of
       Some key \<Rightarrow> lookup t key \<noteq> None \<and> s_chars key = chars \<and> s_hash key = h
     | None \<Rightarrow> \<forall>key. s_chars key = chars \<and> s_hash key = h \<longrightarrow> lookup t key = None)"
proof (cases "count t = 0")
  case True
  then show ?thesis
    using invariant_holds [OF assms] count_zero_lookup [OF assms] by (simp add: table_find_string_def)
next
  case False
  let ?cap = "capacity t" and ?es = "entries t"
  have pos: "0 < ?cap" by (rule count_capacity [OF assms False])
  then obtain k where cap: "?cap = 2 ^ k" using assms by (auto simp: table_ok_def)
  have ok: "entries_ok ops ?cap ?es" "length ?es = ?cap" using assms by (auto simp: table_ok_def entries_ok_def)
  obtain m where m: "m < ?cap" "\<not> used ops (?es ! path ?cap h m)" "\<forall>d < m. used ops (?es ! path ?cap h d)"
    by (rule first_empty [OF ok(2) table_room [OF assms pos]])
  have start: "unat h AND (?cap - 1) = path ?cap h 0"
    using and_pow2_minus_1 [of "unat h" k] cap by (simp add: path_def)
  have run: "table_find_string ops t chars h = probe_string ops ?es ?cap chars h (path ?cap h 0)"
    using invariant_holds [OF assms] False start by (simp add: table_find_string_def)
  let ?P = "\<lambda>d. \<exists>key. fst (?es ! path ?cap h d) = Some key \<and> s_chars key = chars \<and> s_hash key = h"
  show ?thesis
  proof (cases "\<exists>d < m. ?P d")
    case True
    define j where "j = (LEAST d. ?P d)"
    have j: "?P j" "j < m" using True unfolding j_def by (auto intro: LeastI2 le_less_trans [OF Least_le])
    then obtain key where key: "fst (?es ! path ?cap h j) = Some key" "s_chars key = chars" "s_hash key = h" by blast
    have "probe_string ops ?es ?cap chars h (path ?cap h 0) = Some (Some key)"
      by (rule probe_string_found [OF cap _ key])
        (use m(3) j(2) not_less_Least in \<open>auto simp: j_def passed_over_def\<close>)
    moreover have "path ?cap h j < ?cap" using pos by simp
    then have "lookup t key \<noteq> None" using key(1) ok(2) by (auto simp: table_map_None)
    ultimately show ?thesis using run key by simp
  next
    case no: False
    have "probe_string ops ?es ?cap chars h (path ?cap h 0) = Some None"
      by (rule probe_string_missing [OF cap _ m(2)]) (use m(3) no in \<open>auto simp: passed_over_def\<close>)
    moreover have "lookup t key = None" if key: "s_chars key = chars" "s_hash key = h" for key
    proof (rule ccontr)
      assume "lookup t key \<noteq> None"
      then obtain i where i: "i < ?cap" "fst (?es ! i) = Some key" using ok(2) unfolding table_map_None by auto
      then obtain d where d: "d < ?cap" "i = path ?cap h d" "\<forall>d' < d. used ops (?es ! path ?cap h d')"
        using ok(1) key unfolding entries_ok_def reachable_def by blast
      have "d < m"
      proof (rule ccontr)
        assume "\<not> d < m"
        then consider "d = m" | "m < d" by linarith
        then show False
        proof cases
          case 1
          then show False using m(2) i(2) d(2) by (auto simp: used_def)
        next
          case 2
          then show False using m(2) d(3) by blast
        qed
      qed
      then show False using no i(2) d(2) key by blast
    qed
    ultimately show ?thesis using run by simp
  qed
qed

end

end
