(* ===== verification/Table_Theorems.thy ===== *)
theory Table_Theorems
  imports Table_Ops
begin

section \<open>Tables as finite maps; interned strings (\<^verbatim>\<open>yargobject.c\<close>)\<close>

subsection \<open>The contract of a table\<close>

datatype 'v table_op = SetKey ObjString 'v | DeleteKey ObjString

fun run_ops ::
  "('t \<Rightarrow> ObjString \<Rightarrow> 'v \<Rightarrow> (bool \<times> 't) option) \<Rightarrow> ('t \<Rightarrow> ObjString \<Rightarrow> (bool \<times> 't) option) \<Rightarrow>
     'v table_op list \<Rightarrow> 't \<Rightarrow> 't option" where
  "run_ops set_key delete_key [] t = Some t"
| "run_ops set_key delete_key (SetKey k v # os) t =
     do { (_, t') \<leftarrow> set_key t k v; run_ops set_key delete_key os t' }"
| "run_ops set_key delete_key (DeleteKey k # os) t =
     do { (_, t') \<leftarrow> delete_key t k; run_ops set_key delete_key os t' }"

fun map_ops :: "'v table_op list \<Rightarrow> (ObjString \<Rightarrow> 'v option) \<Rightarrow> ObjString \<Rightarrow> 'v option" where
  "map_ops [] m = m"
| "map_ops (SetKey k v # os) m = map_ops os (m(k \<mapsto> v))"
| "map_ops (DeleteKey k # os) m = map_ops os (m(k := None))"

text \<open>What a client of a table relies on.\<close>

locale symbol_table =
  fixes ok :: "'t \<Rightarrow> bool" and assoc :: "'t \<Rightarrow> ObjString \<Rightarrow> 'v option" and empty :: 't
    and get_key :: "'t \<Rightarrow> ObjString \<Rightarrow> 'v option option"
    and set_key :: "'t \<Rightarrow> ObjString \<Rightarrow> 'v \<Rightarrow> (bool \<times> 't) option"
    and delete_key :: "'t \<Rightarrow> ObjString \<Rightarrow> (bool \<times> 't) option"
  assumes ok_empty: "ok empty" and assoc_empty: "assoc empty = Map.empty"
    and get_law: "ok t \<Longrightarrow> get_key t k = Some (assoc t k)"
    and set_law: "ok t \<Longrightarrow> \<exists>t'. set_key t k v = Some (assoc t k = None, t') \<and> ok t' \<and> assoc t' = (assoc t)(k \<mapsto> v)"
    and delete_law: "ok t \<Longrightarrow> \<exists>t'. delete_key t k = Some (assoc t k \<noteq> None, t') \<and> ok t' \<and> assoc t' = (assoc t)(k := None)"
begin

lemma run_refines: "ok t \<Longrightarrow> \<exists>t'. run_ops set_key delete_key os t = Some t' \<and> ok t' \<and> assoc t' = map_ops os (assoc t)"
proof (induction os arbitrary: t)
  case (Cons x os)
  show ?case
  proof (cases x)
    case (SetKey k v)
    obtain t1 where "set_key t k v = Some (assoc t k = None, t1)" "ok t1" "assoc t1 = (assoc t)(k \<mapsto> v)"
      using set_law [OF Cons.prems] by blast
    then show ?thesis using Cons.IH [of t1] SetKey by (auto simp del: fun_upd_apply)
  next
    case (DeleteKey k)
    obtain t1 where "delete_key t k = Some (assoc t k \<noteq> None, t1)" "ok t1" "assoc t1 = (assoc t)(k := None)"
      using delete_law [OF Cons.prems] by blast
    then show ?thesis using Cons.IH [of t1] DeleteKey by (auto simp del: fun_upd_apply)
  qed
qed simp

lemma history: "\<exists>t. run_ops set_key delete_key os empty = Some t \<and> get_key t k = Some (map_ops os Map.empty k)"
  using run_refines [OF ok_empty, of os] get_law by (auto simp: assoc_empty)

end

subsection \<open>The two tables keep the contract\<close>

interpretation value_table: slots value_slots
proof
  fix v assume "so_nil value_slots v"
  then show "\<not> so_is_tomb value_slots v" by (cases v) (auto simp: value_slots_def valuesEqual_def split: if_splits)
qed (simp_all add: value_slots_def valuesEqual_def)

interpretation cell_table: slots cell_slots
proof
  fix v assume "so_nil cell_slots v"
  then show "\<not> so_is_tomb cell_slots v"
    by (cases "vc_value v") (auto simp: cell_slots_def valuesEqual_def split: if_splits)
qed (simp_all add: cell_slots_def valuesEqual_def)

lemma init_table_ok: "table_ok ops init_table" "lookup init_table = Map.empty"
  by (simp_all add: table_ok_def init_table_def entries_ok_def keys_distinct_def used_count_def)

interpretation value_map: symbol_table "table_ok value_slots" lookup initTable tableGet tableSet tableDelete
proof
  show "table_ok value_slots initTable" "lookup initTable = Map.empty"
    by (simp_all add: initTable_def init_table_ok)
next
  fix t :: ValueTable and k v
  assume ok: "table_ok value_slots t"
  show "tableGet t k = Some (lookup t k)"
    unfolding tableGet_def by (rule value_table.get_ok [OF ok])
  show "\<exists>t'. tableSet t k v = Some (lookup t k = None, t') \<and> table_ok value_slots t' \<and> lookup t' = (lookup t)(k \<mapsto> v)"
    unfolding tableSet_def by (rule value_table.set_ok [OF ok])
  show "\<exists>t'. tableDelete t k = Some (lookup t k \<noteq> None, t') \<and> table_ok value_slots t' \<and> lookup t' = (lookup t)(k := None)"
    unfolding tableDelete_def using value_table.delete_ok [OF ok, of k] by (elim ex_forward) blast
qed

interpretation cell_map: symbol_table "table_ok cell_slots" lookup initCellTable tableCellGet tableCellSet tableCellDelete
proof
  show "table_ok cell_slots initCellTable" "lookup initCellTable = Map.empty"
    by (simp_all add: initCellTable_def init_table_ok)
next
  fix t :: ValueCellTable and k v
  assume ok: "table_ok cell_slots t"
  show "tableCellGet t k = Some (lookup t k)"
    unfolding tableCellGet_def by (rule cell_table.get_ok [OF ok])
  show "\<exists>t'. tableCellSet t k v = Some (lookup t k = None, t') \<and> table_ok cell_slots t' \<and> lookup t' = (lookup t)(k \<mapsto> v)"
    unfolding tableCellSet_def by (rule cell_table.set_ok [OF ok])
  show "\<exists>t'. tableCellDelete t k = Some (lookup t k \<noteq> None, t') \<and> table_ok cell_slots t' \<and> lookup t' = (lookup t)(k := None)"
    unfolding tableCellDelete_def using cell_table.delete_ok [OF ok, of k] by (elim ex_forward) blast
qed

text \<open>
  C26: Hash tables of values implement finite maps. Whatever sequence of \<^verbatim>\<open>tableSet\<close> and
  \<^verbatim>\<open>tableDelete\<close> is applied to a new table, no probe runs forever and no assertion fails, and
  \<^verbatim>\<open>tableGet\<close> then finds for every key what a finite map would hold after the same updates.
\<close>

theorem value_table_implements_map:
  "\<exists>t. run_ops tableSet tableDelete os initTable = Some t \<and> tableGet t key = Some (map_ops os Map.empty key)"
  by (rule value_map.history)

text \<open>
  C27: The tables of typed cells, which hold the global variables, implement finite maps in the same
  way, although they have no run-time check of their invariant.
\<close>

theorem cell_table_implements_map:
  "\<exists>t. run_ops tableCellSet tableCellDelete os initCellTable = Some t \<and>
     tableCellGet t key = Some (map_ops os Map.empty key)"
  by (rule cell_map.history)

text \<open>
  C28: The operations on whole tables. On well-formed tables, \<^verbatim>\<open>tableAddAll\<close> merges one table into
  another, the entries of the first taking precedence, and \<^verbatim>\<open>tableRemoveWhite\<close>, which deletes
  while it walks over the slots, keeps exactly the entries whose key the collector has marked.
\<close>

theorem whole_table_operations:
  assumes "table_ok value_slots from" "table_ok value_slots to"
  shows "\<exists>t w. tableAddAll from to = Some t \<and> table_ok value_slots t \<and> lookup t = lookup to ++ lookup from \<and>
    tableRemoveWhite marked to = Some w \<and> table_ok value_slots w \<and> lookup w = lookup to |` {key. marked key}"
proof -
  have "keys_distinct (entries from)" using assms(1) by (simp add: table_ok_def entries_ok_def)
  then show ?thesis
    using value_table.add_all_ok [OF assms(2)] value_table.remove_white_ok(1) [OF assms(2), of marked]
    unfolding tableAddAll_def tableRemoveWhite_def by blast
qed

theorem whole_table_operations_witness:
  "\<exists>t. tableAddAll initTable initTable = Some t \<and> tableGet t \<lparr>s_addr = 1, s_chars = ''a'', s_hash = 7\<rparr> = Some None"
proof -
  obtain t where "tableAddAll initTable initTable = Some t" "table_ok value_slots t" "lookup t = Map.empty"
    using whole_table_operations [of initTable initTable] value_map.ok_empty value_map.assoc_empty by auto
  then show ?thesis using value_map.get_law [of t] by auto
qed

end
