(* ===== verification/Strings.thy ===== *)
theory Strings
  imports Table_Theorems
begin

section \<open>Interned strings (\<^verbatim>\<open>src/cyarg/yargobject.c\<close>)\<close>

text \<open>
  String objects are interned in the table \<^verbatim>\<open>vm.strings\<close>, so that the tables may compare keys by
  address. The state of an operation is that table; the address of a newly allocated object is an
  argument, as the allocator returns it.
\<close>

definition hashString :: "string \<Rightarrow> u32" where
  "hashString key = foldl (\<lambda>hash c. (hash XOR of_nat (of_char c)) + 16777619) 2166136261 key"

definition allocateString :: "ValueTable \<Rightarrow> nat \<Rightarrow> string \<Rightarrow> u32 \<Rightarrow> (ObjString \<times> ValueTable) option" where
  "allocateString strings addr chars hash = do {
     let s = \<lparr>s_addr = addr, s_chars = chars, s_hash = hash\<rparr>;
     (_, strings') \<leftarrow> tableSet strings s NIL_VAL;
     Some (s, strings')
   }"

definition copyString :: "ValueTable \<Rightarrow> nat \<Rightarrow> string \<Rightarrow> (ObjString \<times> ValueTable) option" where
  "copyString strings addr chars = do {
     let hash = hashString chars;
     interned \<leftarrow> tableFindString strings chars hash;
     case interned of
       Some s \<Rightarrow> Some (s, strings)
     | None \<Rightarrow> allocateString strings addr chars hash
   }"

text \<open>\<^verbatim>\<open>takeString\<close> owns its argument, which it frees when the string is interned already.\<close>

definition takeString :: "ValueTable \<Rightarrow> nat \<Rightarrow> string \<Rightarrow> (ObjString \<times> ValueTable) option" where
  "takeString strings addr chars = do {
     let hash = hashString chars;
     interned \<leftarrow> tableFindString strings chars hash;
     case interned of
       Some s \<Rightarrow> Some (s, strings)
     | None \<Rightarrow> allocateString strings addr chars hash
   }"

definition concatenateStrings :: "ValueTable \<Rightarrow> nat \<Rightarrow> ObjString \<Rightarrow> ObjString \<Rightarrow> (ObjString \<times> ValueTable) option" where
  "concatenateStrings strings addr a b = takeString strings addr (s_chars a @ s_chars b)"

text \<open>
  The loop of \<^verbatim>\<open>copyStringWithEscapes\<close> over the source text from the first character of the
  literal on: \<open>n\<close> characters are left of the literal. \<open>None\<close> is a read past the terminator of the
  source.
\<close>

fun unescape :: "nat \<Rightarrow> string \<Rightarrow> string option" where
  "unescape 0 s = Some []"
| "unescape (Suc n) [] = Some []"
| "unescape (Suc n) (c # s) =
     (if c = CHR 0x00 then Some []
      else if c = CHR 0x5C then
        (case s of
           [] \<Rightarrow> (if n \<le> 1 then Some [CHR 0x00] else None)
         | d # s' \<Rightarrow> map_option ((#) d) (unescape (n - 1) s'))
      else map_option ((#) c) (unescape n s))"

definition copyStringWithEscapes :: "ValueTable \<Rightarrow> nat \<Rightarrow> string \<Rightarrow> nat \<Rightarrow> (ObjString \<times> ValueTable) option" where
  "copyStringWithEscapes strings addr chars len = do {
     heapChars \<leftarrow> unescape len chars;
     let hash = hashString heapChars;
     interned \<leftarrow> tableFindString strings heapChars hash;
     case interned of
       Some s \<Rightarrow> Some (s, strings)
     | None \<Rightarrow> allocateString strings addr heapChars hash
   }"

subsection \<open>Interning\<close>

definition strings_ok :: "ValueTable \<Rightarrow> bool" where
  "strings_ok t \<longleftrightarrow> table_ok value_slots t \<and>
     (\<forall>s \<in> dom (lookup t). s_hash s = hashString (s_chars s)) \<and>
     (\<forall>s \<in> dom (lookup t). \<forall>s' \<in> dom (lookup t). s_chars s = s_chars s' \<longrightarrow> s = s')"

text \<open>
  The hash adds the FNV prime where the FNV-1a function multiplies by it, so short strings collide.
\<close>

lemma hashString_collision: "hashString ''al'' = hashString ''ba''"
  by (simp add: hashString_def)

lemma strings_ok_init: "strings_ok initTable"
  using value_map.ok_empty value_map.assoc_empty by (simp add: strings_ok_def)

lemma copyString_ok:
  assumes "strings_ok t"
  shows "\<exists>s t'. copyString t addr chars = Some (s, t') \<and> strings_ok t' \<and> s_chars s = chars \<and>
    dom (lookup t') = insert s (dom (lookup t))"
proof -
  have ok: "table_ok value_slots t" using assms by (simp add: strings_ok_def)
  obtain r where r: "tableFindString t chars (hashString chars) = Some r"
    "case r of Some key \<Rightarrow> lookup t key \<noteq> None \<and> s_chars key = chars \<and> s_hash key = hashString chars
     | None \<Rightarrow> \<forall>key. s_chars key = chars \<and> s_hash key = hashString chars \<longrightarrow> lookup t key = None"
    using value_table.find_string_ok [OF ok] unfolding tableFindString_def by blast
  show ?thesis
  proof (cases r)
    case (Some s)
    then show ?thesis using r assms by (auto simp: copyString_def)
  next
    case None
    let ?s = "\<lparr>s_addr = addr, s_chars = chars, s_hash = hashString chars\<rparr>"
    obtain t' where t': "tableSet t ?s NIL_VAL = Some (lookup t ?s = None, t')" "table_ok value_slots t'"
        "lookup t' = (lookup t)(?s \<mapsto> NIL_VAL)"
      using value_map.set_law [OF ok] by blast
    have new: "s_chars s \<noteq> chars" if "s \<in> dom (lookup t)" for s
    proof
      assume "s_chars s = chars"
      moreover have "s_hash s = hashString (s_chars s)" using assms that unfolding strings_ok_def by blast
      ultimately show False using r None that by (simp add: domIff)
    qed
    have "strings_ok t'" using assms t' new unfolding strings_ok_def by auto
    then show ?thesis using r None t' by (auto simp: copyString_def allocateString_def Let_def)
  qed
qed

lemma takeString_copyString: "takeString = copyString"
  by (intro ext) (simp add: takeString_def copyString_def)

fun copy_all :: "(nat \<times> string) list \<Rightarrow> ValueTable \<Rightarrow> (ObjString list \<times> ValueTable) option" where
  "copy_all [] t = Some ([], t)"
| "copy_all ((addr, chars) # cs) t = do {
     (s, t') \<leftarrow> copyString t addr chars;
     (ss, t'') \<leftarrow> copy_all cs t';
     Some (s # ss, t'')
   }"

lemma copy_all_ok:
  "strings_ok t \<Longrightarrow> \<exists>ss t'. copy_all cs t = Some (ss, t') \<and> strings_ok t' \<and> map s_chars ss = map snd cs \<and>
     set ss \<subseteq> dom (lookup t') \<and> dom (lookup t) \<subseteq> dom (lookup t')"
proof (induction cs arbitrary: t)
  case (Cons c cs)
  obtain addr chars where c: "c = (addr, chars)" by (cases c)
  obtain s t1 where t1: "copyString t addr chars = Some (s, t1)" "strings_ok t1" "s_chars s = chars"
      "dom (lookup t1) = insert s (dom (lookup t))"
    using copyString_ok [OF Cons.prems] by blast
  obtain ss t2 where "copy_all cs t1 = Some (ss, t2)" "strings_ok t2" "map s_chars ss = map snd cs"
      "set ss \<subseteq> dom (lookup t2)" "dom (lookup t1) \<subseteq> dom (lookup t2)"
    using Cons.IH [OF t1(2)] by blast
  then show ?case using t1 c by auto
qed simp

text \<open>
  C29: Interning works: when strings are made one after the other with \<^verbatim>\<open>copyString\<close> (or
  \<^verbatim>\<open>takeString\<close>) from an empty string table, each call returns, each object has the characters
  asked for, and two of the objects are the same one exactly when their characters are equal, so
  comparing keys by address compares their text.
\<close>

theorem strings_are_interned:
  "takeString = copyString \<and>
   (\<exists>ss t. copy_all cs initTable = Some (ss, t) \<and> map s_chars ss = map snd cs \<and>
      (\<forall>i < length cs. \<forall>j < length cs. ss ! i = ss ! j \<longleftrightarrow> snd (cs ! i) = snd (cs ! j)))"
proof -
  obtain ss t where t: "copy_all cs initTable = Some (ss, t)" "strings_ok t" "map s_chars ss = map snd cs"
      "set ss \<subseteq> dom (lookup t)"
    using copy_all_ok [OF strings_ok_init] by blast
  have len: "length ss = length cs" using t(3) by (metis length_map)
  have ch: "s_chars (ss ! i) = snd (cs ! i)" if "i < length cs" for i
    using t(3) len that by (metis nth_map)
  have "ss ! i = ss ! j \<longleftrightarrow> snd (cs ! i) = snd (cs ! j)" if "i < length cs" "j < length cs" for i j
  proof -
    have "ss ! i \<in> dom (lookup t)" "ss ! j \<in> dom (lookup t)" using t(4) len that nth_mem by (metis subsetD)+
    then show ?thesis using t(2) ch that unfolding strings_ok_def by metis
  qed
  then show ?thesis using t takeString_copyString by blast
qed

theorem strings_are_interned_witness:
  "\<exists>ss t. copy_all [(1, ''a''), (2, ''b''), (3, ''a'')] initTable = Some (ss, t) \<and> ss ! 0 = ss ! 2 \<and> ss ! 0 \<noteq> ss ! 1"
proof -
  let ?cs = "[(1 :: nat, ''a''), (2, ''b''), (3, ''a'')]"
  obtain ss t where t: "copy_all ?cs initTable = Some (ss, t)"
    and eq: "\<forall>i < length ?cs. \<forall>j < length ?cs. ss ! i = ss ! j \<longleftrightarrow> snd (?cs ! i) = snd (?cs ! j)"
    using strings_are_interned [of ?cs] by blast
  have "ss ! 0 = ss ! 2" "ss ! 0 \<noteq> ss ! 1" by (simp_all only: eq [rule_format] list.size) simp_all
  with t show ?thesis by blast
qed

subsection \<open>Escapes\<close>

fun escape :: "string \<Rightarrow> string" where
  "escape [] = []"
| "escape (c # s) = (if c = CHR 0x22 \<or> c = CHR 0x5C then CHR 0x5C # c # escape s else c # escape s)"

text \<open>
  C30: A string literal in which every quote and backslash of a text is preceded by a backslash stands for
  that text: \<^verbatim>\<open>copyStringWithEscapes\<close> on it, whatever follows in the source, interns exactly the
  text.
\<close>

theorem escape_roundtrip:
  assumes "CHR 0x00 \<notin> set s"
  shows "unescape (length (escape s)) (escape s @ rest) = Some s \<and>
    copyStringWithEscapes t addr (escape s @ rest) (length (escape s)) = copyString t addr s"
proof -
  have "unescape (length (escape s)) (escape s @ rest) = Some s"
    using assms by (induction s) auto
  then show ?thesis by (simp add: copyStringWithEscapes_def copyString_def Let_def)
qed

theorem escape_roundtrip_witness:
  "unescape 4 (CHR 0x61 # CHR 0x5C # CHR 0x22 # ''b'' @ ''rest'') = Some (CHR 0x61 # CHR 0x22 # ''b'')"
  using escape_roundtrip [of "CHR 0x61 # CHR 0x22 # ''b''" "''rest''"]
  by (simp add: numeral_nat)

end
