(* ===== verification/Channel.thy ===== *)
theory Channel
  imports Value "HOL-Library.Monad_Syntax"
begin

section \<open>Channels and sync groups (\<^verbatim>\<open>src/cyarg/channel.c\<close>, \<^verbatim>\<open>sync_group.c\<close>)\<close>

text \<open>
  Channels are ring buffers of values that routines use to communicate, on two cores of a
  microcontroller (\<^verbatim>\<open>CYARG_PICO_BUSY_SYNC\<close>) or on threads of a hosted build
  (\<^verbatim>\<open>CYARG_PTHREADS_SYNC\<close>).
  \<^item> The part of an operation between \<^verbatim>\<open>channelMutexEnter\<close> and \<^verbatim>\<open>channelMutexLeave\<close> is one
    atomic function on the channel; the busy wait before it is a separate step, as the mutex does
    not cover it.
  \<^item> \<^verbatim>\<open>occupied\<close> is a \<^verbatim>\<open>size_t\<close>: decrementing zero wraps around.
  \<^item> The memory of the mutex and the registration with a sync group carry no data and are left out.
\<close>

record ObjChannelContainer =
  overflow :: bool
  writeCursor :: nat
  buffer :: "Value list"
  bufferSize :: nat
  occupied :: nat

definition newChannel :: "nat \<Rightarrow> ObjChannelContainer" where
  "newChannel cap = \<lparr>overflow = False, writeCursor = 0, buffer = replicate cap NIL_VAL, bufferSize = cap,
     occupied = 0\<rparr>"

definition readCursor :: "platform \<Rightarrow> ObjChannelContainer \<Rightarrow> nat" where
  "readCursor p ch =
     (let size = bufferSize ch
      in sz p (writeCursor ch + size + (2 ^ (8 * sizeof_ptr p) - occupied ch)) mod size)"

definition sendChannel :: "platform \<Rightarrow> ObjChannelContainer \<Rightarrow> Value \<Rightarrow> ObjChannelContainer" where
  "sendChannel p ch data =
     ch\<lparr>buffer := (buffer ch)[writeCursor ch := data],
        occupied := sz p (occupied ch + 1),
        writeCursor := (writeCursor ch + 1) mod bufferSize ch,
        overflow := False\<rparr>"

definition sendChannel_waits :: "ObjChannelContainer \<Rightarrow> bool" where
  "sendChannel_waits ch \<longleftrightarrow> occupied ch = bufferSize ch"

definition collectFromChannel :: "platform \<Rightarrow> ObjChannelContainer \<Rightarrow> Value \<times> ObjChannelContainer" where
  "collectFromChannel p ch =
     (buffer ch ! readCursor p ch,
      ch\<lparr>occupied := sz p (occupied ch + (2 ^ (8 * sizeof_ptr p) - 1)), overflow := False\<rparr>)"

definition receiveChannel_waits :: "ObjChannelContainer \<Rightarrow> bool" where
  "receiveChannel_waits ch \<longleftrightarrow> occupied ch = 0"

definition shareChannel :: "platform \<Rightarrow> ObjChannelContainer \<Rightarrow> Value \<Rightarrow> bool \<times> ObjChannelContainer" where
  "shareChannel p ch data =
     (let ch1 = ch\<lparr>buffer := (buffer ch)[writeCursor ch := data],
                   occupied := sz p (occupied ch + 1),
                   writeCursor := (writeCursor ch + 1) mod bufferSize ch\<rparr>;
          ch2 = (if occupied ch1 > bufferSize ch1
                 then ch1\<lparr>overflow := True, occupied := bufferSize ch1\<rparr> else ch1)
      in (overflow ch2, ch2))"

definition peekChannel :: "platform \<Rightarrow> ObjChannelContainer \<Rightarrow> Value" where
  "peekChannel p ch = (if occupied ch > 0 then buffer ch ! readCursor p ch else NIL_VAL)"

subsection \<open>Sync groups\<close>

text \<open>
  One pass of \<^verbatim>\<open>receiveSyncGroup\<close> over the channels of the group; an element of the array of
  channels may be nil. The result is the array of values and the channels after the pass.
\<close>

fun poll_channel :: "platform \<Rightarrow> ObjChannelContainer option \<Rightarrow> Value \<times> ObjChannelContainer option" where
  "poll_channel p None = (NIL_VAL, None)"
| "poll_channel p (Some ch) =
     (let data = peekChannel p ch
      in if \<not> is_nil data then (let (d, ch') = collectFromChannel p ch in (d, Some ch'))
         else (data, Some ch))"

definition poll_group ::
  "platform \<Rightarrow> ObjChannelContainer option list \<Rightarrow> Value list \<times> ObjChannelContainer option list" where
  "poll_group p chs = (map (fst \<circ> poll_channel p) chs, map (snd \<circ> poll_channel p) chs)"

text \<open>
  The loop. What other routines do to the channels between two passes is the list \<open>env\<close>; \<open>None\<close>
  is a loop that is still waiting at the end of the list.
\<close>

fun receiveSyncGroup ::
  "platform \<Rightarrow> (ObjChannelContainer option list \<Rightarrow> ObjChannelContainer option list) list \<Rightarrow>
     ObjChannelContainer option list \<Rightarrow> (Value list \<times> ObjChannelContainer option list) option" where
  "receiveSyncGroup p env chs =
     (if chs = [] then Some ([], [])
      else let (results, chs') = poll_group p chs
           in if \<exists>v \<in> set results. \<not> is_nil v then Some (results, chs')
              else (case env of [] \<Rightarrow> None | e # env' \<Rightarrow> receiveSyncGroup p env' (e chs')))"

declare receiveSyncGroup.simps [simp del]

subsection \<open>Routines on two cores\<close>

text \<open>
  Senders and receivers on one channel with busy waiting. A routine first leaves its wait loop when
  it sees that the channel is not full (not empty), and later runs the atomic part. The lists of
  values sent and received are a history of the run.
\<close>

record channel_system =
  chan :: ObjChannelContainer
  sending :: "nat \<Rightarrow> Value option"
  receiving :: "nat \<Rightarrow> bool"
  sent :: "Value list"
  received :: "Value list"

inductive channel_step :: "platform \<Rightarrow> nat \<Rightarrow> nat \<Rightarrow> channel_system \<Rightarrow> channel_system \<Rightarrow> bool"
  for p :: platform and senders receivers :: nat where
  send_wait: "i < senders \<Longrightarrow> sending s i = None \<Longrightarrow> \<not> sendChannel_waits (chan s) \<Longrightarrow>
     channel_step p senders receivers s (s\<lparr>sending := (sending s)(i := Some v)\<rparr>)"
| send_body: "i < senders \<Longrightarrow> sending s i = Some v \<Longrightarrow>
     channel_step p senders receivers s
       (s\<lparr>chan := sendChannel p (chan s) v, sending := (sending s)(i := None), sent := sent s @ [v]\<rparr>)"
| receive_wait: "j < receivers \<Longrightarrow> \<not> receiving s j \<Longrightarrow> \<not> receiveChannel_waits (chan s) \<Longrightarrow>
     channel_step p senders receivers s (s\<lparr>receiving := (receiving s)(j := True)\<rparr>)"
| receive_body: "j < receivers \<Longrightarrow> receiving s j \<Longrightarrow> collectFromChannel p (chan s) = (v, ch') \<Longrightarrow>
     channel_step p senders receivers s
       (s\<lparr>chan := ch', receiving := (receiving s)(j := False), received := received s @ [v]\<rparr>)"

definition channel_start :: "nat \<Rightarrow> channel_system" where
  "channel_start cap = \<lparr>chan = newChannel cap, sending = (\<lambda>_. None), receiving = (\<lambda>_. False), sent = [], received = []\<rparr>"

inductive channel_reachable :: "platform \<Rightarrow> nat \<Rightarrow> nat \<Rightarrow> nat \<Rightarrow> channel_system \<Rightarrow> bool"
  for p :: platform and senders receivers cap :: nat where
  start: "channel_reachable p senders receivers cap (channel_start cap)"
| step: "channel_reachable p senders receivers cap s \<Longrightarrow> channel_step p senders receivers s s' \<Longrightarrow>
     channel_reachable p senders receivers cap s'"

subsection \<open>Threads\<close>

text \<open>
  The hosted build waits on a semaphore instead: every channel opens the semaphore of the same
  name, so there is one count for all channels. A sender does not wait.
\<close>

record thread_system =
  semaphore :: nat
  channels :: "nat \<Rightarrow> ObjChannelContainer"

definition thread_send :: "platform \<Rightarrow> nat \<Rightarrow> Value \<Rightarrow> thread_system \<Rightarrow> thread_system" where
  "thread_send p c v s =
     s\<lparr>channels := (channels s)(c := sendChannel p (channels s c) v), semaphore := semaphore s + 1\<rparr>"

definition thread_receive :: "platform \<Rightarrow> nat \<Rightarrow> thread_system \<Rightarrow> (Value \<times> thread_system) option" where
  "thread_receive p c s =
     (if semaphore s = 0 then None
      else let (v, ch) = collectFromChannel p (channels s c)
           in Some (v, s\<lparr>channels := (channels s)(c := ch), semaphore := semaphore s - 1\<rparr>))"

end
