(* ===== verification/Channel_Theorems.thy ===== *)
theory Channel_Theorems
  imports Channel
begin

section \<open>Channels as bounded queues\<close>

definition chan_ok :: "platform \<Rightarrow> ObjChannelContainer \<Rightarrow> bool" where
  "chan_ok p ch \<longleftrightarrow> 0 < bufferSize ch \<and> 2 * bufferSize ch < 2 ^ (8 * sizeof_ptr p) \<and>
     length (buffer ch) = bufferSize ch \<and> writeCursor ch < bufferSize ch \<and> occupied ch \<le> bufferSize ch \<and>
     (overflow ch \<longrightarrow> occupied ch = bufferSize ch)"

text \<open>The values in the channel, the oldest first.\<close>

definition contents :: "platform \<Rightarrow> ObjChannelContainer \<Rightarrow> Value list" where
  "contents p ch = map (\<lambda>i. buffer ch ! ((readCursor p ch + i) mod bufferSize ch)) [0..<occupied ch]"

lemma length_contents [simp]: "length (contents p ch) = occupied ch"
  by (simp add: contents_def)

lemma readCursor_ok:
  assumes "chan_ok p ch"
  shows "readCursor p ch = (writeCursor ch + (bufferSize ch - occupied ch)) mod bufferSize ch"
proof -
  let ?W = "2 ^ (8 * sizeof_ptr p) :: nat" and ?r = "writeCursor ch + (bufferSize ch - occupied ch)"
  have b: "occupied ch \<le> bufferSize ch" "bufferSize ch < ?W" "?r < ?W"
    using assms by (auto simp: chan_ok_def)
  then have "writeCursor ch + bufferSize ch + (?W - occupied ch) = ?r + ?W" by linarith
  moreover have "(?r + ?W) mod ?W = ?r" using b(3) by simp
  ultimately show ?thesis by (simp only: readCursor_def sz_def Let_def)
qed

lemma contents_nth:
  assumes "chan_ok p ch" "i < occupied ch"
  shows "contents p ch ! i = buffer ch ! ((writeCursor ch + (bufferSize ch - occupied ch + i)) mod bufferSize ch)"
  using assms by (simp add: contents_def readCursor_ok mod_simps add.assoc)

lemma mod_shift_neq:
  fixes w d n :: nat
  assumes "w < n" "0 < d" "d < n"
  shows "(w + d) mod n \<noteq> w"
proof (cases "w + d < n")
  case False
  then have "(w + d) mod n = w + d - n" using assms by (simp add: mod_if)
  then show ?thesis using False assms by linarith
qed (use assms in simp)

lemma sz_Suc: "chan_ok p ch \<Longrightarrow> sz p (Suc (occupied ch)) = Suc (occupied ch)"
  by (simp add: chan_ok_def sz_def)

lemma send_ok:
  assumes ok: "chan_ok p ch" and room: "occupied ch < bufferSize ch"
  shows "chan_ok p (sendChannel p ch v)" "contents p (sendChannel p ch v) = contents p ch @ [v]"
proof -
  let ?ch = "sendChannel p ch v" and ?n = "bufferSize ch"
  show ok': "chan_ok p ?ch" using assms sz_Suc [OF ok] by (auto simp: chan_ok_def sendChannel_def)
  have occ: "occupied ?ch = Suc (occupied ch)" using sz_Suc [OF ok] by (simp add: sendChannel_def)
  show "contents p ?ch = contents p ch @ [v]"
  proof (rule nth_equalityI)
    fix i assume "i < length (contents p ?ch)"
    then have i: "i \<le> occupied ch" using occ by simp
    have "contents p ?ch ! i = (buffer ch)[writeCursor ch := v] !
        (((writeCursor ch + 1) mod ?n + (?n - Suc (occupied ch) + i)) mod ?n)"
      using contents_nth [OF ok', of i] i occ by (simp add: sendChannel_def)
    also have "((writeCursor ch + 1) mod ?n + (?n - Suc (occupied ch) + i)) mod ?n =
        (writeCursor ch + (?n - occupied ch + i)) mod ?n"
    proof -
      have "writeCursor ch + 1 + (?n - Suc (occupied ch) + i) = writeCursor ch + (?n - occupied ch + i)"
        using room by linarith
      then show ?thesis by (simp only: mod_add_left_eq)
    qed
    finally have c: "contents p ?ch ! i =
        (buffer ch)[writeCursor ch := v] ! ((writeCursor ch + (?n - occupied ch + i)) mod ?n)" .
    show "contents p ?ch ! i = (contents p ch @ [v]) ! i"
    proof (cases "i = occupied ch")
      case True
      then show ?thesis using c ok room by (simp add: nth_append chan_ok_def)
    next
      case False
      then have "(writeCursor ch + (?n - occupied ch + i)) mod ?n \<noteq> writeCursor ch"
        using i ok room by (intro mod_shift_neq) (auto simp: chan_ok_def)
      then show ?thesis using c contents_nth [OF ok, of i] i False by (simp add: nth_append)
    qed
  qed (use occ in simp)
qed

lemma collect_ok:
  assumes ok: "chan_ok p ch" and some: "0 < occupied ch" and c: "collectFromChannel p ch = (v, ch')"
  shows "chan_ok p ch'" "contents p ch = v # contents p ch'" "bufferSize ch' = bufferSize ch"
proof -
  let ?n = "bufferSize ch"
  have "bufferSize ch < 2 ^ (8 * sizeof_ptr p)" using ok by (auto simp: chan_ok_def)
  then have "sz p (occupied ch + (2 ^ (8 * sizeof_ptr p) - 1)) = occupied ch - 1"
    using some ok by (cases "occupied ch") (auto simp: sz_def chan_ok_def)
  then have ch': "ch' = ch\<lparr>occupied := occupied ch - 1, overflow := False\<rparr>" and v: "v = buffer ch ! readCursor p ch"
    using c by (simp_all add: collectFromChannel_def)
  show ok': "chan_ok p ch'" using ok ch' by (auto simp: chan_ok_def)
  show "bufferSize ch' = bufferSize ch" using ch' by simp
  show "contents p ch = v # contents p ch'"
  proof (rule nth_equalityI)
    fix i assume "i < length (contents p ch)"
    then have i: "i < occupied ch" by simp
    show "contents p ch ! i = (v # contents p ch') ! i"
    proof (cases i)
      case 0
      then show ?thesis using contents_nth [OF ok i] v readCursor_ok [OF ok] by simp
    next
      case (Suc j)
      have "?n - occupied ch + Suc j = ?n - (occupied ch - 1) + j" using i Suc ok by (auto simp: chan_ok_def)
      then have "contents p ch ! i = buffer ch ! ((writeCursor ch + (?n - (occupied ch - 1) + j)) mod ?n)"
        unfolding contents_nth [OF ok i] unfolding Suc by (simp only:)
      also have "\<dots> = contents p ch' ! j" using contents_nth [OF ok', of j] i Suc ch' by simp
      finally show ?thesis using Suc by simp
    qed
  qed (use some ch' in simp)
qed

lemma share_ok:
  assumes ok: "chan_ok p ch" and c: "shareChannel p ch v = (b, ch')"
  shows "chan_ok p ch'" "b = (occupied ch = bufferSize ch)" "bufferSize ch' = bufferSize ch"
    "contents p ch' = (if occupied ch = bufferSize ch then tl (contents p ch) else contents p ch) @ [v]"
proof -
  let ?n = "bufferSize ch"
  show "chan_ok p ch'" "b = (occupied ch = bufferSize ch)" "bufferSize ch' = bufferSize ch"
    using ok c sz_Suc [OF ok] by (auto simp: shareChannel_def Let_def chan_ok_def split: if_splits)
  note ok' = this(1)
  show "contents p ch' = (if occupied ch = bufferSize ch then tl (contents p ch) else contents p ch) @ [v]"
  proof (cases "occupied ch = bufferSize ch")
    case False
    then have "occupied ch < bufferSize ch" using ok by (simp add: chan_ok_def)
    moreover have "overflow ch = False" using ok False by (auto simp: chan_ok_def)
    then have "ch' = sendChannel p ch v"
      using c \<open>occupied ch < bufferSize ch\<close> sz_Suc [OF ok] by (auto simp: shareChannel_def sendChannel_def Let_def)
    ultimately show ?thesis using send_ok [OF ok] by simp
  next
    case True
    then have ch': "buffer ch' = (buffer ch)[writeCursor ch := v]" "occupied ch' = ?n" "bufferSize ch' = ?n"
        "writeCursor ch' = (writeCursor ch + 1) mod ?n"
      using c ok sz_Suc [OF ok] by (auto simp: shareChannel_def Let_def chan_ok_def)
    have pos: "0 < ?n" "writeCursor ch < ?n" "length (buffer ch) = ?n" using ok by (auto simp: chan_ok_def)
    have "contents p ch' = tl (contents p ch) @ [v]"
    proof (rule nth_equalityI)
      fix i assume "i < length (contents p ch')"
      then have i: "i < ?n" using ch' by simp
      have c': "contents p ch' ! i = (buffer ch)[writeCursor ch := v] ! ((writeCursor ch + Suc i) mod ?n)"
        using contents_nth [OF ok', of i] i ch' by (simp add: mod_simps)
      show "contents p ch' ! i = (tl (contents p ch) @ [v]) ! i"
      proof (cases "Suc i = ?n")
        case last: True
        then have "(writeCursor ch + Suc i) mod ?n = writeCursor ch" using pos by simp
        moreover have "length (tl (contents p ch)) = i" using last True by simp
        ultimately show ?thesis using c' pos by (simp only: nth_append) simp
      next
        case False
        then have lt: "Suc i < ?n" using i by simp
        then have "(writeCursor ch + Suc i) mod ?n \<noteq> writeCursor ch" using pos by (intro mod_shift_neq) auto
        moreover have "(tl (contents p ch) @ [v]) ! i = contents p ch ! Suc i"
          using lt True by (simp add: nth_append nth_tl less_diff_conv)
        ultimately show ?thesis using c' contents_nth [OF ok, of "Suc i"] lt True by simp
      qed
    qed (use ch' True pos in simp)
    then show ?thesis using True by simp
  qed
qed

subsection \<open>The contract of a bounded queue\<close>

locale bounded_fifo =
  fixes ok :: "'c \<Rightarrow> bool" and size_of :: "'c \<Rightarrow> nat" and items :: "'c \<Rightarrow> 'a list"
    and put :: "'c \<Rightarrow> 'a \<Rightarrow> 'c" and collect :: "'c \<Rightarrow> 'a \<times> 'c" and share :: "'c \<Rightarrow> 'a \<Rightarrow> bool \<times> 'c"
  assumes bounded: "ok c \<Longrightarrow> length (items c) \<le> size_of c" and size_pos: "ok c \<Longrightarrow> 0 < size_of c"
    and put_law: "ok c \<Longrightarrow> length (items c) < size_of c \<Longrightarrow>
      ok (put c v) \<and> items (put c v) = items c @ [v] \<and> size_of (put c v) = size_of c"
    and collect_law: "ok c \<Longrightarrow> items c \<noteq> [] \<Longrightarrow> collect c = (v, c') \<Longrightarrow>
      ok c' \<and> items c = v # items c' \<and> size_of c' = size_of c"
    and share_law: "ok c \<Longrightarrow> share c v = (b, c') \<Longrightarrow>
      ok c' \<and> b = (length (items c) = size_of c) \<and> size_of c' = size_of c \<and>
      items c' = (if length (items c) = size_of c then tl (items c) else items c) @ [v]"
begin

lemma put_collect:
  assumes "ok c" "items c = []"
  shows "\<exists>c'. collect (put c v) = (v, c') \<and> ok c' \<and> items c' = []"
proof -
  have p: "ok (put c v)" "items (put c v) = [v]" using put_law [of c v] size_pos assms by auto
  obtain w c' where "collect (put c v) = (w, c')" by fastforce
  then show ?thesis using collect_law [OF p(1)] p(2) by auto
qed

lemma share_never_blocks: "ok c \<Longrightarrow> \<exists>c'. share c v = (length (items c) = size_of c, c') \<and> ok c' \<and> last (items c') = v"
  using share_law [of c v] by (cases "share c v") auto

end

lemma channel_bufferSize [simp]: "bufferSize (sendChannel p ch v) = bufferSize ch"
  by (simp add: sendChannel_def)

interpretation chq: bounded_fifo "chan_ok p" bufferSize "contents p" "sendChannel p" "collectFromChannel p"
    "shareChannel p" for p
proof
  fix c v c' b
  assume ok: "chan_ok p c"
  then show "length (contents p c) \<le> bufferSize c" "0 < bufferSize c" by (auto simp: chan_ok_def)
  show "chan_ok p (sendChannel p c v) \<and> contents p (sendChannel p c v) = contents p c @ [v] \<and>
      bufferSize (sendChannel p c v) = bufferSize c" if "length (contents p c) < bufferSize c"
    using send_ok [OF ok] that by simp
  show "chan_ok p c' \<and> contents p c = v # contents p c' \<and> bufferSize c' = bufferSize c"
    if "contents p c \<noteq> []" "collectFromChannel p c = (v, c')"
  proof -
    have "0 < occupied c" using that(1) by (metis length_contents length_greater_0_conv)
    then show ?thesis using collect_ok [OF ok _ that(2)] by simp
  qed
  show "chan_ok p c' \<and> b = (length (contents p c) = bufferSize c) \<and> bufferSize c' = bufferSize c \<and>
      contents p c' = (if length (contents p c) = bufferSize c then tl (contents p c) else contents p c) @ [v]"
    if "shareChannel p c v = (b, c')"
    using share_ok [OF ok that] by simp
qed

text \<open>
  C31: A channel is a bounded queue. For a channel that is not full, \<^verbatim>\<open>sendChannel\<close> appends the
  value; for one that is not empty, \<^verbatim>\<open>collectFromChannel\<close> returns and removes the oldest value;
  \<^verbatim>\<open>shareChannel\<close> always succeeds, drops the oldest value of a full channel, and returns whether
  it did; \<^verbatim>\<open>peekChannel\<close> shows the oldest value, or nil. Every operation keeps the cursors and
  the count within the buffer.
\<close>

theorem channel_is_bounded_queue:
  assumes "chan_ok p ch"
  shows "(occupied ch < bufferSize ch \<longrightarrow>
      chan_ok p (sendChannel p ch v) \<and> contents p (sendChannel p ch v) = contents p ch @ [v]) \<and>
    (occupied ch > 0 \<longrightarrow> (case collectFromChannel p ch of (w, ch') \<Rightarrow>
      chan_ok p ch' \<and> contents p ch = w # contents p ch')) \<and>
    (case shareChannel p ch v of (b, ch') \<Rightarrow>
      chan_ok p ch' \<and> b = (occupied ch = bufferSize ch) \<and>
      contents p ch' = (if occupied ch = bufferSize ch then tl (contents p ch) else contents p ch) @ [v]) \<and>
    peekChannel p ch = (case contents p ch of [] \<Rightarrow> NIL_VAL | w # _ \<Rightarrow> w)"
proof -
  have "peekChannel p ch = (case contents p ch of [] \<Rightarrow> NIL_VAL | w # _ \<Rightarrow> w)"
  proof (cases "occupied ch = 0")
    case False
    obtain w ch' where c: "collectFromChannel p ch = (w, ch')" by fastforce
    then have "contents p ch = w # contents p ch'" using collect_ok [OF assms] False by simp
    then show ?thesis using c False by (simp add: peekChannel_def collectFromChannel_def)
  qed (simp add: peekChannel_def contents_def)
  moreover obtain w c1 b c2 where "collectFromChannel p ch = (w, c1)" "shareChannel p ch v = (b, c2)" by fastforce
  moreover note send_ok [OF assms, of v] collect_ok [OF assms _ calculation(2)] share_ok [OF assms calculation(3)]
  ultimately show ?thesis by simp
qed

theorem channel_is_bounded_queue_witness:
  "contents Bits32 (sendChannel Bits32 (newChannel 2) (BOOL_VAL True)) = [BOOL_VAL True]"
proof -
  have "chan_ok Bits32 (newChannel 2)" by (simp add: chan_ok_def newChannel_def sizeof_ptr_def)
  from channel_is_bounded_queue [OF this, of "BOOL_VAL True"] show ?thesis
    by (simp add: newChannel_def contents_def)
qed

subsection \<open>One sender and one receiver\<close>

definition system_ok :: "platform \<Rightarrow> nat \<Rightarrow> channel_system \<Rightarrow> bool" where
  "system_ok p cap s \<longleftrightarrow> chan_ok p (chan s) \<and> bufferSize (chan s) = cap \<and>
     sent s = received s @ contents p (chan s) \<and>
     (sending s 0 \<noteq> None \<longrightarrow> occupied (chan s) < cap) \<and> (receiving s 0 \<longrightarrow> 0 < occupied (chan s))"

lemma occupied_send: "chan_ok p ch \<Longrightarrow> occupied (sendChannel p ch v) = Suc (occupied ch)"
  by (simp add: sendChannel_def sz_Suc)

lemma system_step:
  assumes "system_ok p cap s" "channel_step p (Suc 0) (Suc 0) s s'"
  shows "system_ok p cap s'"
  using assms(2)
proof (cases rule: channel_step.cases)
  case (send_wait i v)
  then show ?thesis using assms(1) by (auto simp: system_ok_def sendChannel_waits_def chan_ok_def)
next
  case (send_body i v)
  then have "occupied (chan s) < bufferSize (chan s)" "chan_ok p (chan s)"
    using assms(1) by (auto simp: system_ok_def)
  then show ?thesis using send_body assms(1) send_ok [of p "chan s" v] by (auto simp: system_ok_def occupied_send)
next
  case (receive_wait j)
  then show ?thesis using assms(1) by (auto simp: system_ok_def receiveChannel_waits_def)
next
  case (receive_body j v ch')
  then have ok: "chan_ok p (chan s)" "0 < occupied (chan s)" using assms(1) by (auto simp: system_ok_def)
  note c = collect_ok [OF ok receive_body(4)]
  have "occupied ch' < occupied (chan s)" using c(2) by (metis length_Cons length_contents lessI)
  then show ?thesis using receive_body assms(1) c by (auto simp: system_ok_def)
qed

lemma system_reachable:
  assumes "0 < cap" "2 * cap < 2 ^ (8 * sizeof_ptr p)" "channel_reachable p (Suc 0) (Suc 0) cap s"
  shows "system_ok p cap s"
  using assms(3)
proof induction
  case start
  then show ?case using assms(1,2)
    by (simp add: system_ok_def channel_start_def newChannel_def chan_ok_def contents_def)
qed (use system_step in blast)

text \<open>
  C32: Between one sender and one receiver that run on two cores, with every interleaving of the
  busy-wait tests and the locked sections, no value is lost, duplicated or reordered: the values
  received so far followed by those in the buffer are the values sent, at most the capacity of them
  is in the buffer, and the count never wraps.
\<close>

theorem single_sender_receiver_fifo:
  assumes "0 < cap" "2 * cap < 2 ^ (8 * sizeof_ptr p)" "channel_reachable p 1 1 cap s"
  shows "sent s = received s @ contents p (chan s) \<and> length (contents p (chan s)) \<le> cap"
  using system_reachable [of cap p s] assms by (simp add: system_ok_def chan_ok_def)

theorem single_sender_receiver_fifo_witness:
  "\<exists>s. channel_reachable Bits32 1 1 2 s \<and> sent s = received s @ contents Bits32 (chan s)"
  using single_sender_receiver_fifo [of 2 Bits32 "channel_start 2"] channel_reachable.start [of Bits32 1 1 2]
  by (auto simp: sizeof_ptr_def)



text \<open>
  C34: With two senders the test for a full channel is not safe, because it is made before the lock is
  taken: on a channel with one place, both senders can pass the test, and then the channel counts
  two values where there is room for one and the value sent first is lost.
\<close>

theorem two_senders_overrun:
  assumes "a \<noteq> b"
  shows "\<exists>s. channel_reachable p 2 1 1 s \<and> occupied (chan s) = 2 \<and> bufferSize (chan s) = 1 \<and>
    sent s = [a, b] \<and> a \<notin> set (buffer (chan s))"
proof -
  let ?s0 = "channel_start 1"
  let ?s1 = "?s0\<lparr>sending := (sending ?s0)(0 := Some a)\<rparr>"
  let ?s2 = "?s1\<lparr>sending := (sending ?s1)(1 := Some b)\<rparr>"
  let ?s3 = "?s2\<lparr>chan := sendChannel p (chan ?s2) a, sending := (sending ?s2)(0 := None), sent := sent ?s2 @ [a]\<rparr>"
  let ?s4 = "?s3\<lparr>chan := sendChannel p (chan ?s3) b, sending := (sending ?s3)(1 := None), sent := sent ?s3 @ [b]\<rparr>"
  have "channel_step p 2 1 ?s0 ?s1" "channel_step p 2 1 ?s1 ?s2"
    by (rule send_wait; simp add: channel_start_def sendChannel_waits_def newChannel_def)+
  moreover have "channel_step p 2 1 ?s2 ?s3" "channel_step p 2 1 ?s3 ?s4"
    by (rule send_body; simp add: channel_start_def)+
  ultimately have "channel_reachable p 2 1 1 ?s4"
    by (meson channel_reachable.start channel_reachable.step)
  moreover have "sz p (Suc 0) = Suc 0" "sz p 2 = 2" "sz p (Suc (Suc 0)) = 2" by (cases p; simp add: sz_def sizeof_ptr_def)+
  ultimately show ?thesis using assms
    by (intro exI [of _ ?s4]) (simp add: channel_start_def newChannel_def sendChannel_def)
qed

theorem two_senders_overrun_witness:
  "\<exists>s. channel_reachable Bits32 2 1 1 s \<and> occupied (chan s) = 2 \<and> sent s = [BOOL_VAL True, BOOL_VAL False]"
  using two_senders_overrun [of "BOOL_VAL True" "BOOL_VAL False" Bits32] by auto

text \<open>
  In the hosted build the channels share one semaphore, so a value sent on one channel lets a receiver
  of another, empty channel go on, whose count then wraps around.
\<close>

lemma shared_semaphore_underflow:
  assumes "c \<noteq> d"
  shows "\<exists>v s'. thread_receive p d (thread_send p c x \<lparr>semaphore = 0, channels = (\<lambda>_. newChannel cap)\<rparr>) = Some (v, s') \<and>
    occupied (channels s' d) = 2 ^ (8 * sizeof_ptr p) - 1"
  using assms by (cases p)
    (simp_all add: thread_receive_def thread_send_def collectFromChannel_def newChannel_def sz_def sizeof_ptr_def)

text \<open>A sender of the hosted build does not wait: a full channel overruns, and its oldest value is overwritten.\<close>

lemma hosted_send_overruns:
  assumes "chan_ok p ch" "occupied ch = bufferSize ch"
  shows "occupied (sendChannel p ch v) = bufferSize (sendChannel p ch v) + 1"
  using assms occupied_send [OF assms(1)] by simp

subsection \<open>Sync groups\<close>

definition group_ok :: "platform \<Rightarrow> ObjChannelContainer option list \<Rightarrow> bool" where
  "group_ok p chs \<longleftrightarrow> (\<forall>ch. Some ch \<in> set chs \<longrightarrow> chan_ok p ch)"

definition head_value :: "platform \<Rightarrow> ObjChannelContainer option \<Rightarrow> Value" where
  "head_value p c = (case c of None \<Rightarrow> NIL_VAL | Some ch \<Rightarrow> (case contents p ch of [] \<Rightarrow> NIL_VAL | v # _ \<Rightarrow> v))"

definition queue_of :: "platform \<Rightarrow> ObjChannelContainer option \<Rightarrow> Value list" where
  "queue_of p c = (case c of None \<Rightarrow> [] | Some ch \<Rightarrow> contents p ch)"

lemma peek_head: "chan_ok p ch \<Longrightarrow> peekChannel p ch = head_value p (Some ch)"
  using collect_ok [of p ch "fst (collectFromChannel p ch)" "snd (collectFromChannel p ch)"]
  by (cases "occupied ch") (auto simp: peekChannel_def head_value_def contents_def collectFromChannel_def)

lemma poll_channel_ok:
  assumes "\<forall>ch. c = Some ch \<longrightarrow> chan_ok p ch" "poll_channel p c = (v, c')"
  shows "v = head_value p c" "\<forall>ch. c' = Some ch \<longrightarrow> chan_ok p ch"
    "queue_of p c' = (if is_nil (head_value p c) then queue_of p c else tl (queue_of p c))"
proof -
  have "v = head_value p c \<and> (\<forall>ch. c' = Some ch \<longrightarrow> chan_ok p ch) \<and>
    queue_of p c' = (if is_nil (head_value p c) then queue_of p c else tl (queue_of p c))"
  proof (cases c)
    case None
    then show ?thesis using assms(2) by (simp add: head_value_def queue_of_def)
  next
    case (Some ch)
    then have ok: "chan_ok p ch" using assms(1) by simp
    obtain w ch1 where c1: "collectFromChannel p ch = (w, ch1)" by fastforce
    note peek = peek_head [OF ok]
    show ?thesis
    proof (cases "is_nil (head_value p c)")
      case True
      then have "v = head_value p c" "c' = c" using assms(2) Some peek by (auto simp: Let_def)
      then show ?thesis using True assms(1) by simp
    next
      case False
      then have "0 < occupied ch" using Some by (cases "occupied ch") (auto simp: head_value_def contents_def)
      then show ?thesis using False assms(2) Some peek c1 collect_ok [OF ok _ c1] by (auto simp: queue_of_def head_value_def)
    qed
  qed
  then show "v = head_value p c" "\<forall>ch. c' = Some ch \<longrightarrow> chan_ok p ch"
    "queue_of p c' = (if is_nil (head_value p c) then queue_of p c else tl (queue_of p c))" by auto
qed



text \<open>
  A nil that was sent is never received through a sync group: it stays the oldest value of its
  channel, and while every channel of the group is empty or has a nil in front the call keeps
  waiting, whatever is queued behind the nil.
\<close>

lemma sync_group_waits_on_nil:
  assumes "chs \<noteq> []" "group_ok p chs" "\<forall>c \<in> set chs. is_nil (head_value p c)"
  shows "receiveSyncGroup p (replicate n (\<lambda>cs. cs)) chs = None"
proof -
  have same: "poll_channel p c = (head_value p c, c)" if "c \<in> set chs" for c
  proof (cases c)
    case (Some ch)
    then have "chan_ok p ch" using assms(2) that by (simp add: group_ok_def)
    then show ?thesis using Some assms(3) that by (auto simp: peek_head Let_def)
  qed (simp add: head_value_def)
  then have poll: "poll_group p chs = (map (head_value p) chs, chs)" by (simp add: poll_group_def map_idI)
  have step: "receiveSyncGroup p env chs =
      (case env of [] \<Rightarrow> None | e # env' \<Rightarrow> receiveSyncGroup p env' (e chs))" for env
    using assms(1,3) by (subst receiveSyncGroup.simps) (simp add: poll)
  show ?thesis
  proof (induction n)
    case 0
    show ?case by (simp add: step [of "[]"])
  next
    case (Suc n)
    then show ?case unfolding replicate_Suc step [of "(\<lambda>cs. cs) # _"] by simp
  qed
qed

end
