(* ===== verification/VmOps.thy ===== *)
theory VmOps
  imports Packed
begin

section \<open>Operators of the virtual machine on values (\<^verbatim>\<open>src/cyarg/vm.c\<close>)\<close>

text \<open>
  The operators that \<^verbatim>\<open>run\<close> applies to the operands on top of the stack, as functions of these
  operands. C converts operands narrower than \<^verbatim>\<open>int\<close> to \<^verbatim>\<open>int\<close> before it computes.
  \<^item> \<open>Fault\<close> is an operation that C leaves undefined (overflow of a signed type, division by zero, a
    shift by the width or more) or a failed assertion; \<open>TypeError\<close> is the run-time error of the
    operator.
  \<^item> The arithmetic of doubles is that of the machine: it is the argument \<open>fop\<close>.
\<close>

unbundle bit_operations_syntax

datatype op_result = Result Value | TypeError | Fault

definition result_of :: "('a \<Rightarrow> Value) \<Rightarrow> 'a option \<Rightarrow> op_result" where
  "result_of c r = (case r of None \<Rightarrow> Fault | Some x \<Rightarrow> Result (c x))"

subsection \<open>Promotion of literals\<close>

definition promote_to :: "YargType option \<Rightarrow> Int_struct \<Rightarrow> Value" where
  "promote_to promoteTo bigInt =
     (if typesEqual promoteTo (Some TypeInt8) \<and> int_is_range bigInt (- 0x80) 0x7F = INT_WITHIN
      then I8_VAL (ucast (int_to_i32 bigInt))
      else if typesEqual promoteTo (Some TypeUint8) \<and> int_is_range bigInt 0 0xFF = INT_WITHIN
      then UI8_VAL (ucast (int_to_u32 bigInt))
      else if typesEqual promoteTo (Some TypeUint16) \<and> int_is_range bigInt (- 0x8000) 0x7FFF = INT_WITHIN
      then UI16_VAL (ucast (int_to_i32 bigInt))
      else if typesEqual promoteTo (Some TypeUint16) \<and> int_is_range bigInt 0 0xFFFF = INT_WITHIN
      then UI16_VAL (ucast (int_to_u32 bigInt))
      else if typesEqual promoteTo (Some TypeInt32) \<and> int_is_range bigInt (- 0x80000000) 0x7FFFFFFF = INT_WITHIN
      then I32_VAL (int_to_i32 bigInt)
      else if typesEqual promoteTo (Some TypeUint32) \<and> int_is_range bigInt 0 0xFFFFFFFF = INT_WITHIN
      then UI32_VAL (int_to_u32 bigInt)
      else if typesEqual promoteTo (Some TypeInt64) \<and> int_is_range bigInt INT64_MIN 0x7FFFFFFFFFFFFFFF = INT_WITHIN
      then I64_VAL (int_to_i64 bigInt)
      else if typesEqual promoteTo (Some TypeUint64) \<and> int_is_range bigInt 0 0xFFFFFFFFFFFFFFFF = INT_WITHIN
      then UI64_VAL (int_to_u64 bigInt)
      else INT_VAL bigInt)"

fun is_literal :: "Value \<Rightarrow> bool" where
  "is_literal (INT_VAL i) = i_literal i"
| "is_literal _ = False"

definition promote :: "Value \<Rightarrow> Value \<Rightarrow> Value \<times> Value" where
  "promote left right =
     (case left of
        INT_VAL i \<Rightarrow> if i_literal i then (promote_to (value_type right) i, right)
                    else (case right of INT_VAL j \<Rightarrow> (left, if i_literal j then promote_to (value_type left) j else right)
                          | _ \<Rightarrow> (left, right))
      | _ \<Rightarrow> (case right of INT_VAL j \<Rightarrow> (left, if i_literal j then promote_to (value_type left) j else right)
              | _ \<Rightarrow> (left, right)))"

subsection \<open>Arithmetic\<close>

definition c_exact :: "int_op \<Rightarrow> int \<Rightarrow> int \<Rightarrow> int" where
  "c_exact opr a b = (case opr of OpAdd \<Rightarrow> a + b | OpSub \<Rightarrow> a - b | OpMul \<Rightarrow> a * b | OpDiv \<Rightarrow> a sdiv b | OpMod \<Rightarrow> a smod b)"

text \<open>An operator of C on a signed or an unsigned type of \<open>w\<close> bits.\<close>

definition c_signed :: "nat \<Rightarrow> int_op \<Rightarrow> int \<Rightarrow> int \<Rightarrow> int option" where
  "c_signed w opr a b =
     (if opr \<in> {OpDiv, OpMod} \<and> b = 0 then None
      else let r = c_exact (if opr = OpMod then OpDiv else opr) a b
           in if - (2 ^ (w - 1)) \<le> r \<and> r < 2 ^ (w - 1) then Some (c_exact opr a b) else None)"

definition c_unsigned :: "nat \<Rightarrow> int_op \<Rightarrow> int \<Rightarrow> int \<Rightarrow> int option" where
  "c_unsigned w opr a b =
     (if opr \<in> {OpDiv, OpMod} \<and> b = 0 then None else Some (c_exact opr a b mod 2 ^ w))"

text \<open>The macro \<^verbatim>\<open>BINARY_OP\<close>.\<close>

definition BINARY_OP :: "(int_op \<Rightarrow> u64 \<Rightarrow> u64 \<Rightarrow> u64) \<Rightarrow> int_op \<Rightarrow> Value \<Rightarrow> Value \<Rightarrow> op_result" where
  "BINARY_OP fop opr left right =
     (case promote left right of
        (I32_VAL a, I32_VAL b) \<Rightarrow> result_of (\<lambda>r. I32_VAL (word_of_int r)) (c_signed 32 opr (sint a) (sint b))
      | (UI32_VAL a, UI32_VAL b) \<Rightarrow> result_of (\<lambda>r. UI32_VAL (word_of_int r)) (c_unsigned 32 opr (uint a) (uint b))
      | (I8_VAL a, I8_VAL b) \<Rightarrow> result_of (\<lambda>r. I8_VAL (word_of_int r)) (c_signed 32 opr (sint a) (sint b))
      | (UI8_VAL a, UI8_VAL b) \<Rightarrow> result_of (\<lambda>r. UI8_VAL (word_of_int r)) (c_signed 32 opr (uint a) (uint b))
      | (I16_VAL a, I16_VAL b) \<Rightarrow> result_of (\<lambda>r. I16_VAL (word_of_int r)) (c_signed 32 opr (sint a) (sint b))
      | (UI16_VAL a, UI16_VAL b) \<Rightarrow> result_of (\<lambda>r. UI16_VAL (word_of_int r)) (c_signed 32 opr (uint a) (uint b))
      | (UI64_VAL a, UI64_VAL b) \<Rightarrow> result_of (\<lambda>r. UI64_VAL (word_of_int r)) (c_signed 64 opr (sint a) (sint b))
      | (I64_VAL a, I64_VAL b) \<Rightarrow> result_of (\<lambda>r. I64_VAL (word_of_int r)) (c_signed 64 opr (sint a) (sint b))
      | (DOUBLE_VAL a, DOUBLE_VAL b) \<Rightarrow> Result (DOUBLE_VAL (fop opr a b))
      | (INT_VAL a, INT_VAL b) \<Rightarrow> result_of INT_VAL (binaryIntOp opr a b)
      | _ \<Rightarrow> TypeError)"

text \<open>
  \<^verbatim>\<open>OP_ADD\<close> on numbers and addresses. The sum of a pointer and an integer and that of two strings
  are operations on the heap and on the table of strings.
\<close>

definition op_add :: "platform \<Rightarrow> (int_op \<Rightarrow> u64 \<Rightarrow> u64 \<Rightarrow> u64) \<Rightarrow> Value \<Rightarrow> Value \<Rightarrow> op_result" where
  "op_add p fop left right =
     (case promote left right of
        (I32_VAL a, I32_VAL b) \<Rightarrow> result_of (\<lambda>r. I32_VAL (word_of_int r)) (c_signed 32 OpAdd (sint a) (sint b))
      | (UI32_VAL a, UI32_VAL b) \<Rightarrow> result_of (\<lambda>r. UI32_VAL (word_of_int r)) (c_unsigned 32 OpAdd (uint a) (uint b))
      | (I8_VAL a, I8_VAL b) \<Rightarrow> result_of (\<lambda>r. I8_VAL (word_of_int r)) (c_signed 32 OpAdd (sint a) (sint b))
      | (UI8_VAL a, UI8_VAL b) \<Rightarrow> result_of (\<lambda>r. UI8_VAL (word_of_int r)) (c_signed 32 OpAdd (uint a) (uint b))
      | (I16_VAL a, I16_VAL b) \<Rightarrow> result_of (\<lambda>r. I16_VAL (word_of_int r)) (c_signed 32 OpAdd (sint a) (sint b))
      | (UI16_VAL a, UI16_VAL b) \<Rightarrow> result_of (\<lambda>r. UI16_VAL (word_of_int r)) (c_signed 32 OpAdd (uint a) (uint b))
      | (I64_VAL a, I64_VAL b) \<Rightarrow> result_of (\<lambda>r. I64_VAL (word_of_int r)) (c_signed 64 OpAdd (sint a) (sint b))
      | (UI64_VAL a, UI64_VAL b) \<Rightarrow> result_of (\<lambda>r. UI64_VAL (word_of_int r)) (c_unsigned 64 OpAdd (uint a) (uint b))
      | (DOUBLE_VAL a, DOUBLE_VAL b) \<Rightarrow> Result (DOUBLE_VAL (fop OpAdd a b))
      | (ADDRESS_VAL a, I32_VAL b) \<Rightarrow> Result (ADDRESS_VAL (size_t_of p (int a + sint b)))
      | (ADDRESS_VAL a, UI32_VAL b) \<Rightarrow> Result (ADDRESS_VAL (size_t_of p (int a + uint b)))
      | (INT_VAL a, INT_VAL b) \<Rightarrow> result_of INT_VAL (binaryIntOp OpAdd a b)
      | _ \<Rightarrow> TypeError)"

text \<open>
  \<^verbatim>\<open>OP_MODULO\<close>: the remainder has the sign of the dividend in C; the divisor is added when the
  operands have opposite signs.
\<close>

definition c_modulo :: "nat \<Rightarrow> int \<Rightarrow> int \<Rightarrow> int option" where
  "c_modulo w a b =
     map_option (\<lambda>r. if a < 0 \<and> b > 0 \<or> a > 0 \<and> b < 0 then r + b else r) (c_signed w OpMod a b)"

definition op_modulo :: "Value \<Rightarrow> Value \<Rightarrow> op_result" where
  "op_modulo left right =
     (case promote left right of
        (I32_VAL a, I32_VAL b) \<Rightarrow> result_of (\<lambda>r. I32_VAL (word_of_int r)) (c_modulo 32 (sint a) (sint b))
      | (I8_VAL a, I8_VAL b) \<Rightarrow> result_of (\<lambda>r. I8_VAL (word_of_int r)) (c_modulo 32 (sint a) (sint b))
      | (I16_VAL a, I16_VAL b) \<Rightarrow> result_of (\<lambda>r. I16_VAL (word_of_int r)) (c_modulo 32 (sint a) (sint b))
      | (I64_VAL a, I64_VAL b) \<Rightarrow> result_of (\<lambda>r. I64_VAL (word_of_int r)) (c_modulo 64 (sint a) (sint b))
      | (UI32_VAL a, UI32_VAL b) \<Rightarrow> result_of (\<lambda>r. UI32_VAL (word_of_int r)) (c_unsigned 32 OpMod (uint a) (uint b))
      | (UI8_VAL a, UI8_VAL b) \<Rightarrow> result_of (\<lambda>r. UI8_VAL (word_of_int r)) (c_signed 32 OpMod (uint a) (uint b))
      | (UI16_VAL a, UI16_VAL b) \<Rightarrow> result_of (\<lambda>r. UI16_VAL (word_of_int r)) (c_signed 32 OpMod (uint a) (uint b))
      | (UI64_VAL a, UI64_VAL b) \<Rightarrow> result_of (\<lambda>r. UI64_VAL (word_of_int r)) (c_unsigned 64 OpMod (uint a) (uint b))
      | (INT_VAL a, INT_VAL b) \<Rightarrow> result_of INT_VAL (binaryIntOp OpMod a b)
      | _ \<Rightarrow> TypeError)"

definition op_negate :: "Value \<Rightarrow> op_result" where
  "op_negate v =
     (case v of
        DOUBLE_VAL a \<Rightarrow> Result (DOUBLE_VAL (a XOR 0x8000000000000000))
      | I32_VAL a \<Rightarrow> result_of (\<lambda>r. I32_VAL (word_of_int r)) (c_signed 32 OpSub 0 (sint a))
      | I8_VAL a \<Rightarrow> result_of (\<lambda>r. I8_VAL (word_of_int r)) (c_signed 32 OpSub 0 (sint a))
      | I16_VAL a \<Rightarrow> result_of (\<lambda>r. I16_VAL (word_of_int r)) (c_signed 32 OpSub 0 (sint a))
      | I64_VAL a \<Rightarrow> result_of (\<lambda>r. I64_VAL (word_of_int r)) (c_signed 64 OpSub 0 (sint a))
      | INT_VAL a \<Rightarrow> result_of INT_VAL (unaryIntOp a)
      | _ \<Rightarrow> TypeError)"

subsection \<open>Bits\<close>

datatype bit_op = LeftShift | RightShift | BitOr | BitAnd | BitXor

definition bit_exact :: "bit_op \<Rightarrow> nat \<Rightarrow> nat \<Rightarrow> nat" where
  "bit_exact opr a b =
     (case opr of LeftShift \<Rightarrow> push_bit b a | RightShift \<Rightarrow> drop_bit b a
                | BitOr \<Rightarrow> a OR b | BitAnd \<Rightarrow> a AND b | BitXor \<Rightarrow> a XOR b)"

definition c_bits :: "nat \<Rightarrow> bit_op \<Rightarrow> nat \<Rightarrow> nat \<Rightarrow> nat option" where
  "c_bits w opr a b =
     (if opr \<in> {LeftShift, RightShift} \<and> w \<le> b then None else Some (bit_exact opr a b mod 2 ^ w))"

text \<open>The same on operands narrower than \<^verbatim>\<open>int\<close>: a result outside of \<^verbatim>\<open>int\<close> is undefined.\<close>

definition c_bits_int :: "bit_op \<Rightarrow> nat \<Rightarrow> nat \<Rightarrow> nat option" where
  "c_bits_int opr a b =
     (if opr \<in> {LeftShift, RightShift} \<and> 32 \<le> b then None
      else let r = bit_exact opr a b in if r < 2 ^ 31 then Some r else None)"

definition BINARY_UINT_OP :: "bit_op \<Rightarrow> Value \<Rightarrow> Value \<Rightarrow> op_result" where
  "BINARY_UINT_OP opr left right =
     (case promote left right of
        (UI32_VAL a, UI32_VAL b) \<Rightarrow> result_of (\<lambda>r. UI32_VAL (of_nat r)) (c_bits 32 opr (unat a) (unat b))
      | (UI8_VAL a, UI8_VAL b) \<Rightarrow> result_of (\<lambda>r. UI8_VAL (of_nat r)) (c_bits_int opr (unat a) (unat b))
      | (UI16_VAL a, UI16_VAL b) \<Rightarrow> result_of (\<lambda>r. UI16_VAL (of_nat r)) (c_bits_int opr (unat a) (unat b))
      | (UI64_VAL a, UI64_VAL b) \<Rightarrow> result_of (\<lambda>r. UI64_VAL (of_nat r)) (c_bits 64 opr (unat a) (unat b))
      | _ \<Rightarrow> TypeError)"

subsection \<open>Comparison\<close>

text \<open>The order of doubles is that of sign and magnitude; a NaN is in no relation.\<close>

definition double_key :: "u64 \<Rightarrow> int" where
  "double_key x = (if bit x 63 then - int (take_bit 63 (unat x)) else int (take_bit 63 (unat x)))"

definition double_compare :: "int_bool_op \<Rightarrow> u64 \<Rightarrow> u64 \<Rightarrow> bool" where
  "double_compare opr a b \<longleftrightarrow> \<not> double_nan a \<and> \<not> double_nan b \<and>
     (case opr of OpLess \<Rightarrow> double_key a < double_key b | OpGreater \<Rightarrow> double_key a > double_key b
                | OpEqual \<Rightarrow> double_key a = double_key b)"

definition c_compare :: "int_bool_op \<Rightarrow> int \<Rightarrow> int \<Rightarrow> bool" where
  "c_compare opr a b = (case opr of OpLess \<Rightarrow> a < b | OpGreater \<Rightarrow> a > b | OpEqual \<Rightarrow> a = b)"

definition BINARY_BOOLEAN_OP :: "int_bool_op \<Rightarrow> Value \<Rightarrow> Value \<Rightarrow> op_result" where
  "BINARY_BOOLEAN_OP opr left right =
     (case (left, right) of
        (I32_VAL a, I32_VAL b) \<Rightarrow> Result (BOOL_VAL (c_compare opr (sint a) (sint b)))
      | (UI32_VAL a, UI32_VAL b) \<Rightarrow> Result (BOOL_VAL (c_compare opr (uint a) (uint b)))
      | (I8_VAL a, I8_VAL b) \<Rightarrow> Result (BOOL_VAL (c_compare opr (sint a) (sint b)))
      | (UI8_VAL a, UI8_VAL b) \<Rightarrow> Result (BOOL_VAL (c_compare opr (uint a) (uint b)))
      | (I16_VAL a, I16_VAL b) \<Rightarrow> Result (BOOL_VAL (c_compare opr (sint a) (sint b)))
      | (UI16_VAL a, UI16_VAL b) \<Rightarrow> Result (BOOL_VAL (c_compare opr (uint a) (uint b)))
      | (UI64_VAL a, UI64_VAL b) \<Rightarrow> Result (BOOL_VAL (c_compare opr (uint a) (uint b)))
      | (I64_VAL a, I64_VAL b) \<Rightarrow> Result (BOOL_VAL (c_compare opr (sint a) (sint b)))
      | (DOUBLE_VAL a, DOUBLE_VAL b) \<Rightarrow> Result (BOOL_VAL (double_compare opr a b))
      | (INT_VAL a, INT_VAL b) \<Rightarrow> Result (BOOL_VAL (binaryIntBoolOp opr a b))
      | _ \<Rightarrow> TypeError)"

definition op_compare :: "(nat option \<Rightarrow> nat) \<Rightarrow> int_bool_op \<Rightarrow> Value \<Rightarrow> Value \<Rightarrow> op_result" where
  "op_compare loc opr left right =
     (case (left, right) of
        (INT_VAL a, INT_VAL b) \<Rightarrow> Result (BOOL_VAL (binaryIntBoolOp opr a b))
      | _ \<Rightarrow> (let (a, b) = promote left right
             in if opr = OpEqual then Result (BOOL_VAL (valuesEqual loc a b)) else BINARY_BOOLEAN_OP opr a b))"

subsection \<open>Truth and immediate integers\<close>

definition isFalsey :: "Value \<Rightarrow> bool" where
  "isFalsey value \<longleftrightarrow> is_nil value \<or> value = BOOL_VAL False"

text \<open>The operand bytes of an \<^verbatim>\<open>OP_IMMEDIATE\<close> instruction, the least significant one first.\<close>

definition op_immediate :: "bool \<Rightarrow> u8 list \<Rightarrow> Value option" where
  "op_immediate neg bytes =
     (let num = (\<Sum>i < length bytes. 256 ^ i * unat (bytes ! i));
          i = (int_set_u (of_nat num) (int_init_concrete2\<lparr>i_literal := True\<rparr>))\<lparr>i_neg := neg\<rparr>
      in if int_invariant i then Some (INT_VAL i) else None)"

end
