(* ===== verification/VmOps_Theorems.thy ===== *)
theory VmOps_Theorems
  imports VmOps Packed_Theorems
begin

section \<open>Properties of the operators\<close>

subsection \<open>Operands\<close>

lemma promote_machine: "\<not> is_literal a \<Longrightarrow> \<not> is_literal b \<Longrightarrow> promote a b = (a, b)"
  by (cases a; cases b) (simp_all add: promote_def)

lemma promote_left: "i_literal i \<Longrightarrow> promote (INT_VAL i) b = (promote_to (value_type b) i, b)"
  by (simp add: promote_def)

lemma promote_right: "i_literal i \<Longrightarrow> \<not> is_literal a \<Longrightarrow> promote a (INT_VAL i) = (a, promote_to (value_type a) i)"
  by (cases a) (simp_all add: promote_def)

text \<open>
  What an operand of an operation on the machine integer type \<open>t\<close> may be: a value of that type, or a
  literal in its range. Literals are not promoted to \<^verbatim>\<open>int16\<close> (see below).
\<close>

definition operand :: "YargType \<Rightarrow> Value \<Rightarrow> int \<Rightarrow> bool" where
  "operand t v x \<longleftrightarrow> value_type v = Some t \<and> value_num v = Some x \<or>
     (\<exists>i lo hi. v = INT_VAL i \<and> i_literal i \<and> int_norm i \<and> int_val i = x \<and> t \<noteq> TypeInt16 \<and>
        machine_range (yt t) = Some (lo, hi) \<and> lo \<le> x \<and> x < hi)"

lemma machine_types:
  "machine_range (yt t) = Some r \<Longrightarrow>
     t \<in> {TypeInt8, TypeUint8, TypeInt16, TypeUint16, TypeInt32, TypeUint32, TypeInt64, TypeUint64}"
  by (cases t) (simp_all add: machine_range_def)

lemma promote_to_correct:
  assumes i: "int_norm i" and r: "machine_range (yt t) = Some (lo, hi)" "lo \<le> int_val i" "int_val i < hi" and t: "t \<noteq> TypeInt16"
  shows "value_type (promote_to (Some t) i) = Some t \<and> value_num (promote_to (Some t) i) = Some (int_val i)"
proof -
  have small: "ucast (int_to_i32 i) = (ucast (int_to_u32 i) :: u16)" if "0 \<le> int_val i" "int_val i < 0x8000"
  proof -
    have "sint (int_to_i32 i) = int_val i" "int (unat (int_to_u32 i)) = int_val i"
      using int_to_i32_correct [OF i] int_to_u32_correct [OF i] that by simp_all
    then have "sint (int_to_i32 i) = int (unat (int_to_u32 i))" by simp
    then have "(word_of_int (sint (int_to_i32 i)) :: u16) = word_of_int (int (unat (int_to_u32 i)))" by simp
    then show ?thesis by (simp add: ucast_word_of_sint(2) of_nat_unat)
  qed
  have "sint (- 0x80 :: u64) = - 128" "sint (- 0x8000 :: u64) = - 32768" "sint (- 0x80000000 :: u64) = - (2 ^ 31)"
    "sint INT64_MIN = - (2 ^ 63)"
    by (simp_all add: INT64_MIN_def)
  note range = int_is_range_correct [OF i] this
  have "promote_to (Some t) i = promote_literal t i"
    using r t small
    by (cases t) (simp_all add: machine_range_def promote_to_def promote_literal_def typesEqual_shape range)
  then show ?thesis using promote_literal_correct [OF i r(1)] r(2,3) by simp
qed

lemma operand_promoted:
  assumes a: "operand t a x" and b: "operand t b y" and r: "machine_range (yt t) = Some (lo, hi)"
    and lit: "\<not> (is_literal a \<and> is_literal b)"
  obtains a' b' where "promote a b = (a', b')" "promote a' b' = (a', b')"
    "value_type a' = Some t" "value_num a' = Some x" "value_type b' = Some t" "value_num b' = Some y"
proof -
  have m: "\<not> is_literal v" if "value_type v = Some t" for v
    using that machine_types [OF r] by (cases v) auto
  have lv: "value_type (promote_to (Some t) i) = Some t \<and> value_num (promote_to (Some t) i) = Some z"
    if "operand t (INT_VAL i) z" "i_literal i" for i z
    using that promote_to_correct m [of "INT_VAL i"] unfolding operand_def by fastforce
  have nv: "value_type v = Some t \<and> value_num v = Some z" if "operand t v z" "\<not> is_literal v" for v z
    using that by (auto simp: operand_def)
  show ?thesis
  proof (cases "is_literal a")
    case True
    then obtain i where i: "a = INT_VAL i" "i_literal i" by (cases a) auto
    have nb: "value_type b = Some t \<and> value_num b = Some y" "\<not> is_literal b" using nv [OF b] lit True by auto
    have na: "value_type (promote_to (Some t) i) = Some t \<and> value_num (promote_to (Some t) i) = Some x"
      using lv [of i x] a i by simp
    show ?thesis
      by (rule that [of "promote_to (Some t) i" b]) (use na nb i m in \<open>simp_all add: promote_left promote_machine\<close>)
  next
    case na: False
    have ta: "value_type a = Some t \<and> value_num a = Some x" using nv [OF a na] .
    show ?thesis
    proof (cases "is_literal b")
      case True
      then obtain i where i: "b = INT_VAL i" "i_literal i" by (cases b) auto
      have nb: "value_type (promote_to (Some t) i) = Some t \<and> value_num (promote_to (Some t) i) = Some y"
        using lv [of i y] b i by simp
      show ?thesis
        by (rule that [of a "promote_to (Some t) i"]) (use na nb ta i m in \<open>simp_all add: promote_right promote_machine\<close>)
    next
      case False
      show ?thesis
        by (rule that [of a b]) (use nv [OF b False] ta False na in \<open>simp_all add: promote_machine\<close>)
    qed
  qed
qed

subsection \<open>Arithmetic\<close>

lemma yarg_mod_bounds:
  assumes "y \<noteq> 0"
  shows "0 < y \<Longrightarrow> 0 \<le> yarg_mod x y \<and> yarg_mod x y \<le> y" "y < 0 \<Longrightarrow> y \<le> yarg_mod x y \<and> yarg_mod x y \<le> 0"
proof -
  have r: "0 \<le> \<bar>x\<bar> mod \<bar>y\<bar>" "\<bar>x\<bar> mod \<bar>y\<bar> < \<bar>y\<bar>" using assms by simp_all
  have "x smod y = sgn x * (\<bar>x\<bar> mod \<bar>y\<bar>)" by (rule smod_int_alt_def)
  then have m: "- \<bar>y\<bar> < x smod y" "x smod y < \<bar>y\<bar>" "0 \<le> x \<Longrightarrow> 0 \<le> x smod y" "x \<le> 0 \<Longrightarrow> x smod y \<le> 0"
    using r by (auto simp: sgn_if)
  show "0 \<le> yarg_mod x y \<and> yarg_mod x y \<le> y" if "0 < y"
    using m that by (auto simp: yarg_mod_def)
  show "y \<le> yarg_mod x y \<and> yarg_mod x y \<le> 0" if "y < 0"
    using m that by (auto simp: yarg_mod_def)
qed

lemma c_signed_exact:
  "opr \<noteq> OpMod \<Longrightarrow> (opr = OpDiv \<longrightarrow> y \<noteq> 0) \<Longrightarrow> - (2 ^ (w - 1)) \<le> int_op_spec opr x y \<Longrightarrow> int_op_spec opr x y < 2 ^ (w - 1) \<Longrightarrow>
     c_signed w opr x y = Some (int_op_spec opr x y)"
  by (cases opr) (simp_all add: c_signed_def c_exact_def int_op_spec_def)

lemma c_modulo_exact:
  "y \<noteq> 0 \<Longrightarrow> - (2 ^ (w - 1)) \<le> x sdiv y \<Longrightarrow> x sdiv y < 2 ^ (w - 1) \<Longrightarrow> c_modulo w x y = Some (yarg_mod x y)"
  by (auto simp: c_modulo_def c_signed_def c_exact_def yarg_mod_def)

lemma c_unsigned_exact:
  "opr \<noteq> OpMod \<Longrightarrow> (opr = OpDiv \<longrightarrow> y \<noteq> 0) \<Longrightarrow> 0 \<le> int_op_spec opr x y \<Longrightarrow> int_op_spec opr x y < 2 ^ w \<Longrightarrow>
     c_unsigned w opr x y = Some (int_op_spec opr x y)"
  by (cases opr) (simp_all add: c_unsigned_def c_exact_def int_op_spec_def)

lemma mod_nonneg: "0 \<le> x \<Longrightarrow> 0 < y \<Longrightarrow> x smod y = yarg_mod x y"
  by (auto simp: yarg_mod_def)

text \<open>The instruction for an operator.\<close>

definition int_instruction ::
  "platform \<Rightarrow> (int_op \<Rightarrow> u64 \<Rightarrow> u64 \<Rightarrow> u64) \<Rightarrow> int_op \<Rightarrow> Value \<Rightarrow> Value \<Rightarrow> op_result" where
  "int_instruction p fop opr a b =
     (case opr of OpAdd \<Rightarrow> op_add p fop a b | OpMod \<Rightarrow> op_modulo a b | _ \<Rightarrow> BINARY_OP fop opr a b)"

lemma int_instruction_promote:
  "promote a b = promote a' b' \<Longrightarrow> int_instruction p fop opr a b = int_instruction p fop opr a' b'"
  by (cases opr) (simp_all add: int_instruction_def op_add_def op_modulo_def BINARY_OP_def)

text \<open>The value of a machine integer type with a given number.\<close>

fun machine_value :: "YargType \<Rightarrow> int \<Rightarrow> Value" where
  "machine_value TypeInt8 x = I8_VAL (word_of_int x)" | "machine_value TypeUint8 x = UI8_VAL (word_of_int x)"
| "machine_value TypeInt16 x = I16_VAL (word_of_int x)" | "machine_value TypeUint16 x = UI16_VAL (word_of_int x)"
| "machine_value TypeInt32 x = I32_VAL (word_of_int x)" | "machine_value TypeUint32 x = UI32_VAL (word_of_int x)"
| "machine_value TypeInt64 x = I64_VAL (word_of_int x)" | "machine_value TypeUint64 x = UI64_VAL (word_of_int x)"
| "machine_value t x = NIL_VAL"

lemma machine_value_type: "machine_range (yt t) = Some r \<Longrightarrow> value_type (machine_value t x) = Some t"
  using machine_types [of t r] by auto

lemma word_num:
  "- (2 ^ 7) \<le> x \<Longrightarrow> x < 2 ^ 7 \<Longrightarrow> sint (word_of_int x :: u8) = x" "0 \<le> x \<Longrightarrow> x < 2 ^ 8 \<Longrightarrow> uint (word_of_int x :: u8) = x"
  "- (2 ^ 15) \<le> x \<Longrightarrow> x < 2 ^ 15 \<Longrightarrow> sint (word_of_int x :: u16) = x" "0 \<le> x \<Longrightarrow> x < 2 ^ 16 \<Longrightarrow> uint (word_of_int x :: u16) = x"
  "- (2 ^ 31) \<le> x \<Longrightarrow> x < 2 ^ 31 \<Longrightarrow> sint (word_of_int x :: u32) = x" "0 \<le> x \<Longrightarrow> x < 2 ^ 32 \<Longrightarrow> uint (word_of_int x :: u32) = x"
  "- (2 ^ 63) \<le> x \<Longrightarrow> x < 2 ^ 63 \<Longrightarrow> sint (word_of_int x :: u64) = x" "0 \<le> x \<Longrightarrow> x < 2 ^ 64 \<Longrightarrow> uint (word_of_int x :: u64) = x"
  by (simp_all add: sint_sbintrunc' signed_take_bit_int_eq_self unsigned_of_int take_bit_int_eq_self)

lemma value_num_uint:
  "value_num (UI8_VAL a) = Some (uint a)" "value_num (UI16_VAL b) = Some (uint b)"
  "value_num (UI32_VAL c) = Some (uint c)" "value_num (UI64_VAL d) = Some (uint d)"
  by (simp_all add: of_nat_unat)

lemma machine_value_num:
  "machine_range (yt t) = Some (lo, hi) \<Longrightarrow> lo \<le> x \<Longrightarrow> x < hi \<Longrightarrow> value_num (machine_value t x) = Some x"
  by (cases t) (simp_all add: machine_range_def value_num_uint word_num del: value_num.simps(2,4,6,8))

lemma word_bounds:
  "- (2 ^ 7) \<le> sint (a :: u8)" "sint (a :: u8) < 2 ^ 7" "- (2 ^ 15) \<le> sint (b :: u16)" "sint (b :: u16) < 2 ^ 15"
  "- (2 ^ 31) \<le> sint (c :: u32)" "sint (c :: u32) < 2 ^ 31" "- (2 ^ 63) \<le> sint (d :: u64)" "sint (d :: u64) < 2 ^ 63"
  "uint (a :: u8) < 2 ^ 8" "uint (b :: u16) < 2 ^ 16" "uint (c :: u32) < 2 ^ 32" "uint (d :: u64) < 2 ^ 64"
  using sint_range_size [of a] sint_range_size [of b] sint_range_size [of c] sint_range_size [of d]
    uint_lt2p [of a] uint_lt2p [of b] uint_lt2p [of c] uint_lt2p [of d]
  by (simp_all add: word_size)

lemma machine_value_eq:
  assumes "machine_range (yt t) = Some (lo, hi)" "value_type v = Some t" "value_num v = Some x"
  shows "v = machine_value t x" "lo \<le> x" "x < hi"
proof -
  have "v = machine_value t x \<and> lo \<le> x \<and> x < hi"
    using assms word_bounds
    by (cases v) (auto simp: machine_range_def value_num_uint simp del: value_num.simps(2,4,6,8))
  then show "v = machine_value t x" "lo \<le> x" "x < hi" by auto
qed

text \<open>
  The result that has to be in the range of the type: the quotient for the remainder, the result
  itself for the other operators.
\<close>

definition op_witness :: "int_op \<Rightarrow> int \<Rightarrow> int \<Rightarrow> int" where
  "op_witness opr x y = (if opr = OpMod then x sdiv y else int_op_spec opr x y)"

lemma machine_instruction:
  assumes r: "machine_range (yt t) = Some (lo, hi)" and x: "lo \<le> x" "x < hi" and y: "lo \<le> y" "y < hi"
    and nz: "opr = OpDiv \<or> opr = OpMod \<longrightarrow> y \<noteq> 0" and res: "lo \<le> op_witness opr x y" "op_witness opr x y < hi"
    and u64: "t = TypeUint64 \<longrightarrow> opr \<in> {OpAdd, OpMod}"
  shows "int_instruction p fop opr (machine_value t x) (machine_value t y) = Result (machine_value t (int_op_spec opr x y))"
proof (cases "opr = OpMod")
  case True
  have y0: "y \<noteq> 0" using nz True by simp
  have q: "lo \<le> x sdiv y" "x sdiv y < hi" using res True by (simp_all add: op_witness_def)
  have mods: "c_modulo 32 x y = Some (yarg_mod x y)" if "- (2 ^ 31) \<le> lo" "hi \<le> 2 ^ 31"
    using c_modulo_exact [OF y0, of 32 x] q that by simp
  have mod64: "c_modulo 64 x y = Some (yarg_mod x y)" if "lo = - (2 ^ 63)" "hi = 2 ^ 63"
    using c_modulo_exact [OF y0, of 64 x] q that by simp
  have modu: "x smod y = yarg_mod x y" "0 \<le> yarg_mod x y" "yarg_mod x y < hi" if "lo = 0"
    using mod_nonneg [of x y] yarg_mod_bounds(1) [OF y0, of x] that x y y0 by auto
  show ?thesis
    using r x y y0 q mods mod64 modu True
    by (cases t) (simp_all add: int_instruction_def op_modulo_def promote_machine machine_range_def word_num
        int_op_spec_def result_of_def c_unsigned_def c_signed_def c_exact_def)
next
  case False
  have res': "lo \<le> int_op_spec opr x y" "int_op_spec opr x y < hi" using res False by (simp_all add: op_witness_def)
  have nz': "opr = OpDiv \<longrightarrow> y \<noteq> 0" using nz by simp
  have s32: "c_signed 32 opr x y = Some (int_op_spec opr x y)" if "- (2 ^ 31) \<le> lo" "hi \<le> 2 ^ 31"
    using c_signed_exact [OF False nz', of 32 x] res' that by simp
  have s64: "c_signed 64 opr x y = Some (int_op_spec opr x y)" if "lo = - (2 ^ 63)" "hi = 2 ^ 63"
    using c_signed_exact [OF False nz', of 64 x] res' that by simp
  have u: "c_unsigned w opr x y = Some (int_op_spec opr x y)" if "lo = 0" "hi = 2 ^ w" for w
    using c_unsigned_exact [OF False nz', of x w] res' that by simp
  show ?thesis
    using r x y False s32 s64 u [of 32] u [of 64] u64
    by (cases t; cases opr) (simp_all add: int_instruction_def BINARY_OP_def op_add_def promote_machine machine_range_def
        word_num result_of_def)
qed



subsection \<open>Comparison\<close>

lemma op_compare_promote:
  "promote a b = (a', b') \<Longrightarrow> \<not> (value_type a = Some TypeInt \<and> value_type b = Some TypeInt) \<Longrightarrow>
     op_compare loc opr a b = (if opr = OpEqual then Result (BOOL_VAL (valuesEqual loc a' b')) else BINARY_BOOLEAN_OP opr a' b')"
  by (cases a; cases b) (simp_all add: op_compare_def)

lemma machine_compare:
  assumes r: "machine_range (yt t) = Some (lo, hi)" and x: "lo \<le> x" "x < hi" and y: "lo \<le> y" "y < hi"
  shows "BINARY_BOOLEAN_OP opr (machine_value t x) (machine_value t y) = Result (BOOL_VAL (c_compare opr x y))"
    "valuesEqual loc (machine_value t x) (machine_value t y) \<longleftrightarrow> x = y"
proof -
  show "BINARY_BOOLEAN_OP opr (machine_value t x) (machine_value t y) = Result (BOOL_VAL (c_compare opr x y))"
    using assms by (cases t) (simp_all add: BINARY_BOOLEAN_OP_def machine_range_def word_num)
  have "machine_value t x = machine_value t y \<longleftrightarrow> x = y"
    using machine_value_num [OF r x] machine_value_num [OF r y] by (metis option.inject)
  then show "valuesEqual loc (machine_value t x) (machine_value t y) \<longleftrightarrow> x = y"
    using machine_types [OF r] by (cases t) (simp_all add: valuesEqual_def)
qed



subsection \<open>Bits\<close>

text \<open>
  Shifts by less than the width of the type and bitwise operators on \<^verbatim>\<open>uint32\<close> and \<^verbatim>\<open>uint64\<close> are the
  operations on words.
\<close>

definition word_bits :: "bit_op \<Rightarrow> 'a :: len word \<Rightarrow> 'a word \<Rightarrow> 'a word" where
  "word_bits opr a b =
     (case opr of LeftShift \<Rightarrow> push_bit (unat b) a | RightShift \<Rightarrow> drop_bit (unat b) a
                | BitOr \<Rightarrow> a OR b | BitAnd \<Rightarrow> a AND b | BitXor \<Rightarrow> a XOR b)"

lemma bit_exact_word: "of_nat (bit_exact opr (unat a) (unat b)) = (word_bits opr a b :: 'a :: len word)"
proof -
  have "of_nat (push_bit n (unat a)) = push_bit n a" for n
    by (rule bit_word_eqI) (auto simp: bit_simps)
  moreover have "of_nat (drop_bit n (unat a)) = drop_bit n a" for n
    by (rule bit_word_eqI) (auto simp: bit_simps)
  moreover have "of_nat (unat a OR unat b) = a OR b" "of_nat (unat a AND unat b) = a AND b" "of_nat (unat a XOR unat b) = a XOR b"
    by (rule bit_word_eqI; auto simp: bit_simps)+
  ultimately show ?thesis by (cases opr) (simp_all add: bit_exact_def word_bits_def)
qed

lemma uint_bits_correct:
  "(opr \<in> {LeftShift, RightShift} \<longrightarrow> unat b < 32) \<Longrightarrow>
     BINARY_UINT_OP opr (UI32_VAL a) (UI32_VAL b) = Result (UI32_VAL (word_bits opr a b))"
  "(opr \<in> {LeftShift, RightShift} \<longrightarrow> unat d < 64) \<Longrightarrow>
     BINARY_UINT_OP opr (UI64_VAL c) (UI64_VAL d) = Result (UI64_VAL (word_bits opr c d))"
proof -
  have m: "(of_nat (n mod 2 ^ 32) :: u32) = of_nat n" "(of_nat (n mod 2 ^ 64) :: u64) = of_nat n" for n
    by (simp_all add: word_of_nat_eq_iff take_bit_eq_mod)
  show "(opr \<in> {LeftShift, RightShift} \<longrightarrow> unat b < 32) \<Longrightarrow>
     BINARY_UINT_OP opr (UI32_VAL a) (UI32_VAL b) = Result (UI32_VAL (word_bits opr a b))"
    using m(1) by (auto simp: BINARY_UINT_OP_def promote_machine c_bits_def result_of_def bit_exact_word)
  show "(opr \<in> {LeftShift, RightShift} \<longrightarrow> unat d < 64) \<Longrightarrow>
     BINARY_UINT_OP opr (UI64_VAL c) (UI64_VAL d) = Result (UI64_VAL (word_bits opr c d))"
    using m(2) by (auto simp: BINARY_UINT_OP_def promote_machine c_bits_def result_of_def bit_exact_word)
qed

subsection \<open>Deviations\<close>

text \<open>
  The test of \<^verbatim>\<open>promote\<close> for \<^verbatim>\<open>int16\<close> asks for \<^verbatim>\<open>uint16\<close>: a literal is never promoted to \<^verbatim>\<open>int16\<close>, so that
  any arithmetic between the two is a type error, and a negative literal is promoted to \<^verbatim>\<open>uint16\<close>.
\<close>

lemma promote_int16_missing: "promote_to (Some TypeInt16) i = INT_VAL i"
  by (simp add: promote_to_def typesEqual_shape)

lemma int16_literal_type_error:
  assumes "i_literal i"
  shows "int_instruction p fop opr (I16_VAL a) (INT_VAL i) = TypeError"
  using assms by (cases opr) (simp_all add: int_instruction_def op_add_def op_modulo_def BINARY_OP_def
      promote_right promote_int16_missing)

lemma uint16_negative_literal:
  assumes "int_norm i" "- 0x8000 \<le> int_val i" "int_val i < 0"
  shows "value_num (promote_to (Some TypeUint16) i) = Some (int_val i + 0x10000)"
proof -
  have "sint (- 0x8000 :: u64) = - 32768" by simp
  then have "promote_to (Some TypeUint16) i = UI16_VAL (ucast (int_to_i32 i))"
    using assms int_is_range_correct [OF assms(1)] by (simp add: promote_to_def typesEqual_shape)
  moreover have "sint (int_to_i32 i) = int_val i" using int_to_i32_correct [OF assms(1)] assms by simp
  moreover have "uint (word_of_int (int_val i) :: u16) = int_val i mod 0x10000" by (simp add: unsigned_of_int take_bit_eq_mod)
  moreover have "int_val i mod 0x10000 = int_val i + 0x10000"
    using assms(2,3) mod_pos_pos_trivial [of "int_val i + 0x10000" "0x10000"] by simp
  ultimately show ?thesis
    by (simp only: value_num_uint ucast_word_of_sint(2))
qed

text \<open>
  \<^verbatim>\<open>BINARY_OP\<close> computes with \<^verbatim>\<open>uint64\<close> operands as \<^verbatim>\<open>int64_t\<close>: half of the largest \<^verbatim>\<open>uint64\<close> is 0, and
  \<^verbatim>\<open>2 ^ 63 - 1\<close> plus one cannot be reduced by one without undefined behaviour. The product of
  two \<^verbatim>\<open>uint16\<close> is computed in \<^verbatim>\<open>int\<close>, which it can overflow.
\<close>

lemma uint64_division_wrong:
  "BINARY_OP fop OpDiv (UI64_VAL (- 1)) (UI64_VAL 2) = Result (UI64_VAL 0)"
  by (simp add: BINARY_OP_def promote_machine c_signed_def c_exact_def result_of_def signed_divide_int_def)

lemma uint64_subtraction_undefined:
  "BINARY_OP fop OpSub (UI64_VAL 0x8000000000000000) (UI64_VAL 1) = Fault"
  by (simp add: BINARY_OP_def promote_machine c_signed_def c_exact_def result_of_def)

lemma uint16_product_undefined:
  "BINARY_OP fop OpMul (UI16_VAL 0xFFFF) (UI16_VAL 0xFFFF) = Fault"
  by (simp add: BINARY_OP_def promote_machine c_signed_def c_exact_def result_of_def)

text \<open>Division by zero is not tested for: it is undefined for every machine integer type.\<close>

lemma machine_division_by_zero:
  assumes "machine_range (yt t) = Some (lo, hi)" "value_type a = Some t" "value_num a = Some x"
  shows "BINARY_OP fop OpDiv a (machine_value t 0) = Fault \<and> op_modulo a (machine_value t 0) = Fault"
proof -
  have "BINARY_OP fop OpDiv (machine_value t x) (machine_value t 0) = Fault \<and> op_modulo (machine_value t x) (machine_value t 0) = Fault"
    using machine_types [OF assms(1)]
    by (cases t) (simp_all add: BINARY_OP_def op_modulo_def promote_machine c_signed_def c_unsigned_def c_modulo_def result_of_def)
  then show ?thesis using machine_value_eq(1) [OF assms] by simp
qed

end
