(* ===== verification/Chunk.thy ===== *)
theory Chunk
  imports VmOps
begin

section \<open>Chunks of byte code (\<^verbatim>\<open>src/cyarg/chunk.c\<close>, \<^verbatim>\<open>chunk.h\<close>)\<close>

text \<open>
  The instruction set, and the code and constants of a function. The dynamic arrays of a chunk are
  lists. A constant of a chunk is a number or an address, a string, or a function, which has a chunk
  of its own.
\<close>

datatype OpCode =
    OP_CONSTANT | OP_NIL | OP_TRUE | OP_FALSE | OP_POP | OP_GET_BUILTIN | OP_GET_LOCAL
  | OP_SET_LOCAL | OP_GET_GLOBAL | OP_DEFINE_GLOBAL | OP_SET_GLOBAL | OP_INITIALISE
  | OP_GET_UPVALUE | OP_SET_UPVALUE | OP_GET_PROPERTY | OP_SET_PROPERTY | OP_GET_SUPER | OP_EQUAL
  | OP_GREATER | OP_LESS | OP_LEFT_SHIFT | OP_RIGHT_SHIFT | OP_ADD | OP_SUBTRACT | OP_BITOR
  | OP_BITAND | OP_BITXOR | OP_MODULO | OP_MULTIPLY | OP_DIVIDE | OP_NOT | OP_NEGATE | OP_PRINT
  | OP_POKE | OP_JUMP | OP_JUMP_IF_FALSE | OP_LOOP | OP_CALL | OP_INVOKE | OP_SUPER_INVOKE
  | OP_CLOSURE | OP_CLOSE_UPVALUE | OP_RETURN | OP_YIELD | OP_CLASS | OP_INHERIT | OP_METHOD
  | OP_ELEMENT | OP_SET_ELEMENT | OP_IMMEDIATE_P8 | OP_IMMEDIATE_P16 | OP_IMMEDIATE_P24
  | OP_IMMEDIATE_N8 | OP_IMMEDIATE_N16 | OP_IMMEDIATE_N24 | OP_TYPE_LITERAL | OP_TYPE_STRUCT
  | OP_TYPE_INDEXED_COLLECTION | OP_SET_CELL_TYPE | OP_DEREF_PTR | OP_SET_PTR_TARGET | OP_PLACE
  | OP_DUPLICATE | OP_ERROR

definition opcodes :: "OpCode list" where
  "opcodes =
     [OP_CONSTANT, OP_NIL, OP_TRUE, OP_FALSE, OP_POP, OP_GET_BUILTIN, OP_GET_LOCAL, OP_SET_LOCAL,
      OP_GET_GLOBAL, OP_DEFINE_GLOBAL, OP_SET_GLOBAL, OP_INITIALISE, OP_GET_UPVALUE,
      OP_SET_UPVALUE, OP_GET_PROPERTY, OP_SET_PROPERTY, OP_GET_SUPER, OP_EQUAL, OP_GREATER,
      OP_LESS, OP_LEFT_SHIFT, OP_RIGHT_SHIFT, OP_ADD, OP_SUBTRACT, OP_BITOR, OP_BITAND,
      OP_BITXOR, OP_MODULO, OP_MULTIPLY, OP_DIVIDE, OP_NOT, OP_NEGATE, OP_PRINT, OP_POKE,
      OP_JUMP, OP_JUMP_IF_FALSE, OP_LOOP, OP_CALL, OP_INVOKE, OP_SUPER_INVOKE, OP_CLOSURE,
      OP_CLOSE_UPVALUE, OP_RETURN, OP_YIELD, OP_CLASS, OP_INHERIT, OP_METHOD, OP_ELEMENT,
      OP_SET_ELEMENT, OP_IMMEDIATE_P8, OP_IMMEDIATE_P16, OP_IMMEDIATE_P24, OP_IMMEDIATE_N8,
      OP_IMMEDIATE_N16, OP_IMMEDIATE_N24, OP_TYPE_LITERAL, OP_TYPE_STRUCT,
      OP_TYPE_INDEXED_COLLECTION, OP_SET_CELL_TYPE, OP_DEREF_PTR, OP_SET_PTR_TARGET, OP_PLACE,
      OP_DUPLICATE, OP_ERROR]"

fun op_byte :: "OpCode \<Rightarrow> u8" where
  "op_byte OP_CONSTANT = 0"
| "op_byte OP_NIL = 1"
| "op_byte OP_TRUE = 2"
| "op_byte OP_FALSE = 3"
| "op_byte OP_POP = 4"
| "op_byte OP_GET_BUILTIN = 5"
| "op_byte OP_GET_LOCAL = 6"
| "op_byte OP_SET_LOCAL = 7"
| "op_byte OP_GET_GLOBAL = 8"
| "op_byte OP_DEFINE_GLOBAL = 9"
| "op_byte OP_SET_GLOBAL = 10"
| "op_byte OP_INITIALISE = 11"
| "op_byte OP_GET_UPVALUE = 12"
| "op_byte OP_SET_UPVALUE = 13"
| "op_byte OP_GET_PROPERTY = 14"
| "op_byte OP_SET_PROPERTY = 15"
| "op_byte OP_GET_SUPER = 16"
| "op_byte OP_EQUAL = 17"
| "op_byte OP_GREATER = 18"
| "op_byte OP_LESS = 19"
| "op_byte OP_LEFT_SHIFT = 20"
| "op_byte OP_RIGHT_SHIFT = 21"
| "op_byte OP_ADD = 22"
| "op_byte OP_SUBTRACT = 23"
| "op_byte OP_BITOR = 24"
| "op_byte OP_BITAND = 25"
| "op_byte OP_BITXOR = 26"
| "op_byte OP_MODULO = 27"
| "op_byte OP_MULTIPLY = 28"
| "op_byte OP_DIVIDE = 29"
| "op_byte OP_NOT = 30"
| "op_byte OP_NEGATE = 31"
| "op_byte OP_PRINT = 32"
| "op_byte OP_POKE = 33"
| "op_byte OP_JUMP = 34"
| "op_byte OP_JUMP_IF_FALSE = 35"
| "op_byte OP_LOOP = 36"
| "op_byte OP_CALL = 37"
| "op_byte OP_INVOKE = 38"
| "op_byte OP_SUPER_INVOKE = 39"
| "op_byte OP_CLOSURE = 40"
| "op_byte OP_CLOSE_UPVALUE = 41"
| "op_byte OP_RETURN = 42"
| "op_byte OP_YIELD = 43"
| "op_byte OP_CLASS = 44"
| "op_byte OP_INHERIT = 45"
| "op_byte OP_METHOD = 46"
| "op_byte OP_ELEMENT = 47"
| "op_byte OP_SET_ELEMENT = 48"
| "op_byte OP_IMMEDIATE_P8 = 49"
| "op_byte OP_IMMEDIATE_P16 = 50"
| "op_byte OP_IMMEDIATE_P24 = 51"
| "op_byte OP_IMMEDIATE_N8 = 52"
| "op_byte OP_IMMEDIATE_N16 = 53"
| "op_byte OP_IMMEDIATE_N24 = 54"
| "op_byte OP_TYPE_LITERAL = 55"
| "op_byte OP_TYPE_STRUCT = 56"
| "op_byte OP_TYPE_INDEXED_COLLECTION = 57"
| "op_byte OP_SET_CELL_TYPE = 58"
| "op_byte OP_DEREF_PTR = 59"
| "op_byte OP_SET_PTR_TARGET = 60"
| "op_byte OP_PLACE = 61"
| "op_byte OP_DUPLICATE = 62"
| "op_byte OP_ERROR = 63"

definition decode :: "u8 \<Rightarrow> OpCode option" where
  "decode b = (if unat b < length opcodes then Some (opcodes ! unat b) else None)"

lemma decode_op_byte [simp]: "decode (op_byte x) = Some x"
  by (cases x) (simp_all add: decode_def opcodes_def)

subsection \<open>Chunks\<close>

datatype ObjFunction =
    ObjFunction (fName: "string option") (arity: nat) (upvalueCount: nat) (fn_code: "u8 list")
      (fn_constants: "Constant list") (fn_lines: "(u16 \<times> u16) list")
and Constant = KValue Value | KString string | KFunction ObjFunction

record Chunk =
  code :: "u8 list"
  chunk_lines :: "(u16 \<times> u16) list"
  constants :: "Constant list"

definition initChunk :: Chunk where
  "initChunk = \<lparr>code = [], chunk_lines = [], constants = []\<rparr>"

definition writeChunk :: "u8 \<Rightarrow> Chunk \<Rightarrow> Chunk" where
  "writeChunk byte chunk = chunk\<lparr>code := code chunk @ [byte]\<rparr>"

text \<open>
  \<^verbatim>\<open>valuesEqual\<close> on constants: strings are interned, and a function that is added is a new object.
\<close>

fun constants_equal :: "Constant \<Rightarrow> Constant \<Rightarrow> bool" where
  "constants_equal (KValue a) (KValue b) = valuesEqual (\<lambda>_. 0) a b"
| "constants_equal (KString a) (KString b) = (a = b)"
| "constants_equal _ _ = False"

fun find_constant :: "Constant list \<Rightarrow> Constant \<Rightarrow> nat \<Rightarrow> nat option" where
  "find_constant [] v i = None"
| "find_constant (c # cs) v i = (if constants_equal c v then Some i else find_constant cs v (Suc i))"

definition addConstant :: "Constant \<Rightarrow> Chunk \<Rightarrow> nat \<times> Chunk" where
  "addConstant v chunk =
     (case find_constant (constants chunk) v 0 of
        Some i \<Rightarrow> (i, chunk)
      | None \<Rightarrow> (length (constants chunk), chunk\<lparr>constants := constants chunk @ [v]\<rparr>))"

lemma find_constant_spec:
  "case find_constant cs v i of
     Some j \<Rightarrow> i \<le> j \<and> j < i + length cs \<and> constants_equal (cs ! (j - i)) v
   | None \<Rightarrow> \<forall>c \<in> set cs. \<not> constants_equal c v"
proof (induction cs arbitrary: i)
  case (Cons c cs)
  show ?case
  proof (cases "constants_equal c v")
    case False
    show ?thesis using Cons.IH [of "Suc i"] False
      by (auto split: option.splits simp: Suc_diff_le nth_Cons')
  qed simp
qed simp

text \<open>The index that is returned holds the constant, or one that the language cannot tell from it.\<close>

lemma addConstant_correct:
  assumes "addConstant v chunk = (i, chunk')"
  shows "i < length (constants chunk')" "constants chunk' ! i = v \<or> constants_equal (constants chunk' ! i) v"
    "code chunk' = code chunk" "\<exists>cs. constants chunk' = constants chunk @ cs"
  using assms find_constant_spec [of "constants chunk" v 0]
  by (auto simp: addConstant_def split: option.splits)

end
