(* ===== verification/Ast.thy ===== *)
theory Ast
  imports BigInt_Text
begin

section \<open>The abstract syntax tree (\<^verbatim>\<open>src/cyarg/ast.h\<close>)\<close>

text \<open>
  The nodes that the parser builds and the compiler reads. An \<^verbatim>\<open>ObjExpr*\<close> is the list of the
  elements linked by \<^verbatim>\<open>nextExpr\<close>, so that the null pointer is the empty list, and likewise an
  \<^verbatim>\<open>ObjStmt*\<close>. A node of an operation that is not the first of its list has its left operand in the
  elements before it.
\<close>

datatype ExprOp =
    EXPR_OP_EQUAL | EXPR_OP_GREATER | EXPR_OP_RIGHT_SHIFT | EXPR_OP_LESS | EXPR_OP_LEFT_SHIFT
  | EXPR_OP_ADD | EXPR_OP_SUBTRACT | EXPR_OP_MULTIPLY | EXPR_OP_DIVIDE | EXPR_OP_BIT_OR
  | EXPR_OP_BIT_AND | EXPR_OP_BIT_XOR | EXPR_OP_MODULO | EXPR_OP_NOT_EQUAL | EXPR_OP_GREATER_EQUAL
  | EXPR_OP_LESS_EQUAL | EXPR_OP_NOT | EXPR_OP_NEGATE | EXPR_OP_LOGICAL_AND | EXPR_OP_LOGICAL_OR
  | EXPR_OP_DEREF_PTR

datatype ExprLiteral = EXPR_LITERAL_TRUE | EXPR_LITERAL_FALSE | EXPR_LITERAL_NIL

datatype ExprBuiltin =
    EXPR_BUILTIN_READ_YARG_SOURCE | EXPR_BUILTIN_READ_XIP_FILE | EXPR_BUILTIN_COMPILE
  | EXPR_BUILTIN_MAKE_ROUTINE | EXPR_BUILTIN_MAKE_CHANNEL | EXPR_BUILTIN_MAKE_SYNCGROUP
  | EXPR_BUILTIN_RESUME | EXPR_BUILTIN_START | EXPR_BUILTIN_RECEIVE | EXPR_BUILTIN_SEND
  | EXPR_BUILTIN_CPEEK | EXPR_BUILTIN_SHARE | EXPR_BUILTIN_PEEK | EXPR_BUILTIN_LEN
  | EXPR_BUILTIN_PIN | EXPR_BUILTIN_NEW | EXPR_BUILTIN_INT8 | EXPR_BUILTIN_UINT8
  | EXPR_BUILTIN_INT16 | EXPR_BUILTIN_UINT16 | EXPR_BUILTIN_INT32 | EXPR_BUILTIN_UINT32
  | EXPR_BUILTIN_INT64 | EXPR_BUILTIN_UINT64 | EXPR_BUILTIN_TS_SET | EXPR_BUILTIN_TS_READ
  | EXPR_BUILTIN_TS_WRITE | EXPR_BUILTIN_TS_INTERRUPT | EXPR_BUILTIN_TS_SYNC | EXPR_BUILTIN_INT
  | EXPR_BUILTIN_MFLOAT64 | EXPR_BUILTIN_STRING | EXPR_BUILTIN_LOAD

definition builtins :: "ExprBuiltin list" where
  "builtins =
     [EXPR_BUILTIN_READ_YARG_SOURCE, EXPR_BUILTIN_READ_XIP_FILE, EXPR_BUILTIN_COMPILE,
      EXPR_BUILTIN_MAKE_ROUTINE, EXPR_BUILTIN_MAKE_CHANNEL, EXPR_BUILTIN_MAKE_SYNCGROUP,
      EXPR_BUILTIN_RESUME, EXPR_BUILTIN_START, EXPR_BUILTIN_RECEIVE, EXPR_BUILTIN_SEND,
      EXPR_BUILTIN_CPEEK, EXPR_BUILTIN_SHARE, EXPR_BUILTIN_PEEK, EXPR_BUILTIN_LEN,
      EXPR_BUILTIN_PIN, EXPR_BUILTIN_NEW, EXPR_BUILTIN_INT8, EXPR_BUILTIN_UINT8,
      EXPR_BUILTIN_INT16, EXPR_BUILTIN_UINT16, EXPR_BUILTIN_INT32, EXPR_BUILTIN_UINT32,
      EXPR_BUILTIN_INT64, EXPR_BUILTIN_UINT64, EXPR_BUILTIN_TS_SET, EXPR_BUILTIN_TS_READ,
      EXPR_BUILTIN_TS_WRITE, EXPR_BUILTIN_TS_INTERRUPT, EXPR_BUILTIN_TS_SYNC, EXPR_BUILTIN_INT,
      EXPR_BUILTIN_MFLOAT64, EXPR_BUILTIN_STRING, EXPR_BUILTIN_LOAD]"

datatype ExprTypeLiteral =
    EXPR_TYPE_LITERAL_BOOL | EXPR_TYPE_LITERAL_INT8 | EXPR_TYPE_LITERAL_UINT8
  | EXPR_TYPE_LITERAL_INT16 | EXPR_TYPE_LITERAL_UINT16 | EXPR_TYPE_LITERAL_INT32
  | EXPR_TYPE_LITERAL_UINT32 | EXPR_TYPE_LITERAL_INT64 | EXPR_TYPE_LITERAL_UINT64
  | EXPR_TYPE_LITERAL_MFLOAT64 | EXPR_TYPE_LITERAL_STRING | EXPR_TYPE_LITERAL_INT

datatype ObjExpr =
    ExprNumberInt Int_struct
  | ExprNumberDouble u64
  | ExprOperation ExprOp (op_rhs: "ObjExpr list") (op_assignment: "ObjExpr list")
  | ExprGrouping "ObjExpr list"
  | ExprNamedVariable string "ObjExpr list"
  | ExprLiteral ExprLiteral
  | ExprAddress nat
  | ExprString string
  | ExprCall "ObjExpr list list"
  | ExprCollectionInitializer bool "(ObjExpr list option \<times> ObjExpr list) list" "ObjExpr list"
  | ExprCollectionElement "ObjExpr list" "ObjExpr list"
  | ExprBuiltin ExprBuiltin
  | ExprDot string "ObjExpr list" "ObjExpr list" "ObjExpr list list option"
  | ExprSuper string "ObjExpr list list option"
  | ExprType ExprTypeLiteral
  | ExprTypeStruct "(nat \<times> string \<times> ObjExpr list \<times> ObjExpr list) list"
  | ExprTypeIndexedCollection "ObjExpr list"

text \<open>A statement has the number of its line.\<close>

datatype ObjStmt =
    StmtExpression nat "ObjExpr list"
  | StmtPrint nat "ObjExpr list"
  | StmtError nat "ObjExpr list"
  | StmtPoke nat "ObjExpr list" "ObjExpr list" "ObjExpr list"
  | StmtVarDeclaration nat string "ObjExpr list" "ObjExpr list"
  | StmtPlaceDeclaration nat "ObjExpr list" "(string \<times> ObjExpr list) list"
  | StmtBlock nat "ObjStmt list"
  | StmtIf nat "ObjExpr list" "ObjStmt list" "ObjStmt list"
  | StmtFunDeclaration nat string "string list" "ObjStmt list"
  | StmtWhile nat "ObjExpr list" "ObjStmt list"
  | StmtYield nat "ObjExpr list"
  | StmtReturn nat "ObjExpr list"
  | StmtFor nat "ObjStmt list" "ObjExpr list" "ObjExpr list" "ObjStmt list"
  | StmtClassDeclaration nat string "string option" "(nat \<times> string \<times> string list \<times> ObjStmt list) list"
  | StmtFieldDeclaration nat string "ObjExpr list" "ObjExpr list"

fun stmt_line :: "ObjStmt \<Rightarrow> nat" where
  "stmt_line (StmtExpression l _) = l" | "stmt_line (StmtPrint l _) = l" | "stmt_line (StmtError l _) = l"
| "stmt_line (StmtPoke l _ _ _) = l" | "stmt_line (StmtVarDeclaration l _ _ _) = l"
| "stmt_line (StmtPlaceDeclaration l _ _) = l" | "stmt_line (StmtBlock l _) = l" | "stmt_line (StmtIf l _ _ _) = l"
| "stmt_line (StmtFunDeclaration l _ _ _) = l" | "stmt_line (StmtWhile l _ _) = l" | "stmt_line (StmtYield l _) = l"
| "stmt_line (StmtReturn l _) = l" | "stmt_line (StmtFor l _ _ _ _) = l"
| "stmt_line (StmtClassDeclaration l _ _ _) = l" | "stmt_line (StmtFieldDeclaration l _ _ _) = l"

end
