(* ===== verification/Compiler.thy ===== *)
theory Compiler
  imports Chunk Ast
begin

section \<open>The compiler (\<^verbatim>\<open>src/cyarg/compiler.c\<close>)\<close>

text \<open>
  Code generation from the abstract syntax tree. The state of the compiler is the chain of the
  functions being compiled, the current one first, and the chain of the enclosing classes. An error
  is recorded in the current function and code generation goes on; the flag \<open>aborted\<close> is a failed
  assertion.
\<close>

datatype FunctionType = TYPE_FUNCTION | TYPE_INITIALIZER | TYPE_METHOD | TYPE_SCRIPT

record Local =
  l_name :: string
  l_depth :: int
  isCaptured :: bool

datatype ErrorLocation = NoLocation | AtText string | AtConstant Constant

record Compiler =
  function_name :: "string option"
  chunk :: Chunk
  c_type :: FunctionType
  recent :: "nat option"
  errors :: "(nat \<times> ErrorLocation \<times> string) list"
  panicMode :: bool
  locals :: "Local list"
  upvalues :: "(u8 \<times> bool) list"
  scopeDepth :: int

record gen =
  compilers :: "Compiler list"
  classes :: "bool list"
  aborted :: bool

definition current :: "gen \<Rightarrow> Compiler" where
  "current g = hd (compilers g)"

definition on_current :: "(Compiler \<Rightarrow> Compiler) \<Rightarrow> gen \<Rightarrow> gen" where
  "on_current f g = g\<lparr>compilers := f (current g) # tl (compilers g)\<rparr>"

definition abort :: "gen \<Rightarrow> gen" where
  "abort g = g\<lparr>aborted := True\<rparr>"

definition initCompiler :: "FunctionType \<Rightarrow> string option \<Rightarrow> gen \<Rightarrow> gen" where
  "initCompiler type name g =
     g\<lparr>compilers :=
        \<lparr>function_name = (if type \<noteq> TYPE_SCRIPT then name else None), chunk = initChunk, c_type = type,
         recent = None, errors = [], panicMode = False,
         locals = [\<lparr>l_name = (if type \<noteq> TYPE_FUNCTION then ''this'' else ''''), l_depth = 0, isCaptured = False\<rparr>],
         upvalues = [], scopeDepth = 0\<rparr> # compilers g\<rparr>"

subsection \<open>Errors\<close>

definition errorAt :: "ErrorLocation \<Rightarrow> string \<Rightarrow> gen \<Rightarrow> gen" where
  "errorAt location message =
     on_current (\<lambda>c. if panicMode c then c
       else c\<lparr>panicMode := True,
              errors := errors c @ [(case recent c of Some l \<Rightarrow> l | None \<Rightarrow> 1, location, message)]\<rparr>)"

definition compile_error :: "string \<Rightarrow> gen \<Rightarrow> gen" where
  "compile_error message = errorAt NoLocation message"

subsection \<open>Emitting code\<close>

definition emitByte :: "u8 \<Rightarrow> gen \<Rightarrow> gen" where
  "emitByte byte = on_current (\<lambda>c. c\<lparr>chunk := writeChunk byte (chunk c)\<rparr>)"

definition emitBytes :: "u8 \<Rightarrow> u8 \<Rightarrow> gen \<Rightarrow> gen" where
  "emitBytes byte1 byte2 g = emitByte byte2 (emitByte byte1 g)"

definition code_count :: "gen \<Rightarrow> nat" where
  "code_count g = length (code (chunk (current g)))"

definition emitLoop :: "nat \<Rightarrow> gen \<Rightarrow> gen" where
  "emitLoop loopStart g =
     (let g1 = emitByte (op_byte OP_LOOP) g;
          offset = code_count g1 - loopStart + 2;
          g2 = (if offset > 65535 then compile_error ''Loop body too large.'' g1 else g1)
      in emitByte (of_nat (offset mod 256)) (emitByte (of_nat (offset div 256)) g2))"

definition emitJump :: "OpCode \<Rightarrow> gen \<Rightarrow> nat \<times> gen" where
  "emitJump instruction g =
     (let g1 = emitByte 0xFF (emitByte 0xFF (emitByte (op_byte instruction) g)) in (code_count g1 - 2, g1))"

definition patchJump :: "nat \<Rightarrow> gen \<Rightarrow> gen" where
  "patchJump offset g =
     (let jump = code_count g - offset - 2;
          g1 = (if jump > 65535 then compile_error ''Too much code to jump over.'' g else g)
      in on_current (\<lambda>c. c\<lparr>chunk := (chunk c)\<lparr>code :=
           (code (chunk c))[offset := of_nat (jump div 256), offset + 1 := of_nat (jump mod 256)]\<rparr>\<rparr>) g1)"

definition makeConstant :: "Constant \<Rightarrow> gen \<Rightarrow> u8 \<times> gen" where
  "makeConstant v g =
     (let (i, ch) = addConstant v (chunk (current g));
          g1 = on_current (\<lambda>c. c\<lparr>chunk := ch\<rparr>) g
      in if i > 255 then (0, errorAt (AtConstant v) ''Too many constants in one chunk.'' g1) else (of_nat i, g1))"

definition emitImmediateConstant :: "int \<Rightarrow> gen \<Rightarrow> gen" where
  "emitImmediateConstant v g =
     (let w = (if v < 0 then - v else v)
      in if - 255 \<le> v \<and> v \<le> 255 then
           emitBytes (op_byte (if v < 0 then OP_IMMEDIATE_N8 else OP_IMMEDIATE_P8)) (word_of_int w) g
         else if - 65535 \<le> v \<and> v \<le> 65535 then
           emitByte (word_of_int (w div 256))
             (emitBytes (op_byte (if v < 0 then OP_IMMEDIATE_N16 else OP_IMMEDIATE_P16)) (word_of_int (w mod 256)) g)
         else
           emitBytes (word_of_int (w div 256 mod 256)) (word_of_int (w div 65536))
             (emitBytes (op_byte (if v < 0 then OP_IMMEDIATE_N24 else OP_IMMEDIATE_P24)) (word_of_int (w mod 256)) g))"

definition emitConstant :: "Constant \<Rightarrow> gen \<Rightarrow> gen" where
  "emitConstant v g =
     (let large = (let (i, g1) = makeConstant v g in emitBytes (op_byte OP_CONSTANT) i g1)
      in case v of
           KValue (ADDRESS_VAL _) \<Rightarrow> large
         | KValue (DOUBLE_VAL _) \<Rightarrow> large
         | KValue (INT_VAL i) \<Rightarrow>
             if int_is_range i (- 0xFFFFFF) 0xFFFFFF = INT_WITHIN
             then emitImmediateConstant (sint (int_to_i32 i)) g else large
         | KString _ \<Rightarrow> large
         | _ \<Rightarrow> abort g)"

definition emitReturn :: "gen \<Rightarrow> gen" where
  "emitReturn g =
     emitByte (op_byte OP_RETURN)
       (if c_type (current g) = TYPE_INITIALIZER then emitBytes (op_byte OP_GET_LOCAL) 0 g
        else emitByte (op_byte OP_NIL) g)"

subsection \<open>Variables\<close>

text \<open>The index of the innermost local variable with a name, and whether it is being initialised.\<close>

fun resolveLocal_from :: "nat \<Rightarrow> Local list \<Rightarrow> string \<Rightarrow> (nat \<times> bool) option" where
  "resolveLocal_from 0 ls name = None"
| "resolveLocal_from (Suc i) ls name =
     (if l_name (ls ! i) = name then Some (i, l_depth (ls ! i) = - 1) else resolveLocal_from i ls name)"

definition resolveLocal :: "Compiler \<Rightarrow> string \<Rightarrow> (nat \<times> bool) option" where
  "resolveLocal c name = resolveLocal_from (length (locals c)) (locals c) name"

definition addLocal :: "string \<Rightarrow> gen \<Rightarrow> gen" where
  "addLocal name g =
     (if length (locals (current g)) = 256 then errorAt (AtText name) ''Too many local variables in function.'' g
      else on_current (\<lambda>c. c\<lparr>locals := locals c @ [\<lparr>l_name = name, l_depth = - 1, isCaptured = False\<rparr>]\<rparr>) g)"

fun find_upvalue :: "(u8 \<times> bool) list \<Rightarrow> u8 \<times> bool \<Rightarrow> nat \<Rightarrow> nat option" where
  "find_upvalue [] u i = None"
| "find_upvalue (v # vs) u i = (if v = u then Some i else find_upvalue vs u (Suc i))"

text \<open>The index of the upvalue, and the errors for the current function.\<close>

definition addUpvalue :: "u8 \<Rightarrow> bool \<Rightarrow> string \<Rightarrow> Compiler \<Rightarrow> nat \<times> (string \<times> string) list \<times> Compiler" where
  "addUpvalue index isLocal name c =
     (case find_upvalue (upvalues c) (index, isLocal) 0 of
        Some i \<Rightarrow> (i, [], c)
      | None \<Rightarrow>
          if length (upvalues c) = 256 then (0, [(name, ''Too many closure variables in function.'')], c)
          else (length (upvalues c), [], c\<lparr>upvalues := upvalues c @ [(index, isLocal)]\<rparr>))"

definition own_initializer :: "string \<Rightarrow> bool \<Rightarrow> (string \<times> string) list" where
  "own_initializer name bad = (if bad then [(name, ''Can't read local variable in its own initializer.'')] else [])"

fun resolveUpvalue :: "string \<Rightarrow> Compiler list \<Rightarrow> nat option \<times> (string \<times> string) list \<times> Compiler list" where
  "resolveUpvalue name [] = (None, [], [])"
| "resolveUpvalue name [c] = (None, [], [c])"
| "resolveUpvalue name (c # d # ds) =
     (case resolveLocal d name of
        Some (i, bad) \<Rightarrow>
          let d' = d\<lparr>locals := (locals d)[i := (locals d ! i)\<lparr>isCaptured := True\<rparr>]\<rparr>;
              (u, es, c') = addUpvalue (of_nat i) True name c
          in (Some u, own_initializer name bad @ es, c' # d' # ds)
      | None \<Rightarrow>
          (case resolveUpvalue name (d # ds) of
             (None, es, ds') \<Rightarrow> (None, es, c # ds')
           | (Some u, es, ds') \<Rightarrow>
               let (v, es', c') = addUpvalue (of_nat u) False name c in (Some v, es @ es', c' # ds')))"

definition errors_at :: "(string \<times> string) list \<Rightarrow> gen \<Rightarrow> gen" where
  "errors_at es g = fold (\<lambda>(n, m). errorAt (AtText n) m) es g"

definition identifierConstant :: "string \<Rightarrow> gen \<Rightarrow> u8 \<times> gen" where
  "identifierConstant name g = makeConstant (KString name) g"

text \<open>The instructions that read and write a variable, and their operand.\<close>

definition resolveVariable :: "string \<Rightarrow> gen \<Rightarrow> OpCode \<times> OpCode \<times> u8 \<times> gen" where
  "resolveVariable name g =
     (case resolveLocal (current g) name of
        Some (i, bad) \<Rightarrow> (OP_GET_LOCAL, OP_SET_LOCAL, of_nat i, errors_at (own_initializer name bad) g)
      | None \<Rightarrow>
          (case resolveUpvalue name (compilers g) of
             (Some u, es, cs) \<Rightarrow> (OP_GET_UPVALUE, OP_SET_UPVALUE, of_nat u, errors_at es (g\<lparr>compilers := cs\<rparr>))
           | (None, es, cs) \<Rightarrow>
               let (k, g1) = identifierConstant name (errors_at es (g\<lparr>compilers := cs\<rparr>))
               in (OP_GET_GLOBAL, OP_SET_GLOBAL, k, g1)))"

fun declared_here :: "int \<Rightarrow> Local list \<Rightarrow> string \<Rightarrow> bool" where
  "declared_here d [] name = False"
| "declared_here d (l # ls) name =
     (if l_depth l \<noteq> - 1 \<and> l_depth l < d then False
      else if l_name l = name then True else declared_here d ls name)"

definition declareVariable :: "string \<Rightarrow> gen \<Rightarrow> gen" where
  "declareVariable name g =
     (let c = current g
      in if scopeDepth c = 0 then g
         else if declared_here (scopeDepth c) (rev (locals c)) name
         then errorAt (AtText name) ''Already a variable with this name in this scope.'' g
         else addLocal name g)"

definition parseVariable :: "string \<Rightarrow> gen \<Rightarrow> u8 \<times> gen" where
  "parseVariable name g =
     (let g1 = declareVariable name g
      in if scopeDepth (current g1) > 0 then (0, g1) else identifierConstant name g1)"

definition markInitialized :: "gen \<Rightarrow> gen" where
  "markInitialized g =
     (if scopeDepth (current g) = 0 then g
      else on_current (\<lambda>c. c\<lparr>locals := (locals c)[length (locals c) - 1 :=
             (last (locals c))\<lparr>l_depth := scopeDepth c\<rparr>]\<rparr>) g)"

definition defineVariable :: "u8 \<Rightarrow> gen \<Rightarrow> gen" where
  "defineVariable global g =
     (if scopeDepth (current g) > 0 then markInitialized g else emitBytes (op_byte OP_DEFINE_GLOBAL) global g)"

definition beginScope :: "gen \<Rightarrow> gen" where
  "beginScope = on_current (\<lambda>c. c\<lparr>scopeDepth := scopeDepth c + 1\<rparr>)"

text \<open>The loop of \<^verbatim>\<open>endScope\<close> on the local variables, the last one first.\<close>

fun endScope_loop :: "Local list \<Rightarrow> gen \<Rightarrow> gen" where
  "endScope_loop [] g = on_current (\<lambda>c. c\<lparr>locals := []\<rparr>) g"
| "endScope_loop (l # ls) g =
     (if l_depth l > scopeDepth (current g)
      then endScope_loop ls (emitByte (op_byte (if isCaptured l then OP_CLOSE_UPVALUE else OP_POP)) g)
      else on_current (\<lambda>c. c\<lparr>locals := rev (l # ls)\<rparr>) g)"

definition endScope :: "gen \<Rightarrow> gen" where
  "endScope g =
     (let g1 = on_current (\<lambda>c. c\<lparr>scopeDepth := scopeDepth c - 1\<rparr>) g
      in endScope_loop (rev (locals (current g1))) g1)"

subsection \<open>Expressions\<close>

definition generateNumber :: "Int_struct \<Rightarrow> gen \<Rightarrow> gen" where
  "generateNumber num g =
     (case allocateIntValue (i_d num) of
        None \<Rightarrow> abort g
      | Some v \<Rightarrow> (case int_set_t num (v\<lparr>i_literal := True\<rparr>) of
          None \<Rightarrow> abort g
        | Some n \<Rightarrow> emitConstant (KValue (INT_VAL n)) g))"

fun arith_instructions :: "ExprOp \<Rightarrow> OpCode list" where
  "arith_instructions EXPR_OP_EQUAL = [OP_EQUAL]"
| "arith_instructions EXPR_OP_GREATER = [OP_GREATER]"
| "arith_instructions EXPR_OP_RIGHT_SHIFT = [OP_RIGHT_SHIFT]"
| "arith_instructions EXPR_OP_LESS = [OP_LESS]"
| "arith_instructions EXPR_OP_LEFT_SHIFT = [OP_LEFT_SHIFT]"
| "arith_instructions EXPR_OP_ADD = [OP_ADD]"
| "arith_instructions EXPR_OP_SUBTRACT = [OP_SUBTRACT]"
| "arith_instructions EXPR_OP_MULTIPLY = [OP_MULTIPLY]"
| "arith_instructions EXPR_OP_DIVIDE = [OP_DIVIDE]"
| "arith_instructions EXPR_OP_BIT_OR = [OP_BITOR]"
| "arith_instructions EXPR_OP_BIT_AND = [OP_BITAND]"
| "arith_instructions EXPR_OP_BIT_XOR = [OP_BITXOR]"
| "arith_instructions EXPR_OP_MODULO = [OP_MODULO]"
| "arith_instructions EXPR_OP_NOT_EQUAL = [OP_EQUAL, OP_NOT]"
| "arith_instructions EXPR_OP_GREATER_EQUAL = [OP_LESS, OP_NOT]"
| "arith_instructions EXPR_OP_LESS_EQUAL = [OP_GREATER, OP_NOT]"
| "arith_instructions EXPR_OP_NOT = [OP_NOT]"
| "arith_instructions EXPR_OP_NEGATE = [OP_NEGATE]"
| "arith_instructions _ = []"

definition emitOps :: "OpCode list \<Rightarrow> gen \<Rightarrow> gen" where
  "emitOps ops g = fold (\<lambda>i. emitByte (op_byte i)) ops g"

definition generateGetNamedVariable :: "string \<Rightarrow> gen \<Rightarrow> gen" where
  "generateGetNamedVariable name g =
     (let (getOp, _, arg, g1) = resolveVariable name g in emitBytes (op_byte getOp) arg g1)"

fun generateExprLiteral :: "ExprLiteral \<Rightarrow> gen \<Rightarrow> gen" where
  "generateExprLiteral EXPR_LITERAL_FALSE g = emitByte (op_byte OP_FALSE) g"
| "generateExprLiteral EXPR_LITERAL_TRUE g = emitByte (op_byte OP_TRUE) g"
| "generateExprLiteral EXPR_LITERAL_NIL g = emitByte (op_byte OP_NIL) g"

text \<open>The enumerations of the built-in functions in the tree and in the byte code have the same order.\<close>

fun index_of :: "'a list \<Rightarrow> 'a \<Rightarrow> nat" where
  "index_of [] x = 0"
| "index_of (y # ys) x = (if x = y then 0 else Suc (index_of ys x))"

definition generateExprBuiltin :: "ExprBuiltin \<Rightarrow> gen \<Rightarrow> gen" where
  "generateExprBuiltin fn g = emitBytes (op_byte OP_GET_BUILTIN) (of_nat (index_of builtins fn)) g"

fun type_code :: "ExprTypeLiteral \<Rightarrow> u8" where
  "type_code EXPR_TYPE_LITERAL_BOOL = 0" | "type_code EXPR_TYPE_LITERAL_INT8 = 1"
| "type_code EXPR_TYPE_LITERAL_UINT8 = 2" | "type_code EXPR_TYPE_LITERAL_INT16 = 3"
| "type_code EXPR_TYPE_LITERAL_UINT16 = 4" | "type_code EXPR_TYPE_LITERAL_INT32 = 5"
| "type_code EXPR_TYPE_LITERAL_UINT32 = 6" | "type_code EXPR_TYPE_LITERAL_INT64 = 7"
| "type_code EXPR_TYPE_LITERAL_UINT64 = 8" | "type_code EXPR_TYPE_LITERAL_MFLOAT64 = 9"
| "type_code EXPR_TYPE_LITERAL_STRING = 10" | "type_code EXPR_TYPE_LITERAL_INT = 11"

definition generateExprType :: "ExprTypeLiteral \<Rightarrow> gen \<Rightarrow> gen" where
  "generateExprType t g = emitBytes (op_byte OP_TYPE_LITERAL) (type_code t) g"

text \<open>What \<^verbatim>\<open>generateStmt\<close> does before the code of a statement: the table of lines, and the end of panic mode.\<close>

definition beginStmt :: "nat \<Rightarrow> gen \<Rightarrow> gen" where
  "beginStmt line =
     on_current (\<lambda>c.
       let ls = chunk_lines (chunk c);
           ch = (if ls = [] \<or> unat (snd (last ls)) \<noteq> line
                 then (chunk c)\<lparr>chunk_lines := ls @ [(of_nat (length (code (chunk c))), of_nat line)]\<rparr>
                 else chunk c)
       in c\<lparr>chunk := ch, panicMode := False, recent := Some line\<rparr>)"

text \<open>
  Each kind of expression has a function for its code, which takes the generators of the code of
  the expressions in it.
\<close>

type_synonym generator = "gen \<Rightarrow> gen"

definition generateExprLogicalAnd :: "generator \<Rightarrow> generator" where
  "generateExprLogicalAnd rhs g =
     (let (endJump, g1) = emitJump OP_JUMP_IF_FALSE g
      in patchJump endJump (rhs (emitByte (op_byte OP_POP) g1)))"

definition generateExprLogicalOr :: "generator \<Rightarrow> generator" where
  "generateExprLogicalOr rhs g =
     (let (elseJump, g1) = emitJump OP_JUMP_IF_FALSE g;
          (endJump, g2) = emitJump OP_JUMP g1
      in patchJump endJump (rhs (emitByte (op_byte OP_POP) (patchJump elseJump g2))))"

definition generateExprAssignable :: "generator \<Rightarrow> generator option \<Rightarrow> generator" where
  "generateExprAssignable rhs assignment g =
     (case assignment of
        None \<Rightarrow> emitByte (op_byte OP_DEREF_PTR) (rhs g)
      | Some a \<Rightarrow> emitByte (op_byte OP_SET_PTR_TARGET) (a (rhs g)))"

definition generateArithOperation :: "ExprOp \<Rightarrow> generator \<Rightarrow> generator" where
  "generateArithOperation operation rhs g = emitOps (arith_instructions operation) (rhs g)"

definition generateExprOperation :: "ExprOp \<Rightarrow> generator \<Rightarrow> generator option \<Rightarrow> generator" where
  "generateExprOperation operation rhs assignment =
     (if operation = EXPR_OP_LOGICAL_AND then generateExprLogicalAnd rhs
      else if operation = EXPR_OP_LOGICAL_OR then generateExprLogicalOr rhs
      else if operation = EXPR_OP_DEREF_PTR then generateExprAssignable rhs assignment
      else generateArithOperation operation rhs)"

definition generateExprNamedVariable :: "string \<Rightarrow> generator option \<Rightarrow> generator" where
  "generateExprNamedVariable name assignment g =
     (if name = ''this'' \<and> classes g = [] then errorAt (AtText ''this'') ''Can't use 'this' outside of a class.'' g
      else let (getOp, setOp, arg, g1) = resolveVariable name g
           in case assignment of
                Some a \<Rightarrow> emitBytes (op_byte setOp) arg (emitByte (op_byte OP_DUPLICATE) (a g1))
              | None \<Rightarrow> emitBytes (op_byte getOp) arg g1)"

definition generateExprCall :: "nat \<Rightarrow> generator \<Rightarrow> generator" where
  "generateExprCall argCount args g = emitBytes (op_byte OP_CALL) (of_nat argCount) (args g)"

definition generateExprCollectionInit :: "generator option \<Rightarrow> generator \<Rightarrow> generator" where
  "generateExprCollectionInit cardinal inits g =
     (let g1 = emitByte (op_byte OP_NIL) (emitBytes (op_byte OP_GET_BUILTIN) (of_nat (index_of builtins EXPR_BUILTIN_NEW)) g);
          g2 = (case cardinal of
                  None \<Rightarrow> emitBytes (op_byte OP_TYPE_LITERAL) (type_code EXPR_TYPE_LITERAL_STRING) g1
                | Some c \<Rightarrow> c g1)
      in inits (emitBytes (op_byte OP_CALL) 1 (emitByte (op_byte OP_TYPE_INDEXED_COLLECTION) g2)))"

definition generateExprCollectionElement :: "generator \<Rightarrow> generator option \<Rightarrow> generator" where
  "generateExprCollectionElement e assignment g =
     (case assignment of
        Some a \<Rightarrow> emitByte (op_byte OP_SET_ELEMENT) (a (e g))
      | None \<Rightarrow> emitByte (op_byte OP_ELEMENT) (e g))"

definition generateExprDot :: "string \<Rightarrow> generator option \<Rightarrow> generator option \<Rightarrow> (nat \<times> generator) option \<Rightarrow> generator" where
  "generateExprDot name offset assignment call g =
     (let (k, g1) = identifierConstant name g
      in case offset of
           Some off \<Rightarrow> emitByte (op_byte OP_ADD) (off g1)
         | None \<Rightarrow> (case assignment of
             Some a \<Rightarrow> emitBytes (op_byte OP_SET_PROPERTY) k (a g1)
           | None \<Rightarrow> (case call of
               Some (n, args) \<Rightarrow> emitByte (of_nat n) (emitBytes (op_byte OP_INVOKE) k (args g1))
             | None \<Rightarrow> emitBytes (op_byte OP_GET_PROPERTY) k g1)))"

definition generateExprSuper :: "string \<Rightarrow> (nat \<times> generator) option \<Rightarrow> generator" where
  "generateExprSuper name call g =
     (let g1 = (if classes g = [] then errorAt (AtText ''super'') ''Can't use 'super' outside of a class.'' g
                else if \<not> hd (classes g)
                then errorAt (AtText ''super'') ''Can't use 'super' in a class with no superclass.'' g
                else g);
          (k, g2) = identifierConstant name g1;
          g3 = generateGetNamedVariable ''this'' g2
      in case call of
           Some (n, args) \<Rightarrow>
             emitByte (of_nat n) (emitBytes (op_byte OP_SUPER_INVOKE) k (generateGetNamedVariable ''super'' (args g3)))
         | None \<Rightarrow> emitBytes (op_byte OP_GET_SUPER) k (generateGetNamedVariable ''super'' g3))"

definition generateExprTypeStruct :: "nat \<Rightarrow> generator \<Rightarrow> generator" where
  "generateExprTypeStruct fieldCount fieldDecls g =
     (let g1 = fieldDecls g;
          g2 = (if fieldCount > 255 then compile_error ''Can't have more than 256 fields.'' g1 else g1)
      in emitBytes (op_byte OP_TYPE_STRUCT) (of_nat fieldCount) g2)"

definition generateExprTypeIndexedCollection :: "generator option \<Rightarrow> generator" where
  "generateExprTypeIndexedCollection indexing g =
     emitByte (op_byte OP_TYPE_INDEXED_COLLECTION)
       (case indexing of
          None \<Rightarrow> compile_error ''Indexed collection type must have an indexing expression.'' g
        | Some e \<Rightarrow> e g)"

definition generateInitializer :: "nat \<Rightarrow> generator option \<Rightarrow> generator \<Rightarrow> generator" where
  "generateInitializer i a b g =
     emitByte (op_byte OP_SET_ELEMENT)
       (b (case a of Some a' \<Rightarrow> a' g | None \<Rightarrow> generateNumber (int_set_i (of_nat i) int_init_concrete2) g))"

definition generateStmtFieldDeclaration :: "string \<Rightarrow> generator \<Rightarrow> generator \<Rightarrow> generator" where
  "generateStmtFieldDeclaration name type offset g =
     (let (k, g1) = makeConstant (KString name) (offset (type g)) in emitBytes (op_byte OP_CONSTANT) k g1)"

function (sequential) generateExpr :: "ObjExpr list \<Rightarrow> generator"
  and generateExprElt :: "ObjExpr \<Rightarrow> generator"
  and generateCallExprs :: "ObjExpr list list \<Rightarrow> generator"
  and generateInitializers :: "nat \<Rightarrow> (ObjExpr list option \<times> ObjExpr list) list \<Rightarrow> generator"
  and generateFields :: "(nat \<times> string \<times> ObjExpr list \<times> ObjExpr list) list \<Rightarrow> generator" where
  "generateExpr [] = id"
| "generateExpr (e # es) = generateExpr es \<circ> generateExprElt e"
| "generateExprElt (ExprNumberInt n) = generateNumber n"
| "generateExprElt (ExprNumberDouble d) = emitConstant (KValue (DOUBLE_VAL d))"
| "generateExprElt (ExprOperation operation rhs assignment) =
     generateExprOperation operation (generateExpr rhs) (if assignment = [] then None else Some (generateExpr assignment))"
| "generateExprElt (ExprGrouping e) = generateExpr e"
| "generateExprElt (ExprNamedVariable name assignment) =
     generateExprNamedVariable name (if assignment = [] then None else Some (generateExpr assignment))"
| "generateExprElt (ExprLiteral l) = generateExprLiteral l"
| "generateExprElt (ExprAddress a) = emitConstant (KValue (ADDRESS_VAL a))"
| "generateExprElt (ExprString s) = emitConstant (KString s)"
| "generateExprElt (ExprCall args) = generateExprCall (length args) (generateCallExprs args)"
| "generateExprElt (ExprCollectionInitializer isMap inits cardinal) =
     generateExprCollectionInit (if isMap then None else Some (generateExpr cardinal)) (generateInitializers 0 inits)"
| "generateExprElt (ExprCollectionElement e assignment) =
     generateExprCollectionElement (generateExpr e) (if assignment = [] then None else Some (generateExpr assignment))"
| "generateExprElt (ExprBuiltin fn) = generateExprBuiltin fn"
| "generateExprElt (ExprDot name offset assignment None) =
     generateExprDot name (if offset = [] then None else Some (generateExpr offset))
       (if assignment = [] then None else Some (generateExpr assignment)) None"
| "generateExprElt (ExprDot name offset assignment (Some args)) =
     generateExprDot name (if offset = [] then None else Some (generateExpr offset))
       (if assignment = [] then None else Some (generateExpr assignment)) (Some (length args, generateCallExprs args))"
| "generateExprElt (ExprSuper name None) = generateExprSuper name None"
| "generateExprElt (ExprSuper name (Some args)) = generateExprSuper name (Some (length args, generateCallExprs args))"
| "generateExprElt (ExprType t) = generateExprType t"
| "generateExprElt (ExprTypeStruct fs) = generateExprTypeStruct (length fs) (generateFields fs)"
| "generateExprElt (ExprTypeIndexedCollection indexing) =
     generateExprTypeIndexedCollection (if indexing = [] then None else Some (generateExpr indexing))"
| "generateCallExprs [] = id"
| "generateCallExprs (a # args) = generateCallExprs args \<circ> emitByte (op_byte OP_DUPLICATE) \<circ> generateExpr a"
| "generateInitializers i [] = id"
| "generateInitializers i ((None, b) # inits) =
     generateInitializers (Suc i) inits \<circ> generateInitializer i None (generateExpr b)"
| "generateInitializers i ((Some a, b) # inits) =
     generateInitializers (Suc i) inits \<circ> generateInitializer i (Some (generateExpr a)) (generateExpr b)"
| "generateFields [] = id"
| "generateFields ((line, name, type, offset) # fs) =
     generateStmtFieldDeclaration name (generateExpr type) (generateExpr offset) \<circ> beginStmt line \<circ> generateFields fs"
  by pat_completeness auto

termination
  by size_change

subsection \<open>Statements\<close>

definition generateVarDeclaration :: "string \<Rightarrow> ObjExpr list \<Rightarrow> ObjExpr list \<Rightarrow> gen \<Rightarrow> gen" where
  "generateVarDeclaration name type initialiser g =
     (let (global, g1) = parseVariable name g;
          g2 = (if type \<noteq> [] then generateExpr type g1 else emitByte (op_byte OP_NIL) g1);
          g3 = emitByte (op_byte OP_SET_CELL_TYPE) g2;
          g4 = (if initialiser \<noteq> []
                then emitByte (op_byte OP_INITIALISE) (emitByte (op_byte OP_DUPLICATE) (generateExpr initialiser g3))
                else g3)
      in defineVariable global g4)"

fun generatePlaceDeclaration :: "ObjExpr list \<Rightarrow> (string \<times> ObjExpr list) list \<Rightarrow> gen \<Rightarrow> gen" where
  "generatePlaceDeclaration type [] g = g"
| "generatePlaceDeclaration type ((name, location) # aliases) g =
     (let g1 = emitByte (op_byte OP_PLACE) (generateExpr location (generateExpr type g));
          (global, g2) = parseVariable name g1
      in generatePlaceDeclaration type aliases (defineVariable global g2))"

definition generateStmtPoke :: "ObjExpr list \<Rightarrow> ObjExpr list \<Rightarrow> ObjExpr list \<Rightarrow> gen \<Rightarrow> gen" where
  "generateStmtPoke location offset assignment g =
     (let g1 = generateExpr location (generateExpr assignment g);
          g2 = (if offset \<noteq> [] then emitByte (op_byte OP_ADD) (generateExpr offset g1) else g1)
      in emitByte (op_byte OP_POKE) g2)"

definition generateStmtYield :: "ObjExpr list \<Rightarrow> gen \<Rightarrow> gen" where
  "generateStmtYield e g =
     (let g1 = (if c_type (current g) = TYPE_SCRIPT then errorAt (AtText ''yield'') ''Can't yield from top-level code.'' g else g)
      in if e = [] then emitBytes (op_byte OP_NIL) (op_byte OP_YIELD) g1
         else let g2 = (if c_type (current g1) = TYPE_INITIALIZER
                        then errorAt (AtText ''yield'') ''Can't yield a value from an initializer.'' g1 else g1)
              in emitByte (op_byte OP_YIELD) (generateExpr e g2))"

definition generateStmtReturn :: "ObjExpr list \<Rightarrow> gen \<Rightarrow> gen" where
  "generateStmtReturn e g =
     (let g1 = (if c_type (current g) = TYPE_SCRIPT then errorAt (AtText ''return'') ''Can't return from top-level code.'' g else g)
      in if e = [] then emitReturn g1
         else let g2 = (if c_type (current g1) = TYPE_INITIALIZER
                        then errorAt (AtText ''return'') ''Can't return a value from an initializer.'' g1 else g1)
              in emitByte (op_byte OP_RETURN) (generateExpr e g2))"

fun declareParameters :: "string list \<Rightarrow> gen \<Rightarrow> gen" where
  "declareParameters [] g = g"
| "declareParameters (p # ps) g =
     (let (k, g1) = parseVariable p g in declareParameters ps (defineVariable k g1))"

definition endCompiler :: "gen \<Rightarrow> ObjFunction \<times> Compiler \<times> gen" where
  "endCompiler g =
     (let g1 = emitReturn g;
          c = current g1;
          f = ObjFunction (function_name c) 0 (length (upvalues c)) (code (chunk c)) (constants (chunk c)) (chunk_lines (chunk c));
          g2 = g1\<lparr>compilers := tl (compilers g1)\<rparr>
      in (f, c, if compilers g2 = [] then g2 else on_current (\<lambda>d. d\<lparr>errors := errors d @ errors c\<rparr>) g2))"

definition beginFunction :: "FunctionType \<Rightarrow> string \<Rightarrow> string list \<Rightarrow> gen \<Rightarrow> gen" where
  "beginFunction type name params g = declareParameters params (beginScope (initCompiler type (Some name) g))"

definition generateStmtBlock :: "generator \<Rightarrow> generator" where
  "generateStmtBlock statements g = endScope (statements (beginScope g))"

definition generateStmtIf :: "generator \<Rightarrow> generator \<Rightarrow> generator \<Rightarrow> generator" where
  "generateStmtIf test ifStmt elseStmt g =
     (let (thenJump, g1) = emitJump OP_JUMP_IF_FALSE (test g);
          (elseJump, g2) = emitJump OP_JUMP (ifStmt (emitByte (op_byte OP_POP) g1))
      in patchJump elseJump (elseStmt (emitByte (op_byte OP_POP) (patchJump thenJump g2))))"

definition generateFunction :: "FunctionType \<Rightarrow> string \<Rightarrow> string list \<Rightarrow> generator \<Rightarrow> generator" where
  "generateFunction type name params body g =
     (let (f, c, g1) = endCompiler (body (beginFunction type name params g));
          fn = ObjFunction (fName f) (length params) (upvalueCount f) (fn_code f) (fn_constants f) (fn_lines f);
          (k, g2) = makeConstant (KFunction fn) g1;
          g3 = emitBytes (op_byte OP_CLOSURE) k g2
      in fold (\<lambda>(index, isLocal). emitBytes (if isLocal then 1 else 0) index) (upvalues c) g3)"

definition generateStmtFunDeclaration :: "string \<Rightarrow> string list \<Rightarrow> generator \<Rightarrow> generator" where
  "generateStmtFunDeclaration name params body g =
     (let (global, g1) = parseVariable name g
      in defineVariable global (generateFunction TYPE_FUNCTION name params body (markInitialized g1)))"

definition generateStmtWhile :: "generator \<Rightarrow> generator \<Rightarrow> generator" where
  "generateStmtWhile test body g =
     (let loopStart = code_count g;
          (exitJump, g1) = emitJump OP_JUMP_IF_FALSE (test g);
          g2 = emitLoop loopStart (body (emitByte (op_byte OP_POP) g1))
      in emitByte (op_byte OP_POP) (patchJump exitJump g2))"

definition generateStmtFor :: "generator \<Rightarrow> generator option \<Rightarrow> generator option \<Rightarrow> generator \<Rightarrow> generator" where
  "generateStmtFor initializer condition loopExpression body g =
     (let g0 = initializer (beginScope g);
          loopStart = code_count g0;
          (exitJump, g1) = (case condition of
              Some c \<Rightarrow> let (j, h) = emitJump OP_JUMP_IF_FALSE (c g0) in (Some j, emitByte (op_byte OP_POP) h)
            | None \<Rightarrow> (None, g0));
          (start, g2) = (case loopExpression of
              Some e \<Rightarrow>
                let (bodyJump, h1) = emitJump OP_JUMP g1;
                    incrementStart = code_count h1;
                    h2 = emitLoop loopStart (emitByte (op_byte OP_POP) (e h1))
                in (incrementStart, patchJump bodyJump h2)
            | None \<Rightarrow> (loopStart, g1));
          g3 = emitLoop start (body g2)
      in endScope (case exitJump of Some j \<Rightarrow> emitByte (op_byte OP_POP) (patchJump j g3) | None \<Rightarrow> g3))"

definition generateStmtMethodDeclaration :: "string \<Rightarrow> string list \<Rightarrow> generator \<Rightarrow> generator" where
  "generateStmtMethodDeclaration name params body g =
     (let (k, g1) = identifierConstant name g;
          type = (if name = ''init'' then TYPE_INITIALIZER else TYPE_METHOD)
      in emitBytes (op_byte OP_METHOD) k (generateFunction type name params body g1))"

definition generateStmtClassDeclaration :: "string \<Rightarrow> string option \<Rightarrow> generator \<Rightarrow> generator" where
  "generateStmtClassDeclaration name superclass methods g =
     (let (nameConstant, g1) = identifierConstant name g;
          g2 = defineVariable nameConstant (emitBytes (op_byte OP_CLASS) nameConstant (declareVariable name g1));
          g3 = g2\<lparr>classes := False # classes g2\<rparr>;
          g4 = (case superclass of
                  None \<Rightarrow> g3
                | Some super \<Rightarrow>
                    let h1 = defineVariable 0 (addLocal ''super'' (beginScope (generateGetNamedVariable super g3)));
                        h2 = emitByte (op_byte OP_INHERIT) (generateGetNamedVariable name h1)
                    in h2\<lparr>classes := True # tl (classes h2)\<rparr>);
          g5 = emitByte (op_byte OP_POP) (methods (generateGetNamedVariable name g4));
          g6 = (if hd (classes g5) then endScope g5 else g5)
      in g6\<lparr>classes := tl (classes g6)\<rparr>)"

function (sequential) generate :: "ObjStmt list \<Rightarrow> generator"
  and generateStmt :: "ObjStmt \<Rightarrow> generator"
  and generateMethods :: "(nat \<times> string \<times> string list \<times> ObjStmt list) list \<Rightarrow> generator" where
  "generate [] = id"
| "generate (s # ss) = generate ss \<circ> generateStmt s"
| "generateStmt (StmtExpression l e) = emitByte (op_byte OP_POP) \<circ> generateExpr e \<circ> beginStmt l"
| "generateStmt (StmtPrint l e) = emitByte (op_byte OP_PRINT) \<circ> generateExpr e \<circ> beginStmt l"
| "generateStmt (StmtError l e) = emitByte (op_byte OP_ERROR) \<circ> generateExpr e \<circ> beginStmt l"
| "generateStmt (StmtPoke l location offset assignment) = generateStmtPoke location offset assignment \<circ> beginStmt l"
| "generateStmt (StmtVarDeclaration l name type initialiser) = generateVarDeclaration name type initialiser \<circ> beginStmt l"
| "generateStmt (StmtPlaceDeclaration l type aliases) = generatePlaceDeclaration type aliases \<circ> beginStmt l"
| "generateStmt (StmtBlock l ss) = generateStmtBlock (generate ss) \<circ> beginStmt l"
| "generateStmt (StmtIf l test ifStmt elseStmt) =
     generateStmtIf (generateExpr test) (generate ifStmt) (generate elseStmt) \<circ> beginStmt l"
| "generateStmt (StmtFunDeclaration l name params body) =
     generateStmtFunDeclaration name params (generate body) \<circ> beginStmt l"
| "generateStmt (StmtWhile l test body) = generateStmtWhile (generateExpr test) (generate body) \<circ> beginStmt l"
| "generateStmt (StmtYield l e) = generateStmtYield e \<circ> beginStmt l"
| "generateStmt (StmtReturn l e) = generateStmtReturn e \<circ> beginStmt l"
| "generateStmt (StmtFor l initializer condition loopExpression body) =
     generateStmtFor (generate initializer) (if condition = [] then None else Some (generateExpr condition))
       (if loopExpression = [] then None else Some (generateExpr loopExpression)) (generate body) \<circ> beginStmt l"
| "generateStmt (StmtClassDeclaration l name superclass methods) =
     generateStmtClassDeclaration name superclass (generateMethods methods) \<circ> beginStmt l"
| "generateStmt (StmtFieldDeclaration l name type offset) =
     generateStmtFieldDeclaration name (generateExpr type) (generateExpr offset) \<circ> beginStmt l"
| "generateMethods [] = id"
| "generateMethods ((l, name, params, body) # ms) =
     generateMethods ms \<circ> generateStmtMethodDeclaration name params (generate body)"
  by pat_completeness auto

termination
  by size_change

text \<open>
  \<^verbatim>\<open>compile\<close>, after the parser has made the tree of the script: the errors, or the function to run.
  A failed assertion is \<open>None\<close>.
\<close>

definition compile :: "ObjStmt list \<Rightarrow> ((nat \<times> ErrorLocation \<times> string) list + ObjFunction) option" where
  "compile statements =
     (let g = generate statements (initCompiler TYPE_SCRIPT None \<lparr>compilers = [], classes = [], aborted = False\<rparr>);
          es = errors (current g);
          (f, _, _) = endCompiler g
      in if aborted g then None else if es \<noteq> [] then Some (Inl es) else Some (Inr f))"

end
