(* ===== verification/Compiler_State.thy ===== *)
theory Compiler_State
  imports Compiler "HOL-Library.Sublist"
begin

section \<open>States of the compiler\<close>

text \<open>
  What the operations of the compiler do to the code, the constants and the local variables of the
  function being compiled, and that an error is never lost.
\<close>

abbreviation code_of :: "gen \<Rightarrow> u8 list" where "code_of g \<equiv> code (chunk (current g))"
abbreviation consts_of :: "gen \<Rightarrow> Constant list" where "consts_of g \<equiv> constants (chunk (current g))"
abbreviation locals_of :: "gen \<Rightarrow> Local list" where "locals_of g \<equiv> locals (current g)"
abbreviation depth_of :: "gen \<Rightarrow> int" where "depth_of g \<equiv> scopeDepth (current g)"

text \<open>The compiler is in a script outside of classes; it is \<open>good\<close> when it has recorded no error.\<close>

definition sound :: "gen \<Rightarrow> bool" where
  "sound g \<longleftrightarrow> tl (compilers g) = [] \<and> classes g = [] \<and> c_type (current g) = TYPE_SCRIPT \<and>
     length (locals_of g) \<le> 256 \<and> (panicMode (current g) \<longrightarrow> errors (current g) \<noteq> [])"

definition good :: "gen \<Rightarrow> bool" where
  "good g \<longleftrightarrow> sound g \<and> errors (current g) = [] \<and> \<not> aborted g"

lemma good_sound: "good g \<Longrightarrow> sound g"
  by (simp add: good_def)

text \<open>A generator that keeps the first, and that never takes back an error.\<close>

definition safe :: "generator \<Rightarrow> bool" where
  "safe G \<longleftrightarrow> (\<forall>g. sound g \<longrightarrow> sound (G g) \<and> (good (G g) \<longrightarrow> good g))"

named_theorems safes

lemma safeI: "(\<And>g. sound g \<Longrightarrow> sound (G g)) \<Longrightarrow> (\<And>g. sound g \<Longrightarrow> good (G g) \<Longrightarrow> good g) \<Longrightarrow> safe G"
  by (simp add: safe_def)

lemma safe_sound: "safe G \<Longrightarrow> sound g \<Longrightarrow> sound (G g)"
  by (simp add: safe_def)

lemma safe_good: "safe G \<Longrightarrow> sound g \<Longrightarrow> good (G g) \<Longrightarrow> good g"
  by (simp add: safe_def)

lemma safe_id [safes]: "safe id" "safe (\<lambda>g. g)"
  by (rule safeI; simp)+

lemma safe_app: "safe F \<Longrightarrow> safe G \<Longrightarrow> safe (\<lambda>g. F (G g))"
  by (rule safeI) (blast intro: safe_sound safe_good)+

lemma safe_comp [safes]: "safe F \<Longrightarrow> safe G \<Longrightarrow> safe (F \<circ> G)"
  unfolding comp_def by (rule safe_app)

lemma safe_if: "safe F \<Longrightarrow> safe G \<Longrightarrow> safe (\<lambda>g. if P g then F g else G g)"
  by (rule safeI) (simp_all split: if_splits, (blast intro: safe_sound safe_good)+)

lemma safe_dep: "(\<And>x. safe (F x)) \<Longrightarrow> safe (\<lambda>g. F (f g) g)"
  by (rule safeI) (blast intro: safe_sound safe_good)+

lemma current_on_current [simp]: "current (on_current f g) = f (current g)"
  by (simp add: on_current_def current_def)

lemma on_current_frame [simp]:
  "classes (on_current f g) = classes g" "aborted (on_current f g) = aborted g"
  "tl (compilers (on_current f g)) = tl (compilers g)"
  by (simp_all add: on_current_def)

text \<open>An update of the chunk, and one of the local variables, are safe.\<close>

lemma safe_on_current:
  assumes "\<And>c. panicMode (f c) = panicMode c" "\<And>c. errors (f c) = errors c" "\<And>c. c_type (f c) = c_type c"
    "\<And>c. length (locals c) \<le> 256 \<Longrightarrow> length (locals (f c)) \<le> 256"
  shows "safe (on_current f)"
  unfolding safe_def sound_def good_def by (simp add: assms) blast

lemma safe_emitByte [safes]: "safe (emitByte b)"
  unfolding emitByte_def by (rule safe_on_current) auto

lemma emitBytes_comp: "emitBytes a b = emitByte b \<circ> emitByte a"
  by (simp add: fun_eq_iff emitBytes_def)

lemma safe_emitBytes [safes]: "safe (emitBytes a b)"
  unfolding emitBytes_comp by (intro safes)

lemma safe_errorAt [safes]: "safe (errorAt l m)"
  unfolding safe_def sound_def good_def errorAt_def by simp

lemma safe_compile_error [safes]: "safe (compile_error m)"
  unfolding compile_error_def by (rule safe_errorAt)

lemma not_good_errorAt [simp]: "sound g \<Longrightarrow> \<not> good (errorAt l m g)"
  by (auto simp: sound_def good_def errorAt_def)

lemma safe_abort [safes]: "safe abort"
  by (simp add: safe_def sound_def good_def abort_def current_def)

lemma current_errorAt [simp]:
  "chunk (current (errorAt l m g)) = chunk (current g)" "locals_of (errorAt l m g) = locals_of g"
  "depth_of (errorAt l m g) = depth_of g"
  by (simp_all add: errorAt_def)

lemma emitByte_views [simp]:
  "code_of (emitByte b g) = code_of g @ [b]" "consts_of (emitByte b g) = consts_of g"
  "locals_of (emitByte b g) = locals_of g" "depth_of (emitByte b g) = depth_of g"
  by (simp_all add: emitByte_def writeChunk_def)

lemma good_emitByte [simp]: "good (emitByte b g) = good g" "sound (emitByte b g) = sound g"
  by (simp_all add: good_def sound_def emitByte_def)

lemma emitBytes_views [simp]:
  "code_of (emitBytes a b g) = code_of g @ [a, b]" "consts_of (emitBytes a b g) = consts_of g"
  "locals_of (emitBytes a b g) = locals_of g" "depth_of (emitBytes a b g) = depth_of g"
  "good (emitBytes a b g) = good g" "sound (emitBytes a b g) = sound g"
  by (simp_all add: emitBytes_def)

lemma safe_if_error: "safe (\<lambda>g. if P g then compile_error m g else g)"
  by (rule safe_if) (rule safes)+

lemma patchJump_comp:
  "patchJump k g = on_current (\<lambda>c. c\<lparr>chunk := (chunk c)\<lparr>code :=
     (code (chunk c))[k := of_nat ((code_count g - k - 2) div 256), k + 1 := of_nat ((code_count g - k - 2) mod 256)]\<rparr>\<rparr>)
     (if code_count g - k - 2 > 65535 then compile_error ''Too much code to jump over.'' g else g)"
  by (simp add: patchJump_def Let_def)

lemma on_current_code [simp]:
  "good (on_current (\<lambda>c. c\<lparr>chunk := f c\<rparr>) g) = good g" "sound (on_current (\<lambda>c. c\<lparr>chunk := f c\<rparr>) g) = sound g"
  by (simp_all add: good_def sound_def)

lemma safe_patchJump [safes]: "safe (patchJump k)"
  by (rule safeI) (simp_all add: patchJump_comp safe_sound [OF safe_errorAt] compile_error_def split: if_splits)

lemma good_patchJump: "sound g \<Longrightarrow> good (patchJump k g) \<longleftrightarrow> good g \<and> code_count g - k - 2 \<le> 65535"
  by (simp add: patchJump_comp compile_error_def)

lemma patchJump_views [simp]:
  "consts_of (patchJump k g) = consts_of g" "locals_of (patchJump k g) = locals_of g" "depth_of (patchJump k g) = depth_of g"
  by (simp_all add: patchJump_comp compile_error_def)

lemma code_patchJump:
  assumes "code_of g = pre @ [x, y] @ mid" "k = length pre"
  shows "code_of (patchJump k g) = pre @ [of_nat (length mid div 256), of_nat (length mid mod 256)] @ mid"
  using assms by (simp add: patchJump_comp code_count_def compile_error_def list_update_append)

lemma emitJump_comp:
  "emitJump i g = (length (code_of g) + 1, emitByte 0xFF (emitByte 0xFF (emitByte (op_byte i) g)))"
  by (simp add: emitJump_def code_count_def)

lemma makeConstant_views:
  assumes "makeConstant v g = (i, g1)"
  shows "code_of g1 = code_of g" "locals_of g1 = locals_of g" "depth_of g1 = depth_of g" "prefix (consts_of g) (consts_of g1)"
proof -
  obtain j ch where a: "addConstant v (chunk (current g)) = (j, ch)" by fastforce
  note c = addConstant_correct [OF a]
  show "code_of g1 = code_of g" "locals_of g1 = locals_of g" "depth_of g1 = depth_of g" "prefix (consts_of g) (consts_of g1)"
    using assms a c(3,4) by (auto simp: makeConstant_def Let_def prefix_def split: if_splits)
qed

lemma safe_makeConstant [safes]: "safe (\<lambda>g. snd (makeConstant v g))"
  by (rule safeI) (simp_all add: makeConstant_def Let_def safe_sound [OF safe_errorAt] split: prod.splits if_splits)

lemma makeConstant_index:
  assumes "makeConstant v g = (i, g1)" "good g1" "sound g"
  shows "unat i < length (consts_of g1)" "consts_of g1 ! unat i = v \<or> constants_equal (consts_of g1 ! unat i) v"
proof -
  obtain j ch where a: "addConstant v (chunk (current g)) = (j, ch)" by fastforce
  have "j \<le> 255" using assms a by (auto simp: makeConstant_def Let_def split: if_splits)
  then have "i = of_nat j" "g1 = on_current (\<lambda>c. c\<lparr>chunk := ch\<rparr>) g" "unat (of_nat j :: u8) = j"
    using assms a by (auto simp: makeConstant_def Let_def unat_of_nat)
  then show "unat i < length (consts_of g1)" "consts_of g1 ! unat i = v \<or> constants_equal (consts_of g1 ! unat i) v"
    using addConstant_correct [OF a] by auto
qed

lemma makeConstant_string:
  assumes "makeConstant (KString s) g = (i, g1)" "good g1" "sound g"
  shows "unat i < length (consts_of g1)" "consts_of g1 ! unat i = KString s"
  using makeConstant_index [OF assms] by (auto elim: constants_equal.elims)

end
