(* ===== verification/Vm.thy ===== *)
theory Vm
  imports Compiler Table
begin

section \<open>The virtual machine (\<^verbatim>\<open>src/cyarg/vm.c\<close>, the stack of \<^verbatim>\<open>routine.c\<close>)\<close>

text \<open>
  The instructions that \<^verbatim>\<open>run\<close> executes in one frame: variables, operators, jumps, types, arrays,
  structs and pointers.
  \<^item> The stack has its top first; a slot is a typed cell. That it is kept in slices is not visible.
  \<^item> The globals are the map that the table of cells implements.
  \<^item> Strings are interned: \<open>intern\<close> gives the address of the object of a string and \<open>chars_at\<close> the
    characters at an address.
  \<^item> The allocator hands out increasing addresses from \<open>next_addr\<close>.
  \<^item> \<open>RuntimeError\<close> ends the routine with a message; \<open>Aborted\<close> is a failed assertion, undefined
    behaviour of C, or a read below the bottom of the stack; \<open>Unmodelled\<close> is an instruction, or the
    case of an instruction for a kind of object, that the model leaves out.
\<close>

record vm_env =
  e_code :: "u8 list"
  e_constants :: "Constant list"
  platform_of :: platform
  fop :: "int_op \<Rightarrow> u64 \<Rightarrow> u64 \<Rightarrow> u64"
  intern :: "string \<Rightarrow> nat"
  chars_at :: "nat \<Rightarrow> string"
  function_at :: "ObjFunction \<Rightarrow> nat"

record routine =
  ip :: nat
  stack :: "ValueCell list"
  stackEntryIndex :: nat
  globals :: "string \<Rightarrow> ValueCell option"
  vm_heap :: heap
  next_addr :: nat
  printed :: "Value list"

datatype outcome = Running routine | RuntimeError string | Finished Value routine | Aborted | Unmodelled

subsection \<open>The stack\<close>

definition push :: "Value \<Rightarrow> routine \<Rightarrow> routine" where
  "push v r = r\<lparr>stack := \<lparr>vc_value = v, vc_cellType = None\<rparr> # stack r\<rparr>"

definition pushTyped :: "Value \<Rightarrow> YargType option \<Rightarrow> routine \<Rightarrow> routine" where
  "pushTyped v t r = r\<lparr>stack := \<lparr>vc_value = v, vc_cellType = t\<rparr> # stack r\<rparr>"

definition pops :: "nat \<Rightarrow> routine \<Rightarrow> routine" where
  "pops n r = r\<lparr>stack := drop n (stack r)\<rparr>"

definition peek :: "routine \<Rightarrow> nat \<Rightarrow> Value" where
  "peek r distance = vc_value (stack r ! distance)"

definition needs :: "nat \<Rightarrow> routine \<Rightarrow> outcome \<Rightarrow> outcome" where
  "needs n r out = (if n \<le> length (stack r) then out else Aborted)"

text \<open>The position in the stack of a slot of the frame.\<close>

definition frameSlot :: "routine \<Rightarrow> nat \<Rightarrow> nat option" where
  "frameSlot r index =
     (if stackEntryIndex r + index < length (stack r)
      then Some (length (stack r) - (stackEntryIndex r + index + 1)) else None)"

definition alloc :: "nat \<Rightarrow> routine \<Rightarrow> nat \<times> routine" where
  "alloc n r = (next_addr r, r\<lparr>next_addr := next_addr r + n\<rparr>)"

text \<open>Writing a value to a typed cell of the stack (\<^verbatim>\<open>assignToValueCellTarget\<close>).\<close>

definition assign_cell :: "nat \<Rightarrow> Value \<Rightarrow> string \<Rightarrow> routine \<Rightarrow> (routine \<Rightarrow> outcome) \<Rightarrow> outcome" where
  "assign_cell i v message r k =
     (let cell = stack r ! i
      in case assignToValueCellTarget (vc_cellType cell) v of
           None \<Rightarrow> Aborted
         | Some (Inl _) \<Rightarrow> RuntimeError message
         | Some (Inr w) \<Rightarrow> k (r\<lparr>stack := (stack r)[i := cell\<lparr>vc_value := w\<rparr>]\<rparr>))"

subsection \<open>Operands of instructions\<close>

definition read_byte :: "vm_env \<Rightarrow> routine \<Rightarrow> (u8 \<Rightarrow> routine \<Rightarrow> outcome) \<Rightarrow> outcome" where
  "read_byte e r k = (if ip r < length (e_code e) then k (e_code e ! ip r) (r\<lparr>ip := ip r + 1\<rparr>) else Aborted)"

definition read_short :: "vm_env \<Rightarrow> routine \<Rightarrow> (nat \<Rightarrow> routine \<Rightarrow> outcome) \<Rightarrow> outcome" where
  "read_short e r k = read_byte e r (\<lambda>hi r1. read_byte e r1 (\<lambda>lo r2. k (256 * unat hi + unat lo) r2))"

definition const_value :: "vm_env \<Rightarrow> Constant \<Rightarrow> Value" where
  "const_value e c =
     (case c of
        KValue v \<Rightarrow> v
      | KString s \<Rightarrow> TYPED_VAL (Some (intern e s)) TypeString
      | KFunction f \<Rightarrow> TYPED_VAL (Some (function_at e f)) TypeFunction)"

definition read_constant :: "vm_env \<Rightarrow> routine \<Rightarrow> (Constant \<Rightarrow> routine \<Rightarrow> outcome) \<Rightarrow> outcome" where
  "read_constant e r k =
     read_byte e r (\<lambda>b r1. if unat b < length (e_constants e) then k (e_constants e ! unat b) r1 else Aborted)"

definition read_string :: "vm_env \<Rightarrow> routine \<Rightarrow> (string \<Rightarrow> routine \<Rightarrow> outcome) \<Rightarrow> outcome" where
  "read_string e r k = read_constant e r (\<lambda>c r1. case c of KString s \<Rightarrow> k s r1 | _ \<Rightarrow> Aborted)"

subsection \<open>Variables\<close>

definition op_set_local :: "vm_env \<Rightarrow> routine \<Rightarrow> outcome" where
  "op_set_local e r = read_byte e r (\<lambda>slot r1. needs 1 r1
     (case frameSlot r1 (unat slot) of
        None \<Rightarrow> Aborted
      | Some i \<Rightarrow> assign_cell i (peek r1 0) ''Cannot set local variable to incompatible type.'' r1 Running))"

definition op_get_local :: "vm_env \<Rightarrow> routine \<Rightarrow> outcome" where
  "op_get_local e r = read_byte e r (\<lambda>slot r1.
     case frameSlot r1 (unat slot) of None \<Rightarrow> Aborted | Some i \<Rightarrow> Running (push (peek r1 i) r1))"

definition op_get_global :: "vm_env \<Rightarrow> routine \<Rightarrow> outcome" where
  "op_get_global e r = read_string e r (\<lambda>name r1.
     case globals r1 name of
       None \<Rightarrow> RuntimeError (''Undefined variable (OP_GET_GLOBAL) '' @ name)
     | Some cell \<Rightarrow> Running (push (vc_value cell) r1))"

definition op_define_global :: "vm_env \<Rightarrow> routine \<Rightarrow> outcome" where
  "op_define_global e r = read_string e r (\<lambda>name r1. needs 1 r1
     (Running (pops 1 (r1\<lparr>globals := (globals r1)(name \<mapsto> stack r1 ! 0)\<rparr>))))"

definition op_set_global :: "vm_env \<Rightarrow> routine \<Rightarrow> outcome" where
  "op_set_global e r = read_string e r (\<lambda>name r1. needs 1 r1
     (case globals r1 name of
        None \<Rightarrow> RuntimeError (''Undefined variable (OP_SET_GLOBAL) '' @ name)
      | Some cell \<Rightarrow> (case assignToValueCellTarget (vc_cellType cell) (peek r1 0) of
          None \<Rightarrow> Aborted
        | Some (Inl _) \<Rightarrow> RuntimeError ''Cannot set global variable to incompatible type.''
        | Some (Inr w) \<Rightarrow> Running (r1\<lparr>globals := (globals r1)(name \<mapsto> cell\<lparr>vc_value := w\<rparr>)\<rparr>))))"

definition op_initialise :: "routine \<Rightarrow> outcome" where
  "op_initialise r = needs 2 r
     (assign_cell 1 (peek r 0) ''Cannot initialise variable with this value.'' r (\<lambda>r1. Running (pops 1 r1)))"

text \<open>\<^verbatim>\<open>duplicateValue\<close>: an integer on the heap and a struct are copied.\<close>

definition op_duplicate :: "vm_env \<Rightarrow> routine \<Rightarrow> outcome" where
  "op_duplicate e r = needs 1 r
     (let rhs = peek r 0
      in case rhs of
           INT_VAL i \<Rightarrow>
             if i_obj i then
               (case Option.bind (allocateIntValue (i_d i)) (int_set_t i) of
                  None \<Rightarrow> Aborted
                | Some j \<Rightarrow> Running (push (INT_VAL j) (pops 1 r)))
             else Running (push rhs (pops 1 r))
         | _ \<Rightarrow>
             if is_struct rhs then
               (let (new, r1) = alloc 1 r; (storage, r2) = alloc 1 r1;
                    (loc, r3) = alloc (yt_sizeof_type_storage (platform_of e) (value_type rhs)) r2
                in case duplicateStruct (platform_of e) (vm_heap r) new storage loc rhs of
                     None \<Rightarrow> Aborted
                   | Some (v, h) \<Rightarrow> Running (push v (pops 1 (r3\<lparr>vm_heap := h\<rparr>))))
             else Running (push rhs (pops 1 r)))"

subsection \<open>Operators\<close>

definition push_result :: "op_result \<Rightarrow> string \<Rightarrow> routine \<Rightarrow> outcome" where
  "push_result res message r =
     (case res of Result v \<Rightarrow> Running (push v r) | TypeError \<Rightarrow> RuntimeError message | Fault \<Rightarrow> Aborted)"

definition binary :: "(Value \<Rightarrow> Value \<Rightarrow> op_result) \<Rightarrow> string \<Rightarrow> routine \<Rightarrow> outcome" where
  "binary f message r = needs 2 r (push_result (f (peek r 1) (peek r 0)) message (pops 2 r))"

definition container_loc_of :: "heap \<Rightarrow> nat option \<Rightarrow> nat" where
  "container_loc_of h ob =
     (case Option.bind ob (containers h) of Some c \<Rightarrow> container_loc c | None \<Rightarrow> 0)"

definition op_comparison :: "int_bool_op \<Rightarrow> routine \<Rightarrow> outcome" where
  "op_comparison opr r =
     binary (op_compare (container_loc_of (vm_heap r)) opr) ''Operands must both be numbers, integers or unsigned integers.'' r"

definition op_arith :: "vm_env \<Rightarrow> int_op \<Rightarrow> routine \<Rightarrow> outcome" where
  "op_arith e opr r =
     binary (BINARY_OP (fop e) opr) ''Operands must both be numbers, integers or unsigned integers.'' r"

definition op_bits :: "bit_op \<Rightarrow> routine \<Rightarrow> outcome" where
  "op_bits opr r = binary (BINARY_UINT_OP opr) ''Operands must both be unsigned integers.'' r"

definition is_string :: "Value \<Rightarrow> bool" where
  "is_string v = (value_type v = Some TypeString)"

text \<open>\<^verbatim>\<open>OP_ADD\<close>, with the sum of a pointer and an integer, and of two strings.\<close>

definition op_plus :: "vm_env \<Rightarrow> routine \<Rightarrow> outcome" where
  "op_plus e r = needs 2 r
     (let (left, right) = promote (peek r 1) (peek r 0)
      in if is_pointer left \<and> is_positive_integer (platform_of e) right then
           (case offsetPointerDestination (platform_of e) (vm_heap r) left right of
              None \<Rightarrow> Aborted
            | Some h \<Rightarrow> Running (push left (pops 2 (r\<lparr>vm_heap := h\<rparr>))))
         else (case (left, right) of
             (TYPED_VAL (Some a) TypeString, TYPED_VAL (Some b) TypeString) \<Rightarrow>
               Running (push (TYPED_VAL (Some (intern e (chars_at e a @ chars_at e b))) TypeString) (pops 2 r))
           | _ \<Rightarrow> push_result (op_add (platform_of e) (fop e) (peek r 1) (peek r 0))
                   ''Operands must be two numbers or two strings.'' (pops 2 r)))"

definition op_unary :: "(Value \<Rightarrow> op_result) \<Rightarrow> string \<Rightarrow> routine \<Rightarrow> outcome" where
  "op_unary f message r = needs 1 r (push_result (f (peek r 0)) message (pops 1 r))"

definition op_not :: "Value \<Rightarrow> op_result" where
  "op_not v = Result (BOOL_VAL (isFalsey v))"

definition op_push_immediate :: "vm_env \<Rightarrow> bool \<Rightarrow> nat \<Rightarrow> routine \<Rightarrow> outcome" where
  "op_push_immediate e neg n r =
     (if ip r + n \<le> length (e_code e) then
        (case op_immediate neg (take n (drop (ip r) (e_code e))) of
           None \<Rightarrow> Aborted
         | Some v \<Rightarrow> Running (push v (r\<lparr>ip := ip r + n\<rparr>)))
      else Aborted)"

definition op_print :: "routine \<Rightarrow> outcome" where
  "op_print r = needs 1 r (Running (pops 1 (r\<lparr>printed := printed r @ [peek r 0]\<rparr>)))"

subsection \<open>Jumps\<close>

definition op_jump :: "vm_env \<Rightarrow> routine \<Rightarrow> outcome" where
  "op_jump e r = read_short e r (\<lambda>offset r1. Running (r1\<lparr>ip := ip r1 + offset\<rparr>))"

definition op_jump_if_false :: "vm_env \<Rightarrow> routine \<Rightarrow> outcome" where
  "op_jump_if_false e r = read_short e r (\<lambda>offset r1. needs 1 r1
     (Running (if isFalsey (peek r1 0) then r1\<lparr>ip := ip r1 + offset\<rparr> else r1)))"

definition op_loop :: "vm_env \<Rightarrow> routine \<Rightarrow> outcome" where
  "op_loop e r = read_short e r (\<lambda>offset r1. if offset \<le> ip r1 then Running (r1\<lparr>ip := ip r1 - offset\<rparr>) else Aborted)"

subsection \<open>Arrays, structs and pointers\<close>

text \<open>An operation on the heap that may make a container, whose object is allocated first.\<close>

definition with_new :: "routine \<Rightarrow> (nat \<Rightarrow> (Value \<times> heap) option) \<Rightarrow> nat \<Rightarrow> outcome" where
  "with_new r f n =
     (let (new, r1) = alloc 1 r
      in case f new of None \<Rightarrow> Aborted | Some (v, h) \<Rightarrow> Running (push v (pops n (r1\<lparr>vm_heap := h\<rparr>))))"

definition derefArrayElement :: "vm_env \<Rightarrow> routine \<Rightarrow> outcome" where
  "derefArrayElement e r =
     (if \<not> is_positive_integer (platform_of e) (peek r 0)
      then RuntimeError ''Expected an array and a positive or unsigned integer.''
      else let index = as_positive_integer (platform_of e) (peek r 0); v = peek r 1
           in if is_uniformarray v then
                (case value_type v of
                   Some (TypeArray _ n _) \<Rightarrow>
                     if index \<ge> n then RuntimeError ''Array index out of bounds.''
                     else with_new r (\<lambda>new. arrayElement (platform_of e) (vm_heap r) new v index) 2
                 | _ \<Rightarrow> Aborted)
              else let (tmp, r1) = alloc 1 r; (newType, r2) = alloc 1 r1
                   in case pointerDestination (platform_of e) (vm_heap r) tmp v of
                        Some (arr, h) \<Rightarrow>
                          (case value_type arr of
                             Some (TypeArray _ n _) \<Rightarrow>
                               if index \<ge> n then RuntimeError ''Array index out of bounds.''
                               else with_new r2 (\<lambda>new. arrayElementPointer (platform_of e) h newType new arr index) 2
                           | _ \<Rightarrow> Aborted)
                      | None \<Rightarrow> Aborted)"

definition derefStructElement :: "vm_env \<Rightarrow> routine \<Rightarrow> outcome" where
  "derefStructElement e r =
     (if \<not> is_positive_integer (platform_of e) (peek r 0) then RuntimeError ''Expected a positive integer.''
      else with_new r (\<lambda>new. structField (platform_of e) (vm_heap r) new (peek r 1)
             (as_positive_integer (platform_of e) (peek r 0))) 2)"

definition is_map :: "Value \<Rightarrow> bool" where
  "is_map v = (case value_type v of Some t \<Rightarrow> yt t = YMap | None \<Rightarrow> False)"

definition op_deref_element :: "vm_env \<Rightarrow> routine \<Rightarrow> outcome" where
  "op_deref_element e r = needs 2 r
     (let collection = peek r 1
      in if is_uniformarray collection \<or> isArrayPointer collection then derefArrayElement e r
         else if is_map collection then Unmodelled
         else if is_struct collection then derefStructElement e r
         else RuntimeError ''Expected a map, struct, or array as target.'')"

definition setAnArrayElement :: "vm_env \<Rightarrow> routine \<Rightarrow> Value \<Rightarrow> Value \<Rightarrow> Value \<Rightarrow> outcome" where
  "setAnArrayElement e r arrayVal indexVal rhs =
     (if \<not> is_positive_integer (platform_of e) indexVal
      then RuntimeError ''Expected an array and a positive or unsigned integer.''
      else let index = as_positive_integer (platform_of e) indexVal
           in case value_type arrayVal of
                Some (TypeArray _ n _) \<Rightarrow>
                  if index \<ge> n then RuntimeError ''Array index out of bounds.''
                  else (case setArrayElement (platform_of e) (vm_heap r) arrayVal index rhs of
                      None \<Rightarrow> Aborted
                    | Some (ok, h) \<Rightarrow>
                        if ok then Running (pops 2 (r\<lparr>vm_heap := h\<rparr>))
                        else RuntimeError ''Cannot set array element to incompatible type.'')
              | _ \<Rightarrow> Aborted)"

definition op_set_element :: "vm_env \<Rightarrow> routine \<Rightarrow> outcome" where
  "op_set_element e r = needs 3 r
     (let collection = peek r 2
      in if is_map collection then Unmodelled
         else if is_uniformarray collection then setAnArrayElement e r collection (peek r 1) (peek r 0)
         else if is_struct collection then RuntimeError ''Setting struct elements is not supported yet.''
         else RuntimeError ''Expected an array and a positive or unsigned integer.'')"

definition derefPtr :: "vm_env \<Rightarrow> routine \<Rightarrow> outcome" where
  "derefPtr e r = needs 1 r
     (with_new r (\<lambda>new. pointerDestination (platform_of e) (vm_heap r) new (peek r 0)) 1)"

definition op_set_ptr_target :: "vm_env \<Rightarrow> routine \<Rightarrow> outcome" where
  "op_set_ptr_target e r = needs 2 r
     (case setPointerDestination (platform_of e) (vm_heap r) (peek r 1) (peek r 0) of
        None \<Rightarrow> Aborted
      | Some (ok, h) \<Rightarrow>
          if ok then Running (push (peek r 0) (pops 2 (r\<lparr>vm_heap := h\<rparr>)))
          else RuntimeError ''Cannot set pointer target to incompatible type.'')"

definition op_get_property :: "vm_env \<Rightarrow> routine \<Rightarrow> outcome" where
  "op_get_property e r = needs 1 r
     (let v = peek r 0
      in if value_type v = Some TypeInstance then Unmodelled
         else if is_struct v then read_string e r (\<lambda>name r1.
           (case value_type v of
              Some (TypeStruct _ s) \<Rightarrow> (case structFieldIndex s name of
                  None \<Rightarrow> RuntimeError ''field not present in struct.''
                | Some index \<Rightarrow> with_new r1 (\<lambda>new. structField (platform_of e) (vm_heap r1) new v index) 1)
            | _ \<Rightarrow> Aborted))
         else if isStructPointer v then read_string e r (\<lambda>name r1.
           let (tmp, r2) = alloc 1 r1; (newType, r3) = alloc 1 r2
           in case pointerDestination (platform_of e) (vm_heap r1) tmp v of
                Some (sv, h) \<Rightarrow> (case value_type sv of
                    Some (TypeStruct _ s) \<Rightarrow> (case structFieldIndex s name of
                        None \<Rightarrow> RuntimeError ''field not present in struct.''
                      | Some index \<Rightarrow> with_new r3 (\<lambda>new. structFieldPointer h newType new sv index) 1)
                  | _ \<Rightarrow> Aborted)
              | None \<Rightarrow> Aborted)
         else (case v of
             INT_VAL i \<Rightarrow> read_string e r (\<lambda>name r1.
               if name = ''overflow'' then Running (push (BOOL_VAL (i_overflow i)) (pops 1 r1))
               else RuntimeError ''Undefined property on int. Only 'overflow' is available.'')
           | _ \<Rightarrow> RuntimeError ''Only instances, structs, pointers to structs have properties.''))"

definition op_set_property :: "vm_env \<Rightarrow> routine \<Rightarrow> outcome" where
  "op_set_property e r = needs 2 r
     (let v = peek r 1
      in if value_type v = Some TypeInstance then Unmodelled
         else if is_struct v then read_string e r (\<lambda>name r1.
           (case value_type v of
              Some (TypeStruct _ s) \<Rightarrow> (case structFieldIndex s name of
                  None \<Rightarrow> RuntimeError ''field not present in struct.''
                | Some index \<Rightarrow> (case setStructField (platform_of e) (vm_heap r1) v index (peek r1 0) of
                    None \<Rightarrow> Aborted
                  | Some (ok, h) \<Rightarrow>
                      if ok then Running (push (peek r1 0) (pops 2 (r1\<lparr>vm_heap := h\<rparr>)))
                      else RuntimeError ''cannot assign to field type.''))
            | _ \<Rightarrow> Aborted))
         else RuntimeError ''Only instances and structs have fields.'')"

subsection \<open>Types\<close>

definition op_type_literal :: "vm_env \<Rightarrow> routine \<Rightarrow> outcome" where
  "op_type_literal e r = read_byte e r (\<lambda>typeCode r1.
     case newYargTypeFromTypeCode (unat typeCode) of
       None \<Rightarrow> RuntimeError ''Unknown type literal.''
     | Some t \<Rightarrow> Running (push (YARGTYPE_VAL (Some t)) r1))"

text \<open>The fields that the compiled declaration of a struct has pushed: name, offset and type of each.\<close>

fun struct_fields :: "vm_env \<Rightarrow> nat \<Rightarrow> Value list \<Rightarrow> (YargType option \<times> field_offset \<times> string) list option" where
  "struct_fields e 0 vs = Some []"
| "struct_fields e (Suc n) (TYPED_VAL (Some a) TypeString # offsetValue # type # vs) =
     map_option ((#)
       (case type of YARGTYPE_VAL t \<Rightarrow> t | _ \<Rightarrow> None,
        if is_nil offsetValue then AutoOffset
        else if is_positive_integer (platform_of e) offsetValue then AtOffset (as_positive_integer (platform_of e) offsetValue)
        else OtherOffset,
        chars_at e a)) (struct_fields e n vs)"
| "struct_fields e (Suc n) _ = None"

definition op_struct_type :: "vm_env \<Rightarrow> routine \<Rightarrow> outcome" where
  "op_struct_type e r = read_byte e r (\<lambda>fieldCount r1.
     case struct_fields e (unat fieldCount) (map vc_value (stack r1)) of
       None \<Rightarrow> Aborted
     | Some fs \<Rightarrow> (case op_type_struct (platform_of e) fs of
         Inl FieldAlreadyExists \<Rightarrow> RuntimeError ''Field already exists in struct.''
       | Inl AssertionFailed \<Rightarrow> Aborted
       | Inr st \<Rightarrow> let (new, r2) = alloc 1 r1
                  in Running (push (YARGTYPE_VAL (Some (TypeStruct new st))) (pops (3 * unat fieldCount) r2))))"

definition type_operand :: "Value \<Rightarrow> YargType option option" where
  "type_operand v =
     (if is_nil v then Some None else case v of YARGTYPE_VAL t \<Rightarrow> Some t | _ \<Rightarrow> None)"

definition op_type_indexed_collection :: "vm_env \<Rightarrow> routine \<Rightarrow> outcome" where
  "op_type_indexed_collection e r = needs 2 r
     (let indexer = peek r 0; (new, r1) = alloc 1 r
      in case type_operand indexer of
           Some k \<Rightarrow> (case type_operand (peek r 1) of
               None \<Rightarrow> Aborted
             | Some v \<Rightarrow>
                 if \<not> isSupportedMapKeyType (Some (TypeMap new k v)) then RuntimeError ''Unsupported map key type.''
                 else Running (push (YARGTYPE_VAL (Some (TypeMap new k v))) (pops 2 r1)))
         | None \<Rightarrow>
             if is_positive_integer (platform_of e) indexer then
               let n = as_positive_integer (platform_of e) indexer
               in if n = 0 then RuntimeError ''Array cardinality must be non zero.''
                  else (case type_operand (peek r 1) of
                      None \<Rightarrow> Aborted
                    | Some t \<Rightarrow> Running (push (YARGTYPE_VAL (Some (TypeArray new n t))) (pops 2 r1)))
             else RuntimeError ''Collection must be array or map.'')"

definition op_set_cell_type :: "vm_env \<Rightarrow> routine \<Rightarrow> outcome" where
  "op_set_cell_type e r = needs 1 r
     (case type_operand (peek r 0) of
        None \<Rightarrow> Aborted
      | Some t \<Rightarrow> (case t of
          Some ct \<Rightarrow>
            if yt ct = YStruct \<or> yt ct = YArray then
              (let (new, r1) = alloc 1 r; (storage, r2) = alloc 1 r1;
                   (loc, r3) = alloc (yt_sizeof_type_storage (platform_of e) t) r2
               in case newPackedValueContainer (platform_of e) (vm_heap r) new storage loc ct of
                    None \<Rightarrow> Aborted
                  | Some (v, h) \<Rightarrow> Running (pushTyped v t (pops 1 (r3\<lparr>vm_heap := h\<rparr>))))
            else Running (pushTyped (defaultValue (\<lambda>_. NIL_VAL) t) t (pops 1 r))
        | None \<Rightarrow> Running (pushTyped NIL_VAL None (pops 1 r))))"

definition op_place :: "vm_env \<Rightarrow> routine \<Rightarrow> outcome" where
  "op_place e r = needs 2 r
     (case peek r 1 of
        YARGTYPE_VAL t \<Rightarrow>
          if \<not> is_placeable_type t then RuntimeError ''Cannot place this type.''
          else (case peek r 0 of
              ADDRESS_VAL a \<Rightarrow>
                let (newType, r1) = alloc 1 r
                in with_new r1 (\<lambda>new. Some (createPackedValueContainerAt (vm_heap r) new a (TypePointer newType t))) 2
            | _ \<Rightarrow> RuntimeError ''Value must be an address'')
      | _ \<Rightarrow> Aborted)"

subsection \<open>One instruction\<close>

definition execute :: "vm_env \<Rightarrow> OpCode \<Rightarrow> routine \<Rightarrow> outcome" where
  "execute e instruction r =
     (case instruction of
        OP_CONSTANT \<Rightarrow> read_constant e r (\<lambda>c r1. Running (push (const_value e c) r1))
      | OP_IMMEDIATE_N8 \<Rightarrow> op_push_immediate e True 1 r
      | OP_IMMEDIATE_P8 \<Rightarrow> op_push_immediate e False 1 r
      | OP_IMMEDIATE_N16 \<Rightarrow> op_push_immediate e True 2 r
      | OP_IMMEDIATE_P16 \<Rightarrow> op_push_immediate e False 2 r
      | OP_IMMEDIATE_N24 \<Rightarrow> op_push_immediate e True 3 r
      | OP_IMMEDIATE_P24 \<Rightarrow> op_push_immediate e False 3 r
      | OP_NIL \<Rightarrow> Running (push NIL_VAL r)
      | OP_TRUE \<Rightarrow> Running (push (BOOL_VAL True) r)
      | OP_FALSE \<Rightarrow> Running (push (BOOL_VAL False) r)
      | OP_POP \<Rightarrow> needs 1 r (Running (pops 1 r))
      | OP_SET_LOCAL \<Rightarrow> op_set_local e r
      | OP_GET_LOCAL \<Rightarrow> op_get_local e r
      | OP_GET_GLOBAL \<Rightarrow> op_get_global e r
      | OP_DEFINE_GLOBAL \<Rightarrow> op_define_global e r
      | OP_SET_GLOBAL \<Rightarrow> op_set_global e r
      | OP_INITIALISE \<Rightarrow> op_initialise r
      | OP_DUPLICATE \<Rightarrow> op_duplicate e r
      | OP_GET_PROPERTY \<Rightarrow> op_get_property e r
      | OP_SET_PROPERTY \<Rightarrow> op_set_property e r
      | OP_EQUAL \<Rightarrow> op_comparison OpEqual r
      | OP_GREATER \<Rightarrow> op_comparison OpGreater r
      | OP_LESS \<Rightarrow> op_comparison OpLess r
      | OP_LEFT_SHIFT \<Rightarrow> op_bits LeftShift r
      | OP_RIGHT_SHIFT \<Rightarrow> op_bits RightShift r
      | OP_BITOR \<Rightarrow> op_bits BitOr r
      | OP_BITAND \<Rightarrow> op_bits BitAnd r
      | OP_BITXOR \<Rightarrow> op_bits BitXor r
      | OP_ADD \<Rightarrow> op_plus e r
      | OP_MODULO \<Rightarrow> binary op_modulo ''Operands must integers or unsigned integers of same type.'' r
      | OP_SUBTRACT \<Rightarrow> op_arith e OpSub r
      | OP_MULTIPLY \<Rightarrow> op_arith e OpMul r
      | OP_DIVIDE \<Rightarrow> op_arith e OpDiv r
      | OP_NOT \<Rightarrow> op_unary op_not [] r
      | OP_NEGATE \<Rightarrow> op_unary op_negate ''Operand must be a number or integer.'' r
      | OP_PRINT \<Rightarrow> op_print r
      | OP_JUMP \<Rightarrow> op_jump e r
      | OP_JUMP_IF_FALSE \<Rightarrow> op_jump_if_false e r
      | OP_LOOP \<Rightarrow> op_loop e r
      | OP_RETURN \<Rightarrow> needs 1 r (Finished (peek r 0) (pops 1 r))
      | OP_ELEMENT \<Rightarrow> op_deref_element e r
      | OP_SET_ELEMENT \<Rightarrow> op_set_element e r
      | OP_TYPE_LITERAL \<Rightarrow> op_type_literal e r
      | OP_TYPE_STRUCT \<Rightarrow> op_struct_type e r
      | OP_TYPE_INDEXED_COLLECTION \<Rightarrow> op_type_indexed_collection e r
      | OP_SET_CELL_TYPE \<Rightarrow> op_set_cell_type e r
      | OP_DEREF_PTR \<Rightarrow> derefPtr e r
      | OP_SET_PTR_TARGET \<Rightarrow> op_set_ptr_target e r
      | OP_PLACE \<Rightarrow> op_place e r
      | _ \<Rightarrow> Unmodelled)"

text \<open>One turn of the loop of \<^verbatim>\<open>run\<close>: a byte that is no instruction is skipped.\<close>

definition step :: "vm_env \<Rightarrow> routine \<Rightarrow> outcome" where
  "step e r = read_byte e r (\<lambda>b r1. case decode b of Some instruction \<Rightarrow> execute e instruction r1 | None \<Rightarrow> Running r1)"

fun run :: "vm_env \<Rightarrow> nat \<Rightarrow> routine \<Rightarrow> outcome" where
  "run e 0 r = Running r"
| "run e (Suc n) r = (case step e r of Running r1 \<Rightarrow> run e n r1 | other \<Rightarrow> other)"

end
