(* ===== verification/Semantics.thy ===== *)
theory Semantics
  imports Vm
begin

section \<open>Source semantics of scripts\<close>

text \<open>
  What a script means, without byte code, stack or jumps: the reference for the compiler and the
  virtual machine. It covers the expressions made of integers of up to 24 bits, the literals,
  strings, variables and their assignment and all operators, and the statements for expressions,
  \<^verbatim>\<open>print\<close>, variable declarations, blocks, \<^verbatim>\<open>if\<close> and \<^verbatim>\<open>while\<close>. A result of \<open>None\<close> is a run-time error.

  A store has the local variables in scope, the innermost one first, the globals, and the values
  that were printed. The packed storage \<open>h\<close> does not change.
\<close>

record store =
  loc :: "(string \<times> ValueCell) list"
  glob :: "string \<Rightarrow> ValueCell option"
  out :: "Value list"

subsection \<open>Operators\<close>

fun value_of :: "op_result \<Rightarrow> Value option" where
  "value_of (Result v) = Some v"
| "value_of _ = None"

definition literal_int :: "int \<Rightarrow> Value" where
  "literal_int v = INT_VAL ((int_set_u (of_int \<bar>v\<bar>) (int_init_concrete2\<lparr>i_literal := True\<rparr>))\<lparr>i_neg := v < 0\<rparr>)"

definition negation :: "Value option \<Rightarrow> Value option" where
  "negation v = map_option (\<lambda>v. BOOL_VAL (isFalsey v)) v"

definition plus_values :: "vm_env \<Rightarrow> Value \<Rightarrow> Value \<Rightarrow> Value option" where
  "plus_values e v w =
     (let (left, right) = promote v w
      in if is_pointer left \<and> is_positive_integer (platform_of e) right then None
         else case (left, right) of
             (TYPED_VAL (Some a) TypeString, TYPED_VAL (Some b) TypeString) \<Rightarrow>
               Some (TYPED_VAL (Some (intern e (chars_at e a @ chars_at e b))) TypeString)
           | _ \<Rightarrow> value_of (op_add (platform_of e) (fop e) v w))"

definition compare_values :: "heap \<Rightarrow> int_bool_op \<Rightarrow> Value \<Rightarrow> Value \<Rightarrow> Value option" where
  "compare_values h opr v w = value_of (op_compare (container_loc_of h) opr v w)"

fun apply_binary :: "vm_env \<Rightarrow> heap \<Rightarrow> ExprOp \<Rightarrow> Value \<Rightarrow> Value \<Rightarrow> Value option" where
  "apply_binary e h EXPR_OP_EQUAL v w = compare_values h OpEqual v w"
| "apply_binary e h EXPR_OP_GREATER v w = compare_values h OpGreater v w"
| "apply_binary e h EXPR_OP_LESS v w = compare_values h OpLess v w"
| "apply_binary e h EXPR_OP_NOT_EQUAL v w = negation (compare_values h OpEqual v w)"
| "apply_binary e h EXPR_OP_GREATER_EQUAL v w = negation (compare_values h OpLess v w)"
| "apply_binary e h EXPR_OP_LESS_EQUAL v w = negation (compare_values h OpGreater v w)"
| "apply_binary e h EXPR_OP_RIGHT_SHIFT v w = value_of (BINARY_UINT_OP RightShift v w)"
| "apply_binary e h EXPR_OP_LEFT_SHIFT v w = value_of (BINARY_UINT_OP LeftShift v w)"
| "apply_binary e h EXPR_OP_BIT_OR v w = value_of (BINARY_UINT_OP BitOr v w)"
| "apply_binary e h EXPR_OP_BIT_AND v w = value_of (BINARY_UINT_OP BitAnd v w)"
| "apply_binary e h EXPR_OP_BIT_XOR v w = value_of (BINARY_UINT_OP BitXor v w)"
| "apply_binary e h EXPR_OP_ADD v w = plus_values e v w"
| "apply_binary e h EXPR_OP_SUBTRACT v w = value_of (BINARY_OP (fop e) OpSub v w)"
| "apply_binary e h EXPR_OP_MULTIPLY v w = value_of (BINARY_OP (fop e) OpMul v w)"
| "apply_binary e h EXPR_OP_DIVIDE v w = value_of (BINARY_OP (fop e) OpDiv v w)"
| "apply_binary e h EXPR_OP_MODULO v w = value_of (op_modulo v w)"
| "apply_binary e h _ v w = None"

fun apply_unary :: "ExprOp \<Rightarrow> Value \<Rightarrow> Value option" where
  "apply_unary EXPR_OP_NOT v = Some (BOOL_VAL (isFalsey v))"
| "apply_unary EXPR_OP_NEGATE v = value_of (op_negate v)"
| "apply_unary _ v = None"

text \<open>A value is copied when it is assigned; the copies of structs are left out.\<close>

definition copy_value :: "Value \<Rightarrow> Value option" where
  "copy_value v =
     (case v of
        INT_VAL i \<Rightarrow> if i_obj i then map_option INT_VAL (Option.bind (allocateIntValue (i_d i)) (int_set_t i)) else Some v
      | _ \<Rightarrow> if is_struct v then None else Some v)"

subsection \<open>Variables\<close>

definition lookup_var :: "store \<Rightarrow> string \<Rightarrow> Value option" where
  "lookup_var s name =
     (case map_of (loc s) name of
        Some cell \<Rightarrow> Some (vc_value cell)
      | None \<Rightarrow> map_option vc_value (glob s name))"

fun update_first :: "string \<Rightarrow> 'b \<Rightarrow> (string \<times> 'b) list \<Rightarrow> (string \<times> 'b) list" where
  "update_first n c [] = []"
| "update_first n c ((m, d) # xs) = (if n = m then (m, c) # xs else (m, d) # update_first n c xs)"

definition assign_to :: "ValueCell \<Rightarrow> Value \<Rightarrow> ValueCell option" where
  "assign_to cell v =
     (case assignToValueCellTarget (vc_cellType cell) v of
        Some (Inr w) \<Rightarrow> Some (cell\<lparr>vc_value := w\<rparr>) | _ \<Rightarrow> None)"

definition assign_var :: "store \<Rightarrow> string \<Rightarrow> Value \<Rightarrow> store option" where
  "assign_var s name v =
     (case map_of (loc s) name of
        Some cell \<Rightarrow> map_option (\<lambda>c. s\<lparr>loc := update_first name c (loc s)\<rparr>) (assign_to cell v)
      | None \<Rightarrow>
          (case glob s name of
             Some cell \<Rightarrow> map_option (\<lambda>c. s\<lparr>glob := (glob s)(name \<mapsto> c)\<rparr>) (assign_to cell v)
           | None \<Rightarrow> None))"

subsection \<open>Expressions\<close>

fun literal_of :: "ExprLiteral \<Rightarrow> Value" where
  "literal_of EXPR_LITERAL_TRUE = BOOL_VAL True"
| "literal_of EXPR_LITERAL_FALSE = BOOL_VAL False"
| "literal_of EXPR_LITERAL_NIL = NIL_VAL"

function (sequential) eval :: "vm_env \<Rightarrow> heap \<Rightarrow> ObjExpr list \<Rightarrow> store \<Rightarrow> (Value \<times> store) option"
  and eval_first :: "vm_env \<Rightarrow> heap \<Rightarrow> ObjExpr \<Rightarrow> store \<Rightarrow> (Value \<times> store) option"
  and eval_rest :: "vm_env \<Rightarrow> heap \<Rightarrow> ObjExpr list \<Rightarrow> Value \<Rightarrow> store \<Rightarrow> (Value \<times> store) option" where
  "eval e h [] s = None"
| "eval e h (x # xs) s = Option.bind (eval_first e h x s) (\<lambda>(v, s1). eval_rest e h xs v s1)"
| "eval_first e h (ExprNumberInt n) s = Some (literal_int (int_val n), s)"
| "eval_first e h (ExprLiteral l) s = Some (literal_of l, s)"
| "eval_first e h (ExprString t) s = Some (TYPED_VAL (Some (intern e t)) TypeString, s)"
| "eval_first e h (ExprGrouping es) s = eval e h es s"
| "eval_first e h (ExprNamedVariable name []) s = map_option (\<lambda>v. (v, s)) (lookup_var s name)"
| "eval_first e h (ExprNamedVariable name assignment) s =
     Option.bind (eval e h assignment s) (\<lambda>(v, s1). Option.bind (copy_value v) (\<lambda>w.
       map_option (\<lambda>s2. (w, s2)) (assign_var s1 name w)))"
| "eval_first e h (ExprOperation operation rhs []) s =
     Option.bind (eval e h rhs s) (\<lambda>(v, s1). map_option (\<lambda>w. (w, s1)) (apply_unary operation v))"
| "eval_first e h _ s = None"
| "eval_rest e h [] v s = Some (v, s)"
| "eval_rest e h (ExprOperation operation rhs [] # xs) v s =
     (if operation = EXPR_OP_LOGICAL_AND \<and> isFalsey v then eval_rest e h xs v s
      else if operation = EXPR_OP_LOGICAL_OR \<and> \<not> isFalsey v then eval_rest e h xs v s
      else Option.bind (eval e h rhs s) (\<lambda>(w, s1).
        if operation = EXPR_OP_LOGICAL_AND \<or> operation = EXPR_OP_LOGICAL_OR then eval_rest e h xs w s1
        else Option.bind (apply_binary e h operation v w) (\<lambda>u. eval_rest e h xs u s1)))"
| "eval_rest e h _ v s = None"
  by pat_completeness auto

termination
  by size_change

subsection \<open>Statements\<close>

definition declared_type :: "ObjExpr list \<Rightarrow> YargType option" where
  "declared_type type = (case type of [ExprType t] \<Rightarrow> newYargTypeFromTypeCode (unat (type_code t)) | _ \<Rightarrow> None)"

text \<open>
  A declaration makes a cell of its type. The cell of a local variable is in scope while the
  initialiser is evaluated.
\<close>

abbreviation default_cell :: "YargType option \<Rightarrow> ValueCell" where
  "default_cell t \<equiv> \<lparr>vc_value = defaultValue (\<lambda>_. NIL_VAL) t, vc_cellType = t\<rparr>"

definition declare_local ::
  "vm_env \<Rightarrow> heap \<Rightarrow> string \<Rightarrow> YargType option \<Rightarrow> ObjExpr list \<Rightarrow> store \<Rightarrow> store option" where
  "declare_local e h name t initialiser s =
     (let s0 = s\<lparr>loc := (name, default_cell t) # loc s\<rparr>
      in if initialiser = [] then Some s0
         else Option.bind (eval e h initialiser s0) (\<lambda>(v, s1). Option.bind (copy_value v) (\<lambda>w.
           case loc s1 of
             [] \<Rightarrow> None
           | (n, c) # ls \<Rightarrow> map_option (\<lambda>c'. s1\<lparr>loc := (n, c') # ls\<rparr>) (assign_to c w))))"

definition declare_global ::
  "vm_env \<Rightarrow> heap \<Rightarrow> string \<Rightarrow> YargType option \<Rightarrow> ObjExpr list \<Rightarrow> store \<Rightarrow> store option" where
  "declare_global e h name t initialiser s =
     (if initialiser = [] then Some (s\<lparr>glob := (glob s)(name \<mapsto> default_cell t)\<rparr>)
      else Option.bind (eval e h initialiser s) (\<lambda>(v, s1). Option.bind (copy_value v) (\<lambda>w.
        map_option (\<lambda>c. s1\<lparr>glob := (glob s1)(name \<mapsto> c)\<rparr>) (assign_to (default_cell t) w))))"

text \<open>\<open>exec e h d ss s s'\<close>: the statements end in the store \<open>s'\<close>, at the depth \<open>d\<close> of nested blocks.\<close>

inductive exec :: "vm_env \<Rightarrow> heap \<Rightarrow> nat \<Rightarrow> ObjStmt list \<Rightarrow> store \<Rightarrow> store \<Rightarrow> bool"
  and exec_stmt :: "vm_env \<Rightarrow> heap \<Rightarrow> nat \<Rightarrow> ObjStmt \<Rightarrow> store \<Rightarrow> store \<Rightarrow> bool" for e h where
  exec_Nil: "exec e h d [] s s"
| exec_Cons: "exec_stmt e h d x s s1 \<Longrightarrow> exec e h d xs s1 s2 \<Longrightarrow> exec e h d (x # xs) s s2"
| exec_Expression: "eval e h es s = Some (v, s1) \<Longrightarrow> exec_stmt e h d (StmtExpression l es) s s1"
| exec_Print: "eval e h es s = Some (v, s1) \<Longrightarrow> exec_stmt e h d (StmtPrint l es) s (s1\<lparr>out := out s1 @ [v]\<rparr>)"
| exec_Local: "0 < d \<Longrightarrow> declare_local e h name (declared_type type) initialiser s = Some s1 \<Longrightarrow>
    exec_stmt e h d (StmtVarDeclaration l name type initialiser) s s1"
| exec_Global: "declare_global e h name (declared_type type) initialiser s = Some s1 \<Longrightarrow>
    exec_stmt e h 0 (StmtVarDeclaration l name type initialiser) s s1"
| exec_Block: "exec e h (Suc d) ss s s1 \<Longrightarrow>
    exec_stmt e h d (StmtBlock l ss) s (s1\<lparr>loc := drop (length (loc s1) - length (loc s)) (loc s1)\<rparr>)"
| exec_If: "eval e h test s = Some (v, s1) \<Longrightarrow> exec e h d (if isFalsey v then elseStmt else ifStmt) s1 s2 \<Longrightarrow>
    exec_stmt e h d (StmtIf l test ifStmt elseStmt) s s2"
| exec_WhileFalse: "eval e h test s = Some (v, s1) \<Longrightarrow> isFalsey v \<Longrightarrow> exec_stmt e h d (StmtWhile l test body) s s1"
| exec_WhileTrue: "eval e h test s = Some (v, s1) \<Longrightarrow> \<not> isFalsey v \<Longrightarrow> exec e h d body s1 s2 \<Longrightarrow>
    exec_stmt e h d (StmtWhile l test body) s2 s3 \<Longrightarrow> exec_stmt e h d (StmtWhile l test body) s s3"

subsection \<open>The scripts covered\<close>

text \<open>
  The shape of the trees that the semantics covers: an operand or a prefix operator comes first,
  binary operators follow.
\<close>

function (sequential) wf_expr :: "ObjExpr list \<Rightarrow> bool"
  and wf_first :: "ObjExpr \<Rightarrow> bool"
  and wf_rest :: "ObjExpr list \<Rightarrow> bool" where
  "wf_expr [] = False"
| "wf_expr (x # xs) = (wf_first x \<and> wf_rest xs)"
| "wf_first (ExprNumberInt n) = (int_norm n \<and> \<bar>int_val n\<bar> < 2 ^ 24)"
| "wf_first (ExprLiteral l) = True"
| "wf_first (ExprString t) = True"
| "wf_first (ExprGrouping es) = wf_expr es"
| "wf_first (ExprNamedVariable name []) = (name \<noteq> ''this'')"
| "wf_first (ExprNamedVariable name assignment) = (name \<noteq> ''this'' \<and> wf_expr assignment)"
| "wf_first (ExprOperation operation rhs []) = (operation \<in> {EXPR_OP_NOT, EXPR_OP_NEGATE} \<and> wf_expr rhs)"
| "wf_first _ = False"
| "wf_rest [] = True"
| "wf_rest (ExprOperation operation rhs [] # xs) =
     (operation \<notin> {EXPR_OP_NOT, EXPR_OP_NEGATE, EXPR_OP_DEREF_PTR} \<and> wf_expr rhs \<and> wf_rest xs)"
| "wf_rest _ = False"
  by pat_completeness auto

termination
  by size_change

definition wf_decl :: "string \<Rightarrow> ObjExpr list \<Rightarrow> ObjExpr list \<Rightarrow> bool" where
  "wf_decl name type initialiser \<longleftrightarrow>
     name \<noteq> ''this'' \<and> (type = [] \<or> (\<exists>t. type = [ExprType t])) \<and> (initialiser = [] \<or> wf_expr initialiser)"

text \<open>A declaration is not a branch of an \<^verbatim>\<open>if\<close> or the body of a \<^verbatim>\<open>while\<close>: the grammar wants a block there.\<close>

fun is_declaration :: "ObjStmt \<Rightarrow> bool" where
  "is_declaration (StmtVarDeclaration _ _ _ _) = True"
| "is_declaration _ = False"

abbreviation no_declaration :: "ObjStmt list \<Rightarrow> bool" where
  "no_declaration ss \<equiv> list_all (\<lambda>s. \<not> is_declaration s) ss"

fun wf_stmts :: "ObjStmt list \<Rightarrow> bool" and wf_stmt :: "ObjStmt \<Rightarrow> bool" where
  "wf_stmts [] = True"
| "wf_stmts (x # xs) = (wf_stmt x \<and> wf_stmts xs)"
| "wf_stmt (StmtExpression l es) = wf_expr es"
| "wf_stmt (StmtPrint l es) = wf_expr es"
| "wf_stmt (StmtVarDeclaration l name type initialiser) = wf_decl name type initialiser"
| "wf_stmt (StmtBlock l ss) = wf_stmts ss"
| "wf_stmt (StmtIf l test ifStmt elseStmt) = 
     (wf_expr test \<and> wf_stmts ifStmt \<and> no_declaration ifStmt \<and> wf_stmts elseStmt \<and> no_declaration elseStmt)"
| "wf_stmt (StmtWhile l test body) = (wf_expr test \<and> wf_stmts body \<and> no_declaration body)"
| "wf_stmt _ = False"

end
