(* ===== verification/Vm_Runs.thy ===== *)
theory Vm_Runs
  imports Semantics
begin

section \<open>Runs of the virtual machine\<close>

text \<open>The code at a position, and the steps that the machine makes there.\<close>

declare op_byte.simps [simp del]

definition code_at :: "vm_env \<Rightarrow> nat \<Rightarrow> u8 list \<Rightarrow> bool" where
  "code_at e k bs \<longleftrightarrow> (\<exists>pre post. e_code e = pre @ bs @ post \<and> length pre = k)"

lemma code_at_append: "code_at e k (bs @ cs) \<longleftrightarrow> code_at e k bs \<and> code_at e (k + length bs) cs"
proof
  assume "code_at e k bs \<and> code_at e (k + length bs) cs"
  then obtain p q p' q' where *: "e_code e = p @ bs @ q" "length p = k" "e_code e = p' @ cs @ q'" "length p' = k + length bs"
    unfolding code_at_def by blast
  then have "(p @ bs) @ q = p' @ cs @ q'" "length (p @ bs) = length p'" by simp_all
  then have "p' = p @ bs" by (metis append_eq_append_conv)
  then have "e_code e = p @ (bs @ cs) @ q'" using *(3) by simp
  then show "code_at e k (bs @ cs)" using *(2) unfolding code_at_def by blast
next
  assume "code_at e k (bs @ cs)"
  then obtain p q where *: "e_code e = p @ bs @ cs @ q" "length p = k" by (auto simp: code_at_def)
  then have "e_code e = (p @ bs) @ cs @ q" "length (p @ bs) = k + length bs" by simp_all
  then show "code_at e k bs \<and> code_at e (k + length bs) cs" using * unfolding code_at_def by blast
qed

lemma code_at_Cons: "code_at e k (b # c # bs) \<longleftrightarrow> code_at e k [b] \<and> code_at e (Suc k) (c # bs)"
  using code_at_append [of e k "[b]" "c # bs"] by simp

lemma code_at_nth: "code_at e k [b] \<Longrightarrow> k < length (e_code e) \<and> e_code e ! k = b"
  by (auto simp: code_at_def nth_append)

lemma code_at_take: "code_at e k bs \<Longrightarrow> k + length bs \<le> length (e_code e) \<and> take (length bs) (drop k (e_code e)) = bs"
  by (auto simp: code_at_def)

lemmas code_at_simps = code_at_append code_at_Cons

lemma positions:
  "k + 2 = Suc (Suc k)" "k + 3 = Suc (Suc (Suc k))" "k + 4 = Suc (Suc (Suc (Suc k)))"
  "k + 6 = Suc (Suc (Suc (Suc (Suc (Suc k)))))" "k + 7 = Suc (Suc (Suc (Suc (Suc (Suc (Suc k))))))"
  "3 + k = Suc (Suc (Suc k))" "4 + k = Suc (Suc (Suc (Suc k)))" "6 + k = Suc (Suc (Suc (Suc (Suc (Suc k)))))"
  "7 + k = Suc (Suc (Suc (Suc (Suc (Suc (Suc k))))))"
  by simp_all

definition runs :: "vm_env \<Rightarrow> routine \<Rightarrow> routine \<Rightarrow> bool" where
  "runs e = (\<lambda>r r'. step e r = Running r')\<^sup>*\<^sup>*"

lemma runs_refl [simp]: "runs e r r"
  by (simp add: runs_def)

lemma runs_trans [trans]: "runs e r r1 \<Longrightarrow> runs e r1 r2 \<Longrightarrow> runs e r r2"
  unfolding runs_def by (rule rtranclp_trans)

lemma runs_step: "step e r = Running r1 \<Longrightarrow> runs e r1 r2 \<Longrightarrow> runs e r r2"
  unfolding runs_def by (rule converse_rtranclp_into_rtranclp)

lemma runs_one: "step e r = Running r1 \<Longrightarrow> runs e r r1"
  by (simp add: runs_step)

text \<open>A run is a run of the loop with enough fuel.\<close>

lemma runs_run: "runs e r r1 \<Longrightarrow> \<exists>n. \<forall>m. run e (n + m) r = run e m r1"
  unfolding runs_def
proof (induction rule: converse_rtranclp_induct)
  case base
  have "\<forall>m. run e (0 + m) r1 = run e m r1" by simp
  then show ?case by blast
next
  case (step r r')
  then obtain n where "\<forall>m. run e (n + m) r' = run e m r1" by blast
  then have "\<forall>m. run e (Suc n + m) r = run e m r1" using step.hyps(1) by simp
  then show ?case by blast
qed

subsection \<open>The state of the machine for a store\<close>

text \<open>
  The slots of the frame are the local variables over the slot of the function; temporary values are
  above them.
\<close>

definition vm_state :: "routine \<Rightarrow> nat \<Rightarrow> ValueCell list \<Rightarrow> store \<Rightarrow> routine" where
  "vm_state b k temps s =
     b\<lparr>ip := k, stack := temps @ map snd (loc s) @ stack b, globals := glob s, printed := out s\<rparr>"

definition script_base :: "routine \<Rightarrow> bool" where
  "script_base b \<longleftrightarrow> stackEntryIndex b = 0 \<and> length (stack b) = 1"

abbreviation cell :: "Value \<Rightarrow> ValueCell" where
  "cell v \<equiv> \<lparr>vc_value = v, vc_cellType = None\<rparr>"

lemma vm_state_sel [simp]:
  "ip (vm_state b k temps s) = k" "stack (vm_state b k temps s) = temps @ map snd (loc s) @ stack b"
  "globals (vm_state b k temps s) = glob s" "printed (vm_state b k temps s) = out s"
  "vm_heap (vm_state b k temps s) = vm_heap b" "stackEntryIndex (vm_state b k temps s) = stackEntryIndex b"
  by (simp_all add: vm_state_def)

lemma vm_state_moves [simp]:
  "vm_state b k temps s\<lparr>ip := j\<rparr> = vm_state b j temps s"
  "push v (vm_state b k temps s) = vm_state b k (cell v # temps) s"
  "pushTyped v t (vm_state b k temps s) = vm_state b k (\<lparr>vc_value = v, vc_cellType = t\<rparr> # temps) s"
  "n \<le> length temps \<Longrightarrow> pops n (vm_state b k temps s) = vm_state b k (drop n temps) s"
  "vm_state b k temps s\<lparr>globals := gl\<rparr> = vm_state b k temps (s\<lparr>glob := gl\<rparr>)"
  "vm_state b k temps s\<lparr>printed := vs\<rparr> = vm_state b k temps (s\<lparr>out := vs\<rparr>)"
  by (simp_all add: vm_state_def push_def pushTyped_def pops_def)

lemma peek_temps [simp]: "n < length temps \<Longrightarrow> peek (vm_state b k temps s) n = vc_value (temps ! n)"
  by (simp add: peek_def nth_append)

lemma needs_temps [simp]: "n \<le> length temps \<Longrightarrow> needs n (vm_state b k temps s) x = x"
  by (simp add: needs_def)

lemma read_byte_at [simp]: "code_at e j [x] \<Longrightarrow> read_byte e (vm_state b j temps s) f = f x (vm_state b (Suc j) temps s)"
  using code_at_nth [of e j x] by (simp add: read_byte_def)

lemma read_short_at [simp]:
  "code_at e j [x] \<Longrightarrow> code_at e (Suc j) [y] \<Longrightarrow>
   read_short e (vm_state b j temps s) f = f (256 * unat x + unat y) (vm_state b (Suc (Suc j)) temps s)"
  by (simp add: read_short_def)

lemma step_at: "code_at e j [op_byte i] \<Longrightarrow> step e (vm_state b j temps s) = execute e i (vm_state b (Suc j) temps s)"
  by (simp add: step_def)

subsection \<open>Single instructions\<close>

lemma step_simple:
  "code_at e k [op_byte OP_NIL] \<Longrightarrow> step e (vm_state b k temps s) = Running (vm_state b (Suc k) (cell NIL_VAL # temps) s)"
  "code_at e k [op_byte OP_TRUE] \<Longrightarrow> step e (vm_state b k temps s) = Running (vm_state b (Suc k) (cell (BOOL_VAL True) # temps) s)"
  "code_at e k [op_byte OP_FALSE] \<Longrightarrow> step e (vm_state b k temps s) = Running (vm_state b (Suc k) (cell (BOOL_VAL False) # temps) s)"
  "code_at e k [op_byte OP_POP] \<Longrightarrow> step e (vm_state b k (c # temps) s) = Running (vm_state b (Suc k) temps s)"
  "code_at e k [op_byte OP_PRINT] \<Longrightarrow>
     step e (vm_state b k (c # temps) s) = Running (vm_state b (Suc k) temps (s\<lparr>out := out s @ [vc_value c]\<rparr>))"
  by (simp_all add: step_at execute_def op_print_def)

lemma step_pop_local:
  "code_at e k [op_byte OP_POP] \<Longrightarrow> loc s = l # ls \<Longrightarrow>
   step e (vm_state b k [] s) = Running (vm_state b (Suc k) [] (s\<lparr>loc := ls\<rparr>))"
  by (subst step_at, assumption) (simp add: execute_def needs_def pops_def vm_state_def)

lemma step_jump:
  "code_at e k [op_byte OP_JUMP, x, y] \<Longrightarrow>
   step e (vm_state b k temps s) = Running (vm_state b (k + 3 + (256 * unat x + unat y)) temps s)"
  by (auto simp: code_at_simps step_at execute_def op_jump_def eval_nat_numeral)

lemma step_jump_if_false:
  "code_at e k [op_byte OP_JUMP_IF_FALSE, x, y] \<Longrightarrow>
   step e (vm_state b k (c # temps) s) =
     Running (vm_state b (if isFalsey (vc_value c) then k + 3 + (256 * unat x + unat y) else k + 3) (c # temps) s)"
  by (auto simp: code_at_simps step_at execute_def op_jump_if_false_def eval_nat_numeral)

lemma step_loop:
  "code_at e k [op_byte OP_LOOP, x, y] \<Longrightarrow> 256 * unat x + unat y \<le> k + 3 \<Longrightarrow>
   step e (vm_state b k temps s) = Running (vm_state b (k + 3 - (256 * unat x + unat y)) temps s)"
  by (auto simp: code_at_simps step_at execute_def op_loop_def eval_nat_numeral)

lemma step_constant:
  "code_at e k [op_byte OP_CONSTANT, i] \<Longrightarrow> unat i < length (e_constants e) \<Longrightarrow>
   step e (vm_state b k temps s) = Running (vm_state b (k + 2) (cell (const_value e (e_constants e ! unat i)) # temps) s)"
  by (auto simp: code_at_simps step_at execute_def read_constant_def)

lemma read_string_at:
  "code_at e j [i] \<Longrightarrow> unat i < length (e_constants e) \<Longrightarrow> e_constants e ! unat i = KString n \<Longrightarrow>
   read_string e (vm_state b j temps s) f = f n (vm_state b (Suc j) temps s)"
  by (simp add: read_string_def read_constant_def)

lemma step_get_global:
  "code_at e k [op_byte OP_GET_GLOBAL, i] \<Longrightarrow> unat i < length (e_constants e) \<Longrightarrow> e_constants e ! unat i = KString n \<Longrightarrow>
   glob s n = Some c \<Longrightarrow> step e (vm_state b k temps s) = Running (vm_state b (k + 2) (cell (vc_value c) # temps) s)"
  by (auto simp: code_at_simps step_at execute_def op_get_global_def read_string_at)

lemma step_set_global:
  "code_at e k [op_byte OP_SET_GLOBAL, i] \<Longrightarrow> unat i < length (e_constants e) \<Longrightarrow> e_constants e ! unat i = KString n \<Longrightarrow>
   glob s n = Some c \<Longrightarrow> assign_to c (vc_value d) = Some c' \<Longrightarrow>
   step e (vm_state b k (d # temps) s) = Running (vm_state b (k + 2) (d # temps) (s\<lparr>glob := (glob s)(n \<mapsto> c')\<rparr>))"
  by (auto simp: code_at_simps step_at execute_def op_set_global_def read_string_at assign_to_def split: option.splits sum.splits)

lemma step_define_global:
  "code_at e k [op_byte OP_DEFINE_GLOBAL, i] \<Longrightarrow> unat i < length (e_constants e) \<Longrightarrow> e_constants e ! unat i = KString n \<Longrightarrow>
   step e (vm_state b k (d # temps) s) = Running (vm_state b (k + 2) temps (s\<lparr>glob := (glob s)(n \<mapsto> d)\<rparr>))"
  by (auto simp: code_at_simps step_at execute_def op_define_global_def read_string_at)

lemma step_initialise:
  "code_at e k [op_byte OP_INITIALISE] \<Longrightarrow> assign_to c (vc_value d) = Some c' \<Longrightarrow>
   step e (vm_state b k (d # c # temps) s) = Running (vm_state b (Suc k) (c' # temps) s)"
  by (subst step_at, assumption) (auto simp: execute_def op_initialise_def assign_cell_def assign_to_def vm_state_def peek_def needs_def pops_def
      split: option.splits sum.splits)

lemma step_initialise_local:
  "code_at e k [op_byte OP_INITIALISE] \<Longrightarrow> loc s = (n, c) # ls \<Longrightarrow> assign_to c (vc_value d) = Some c' \<Longrightarrow>
   step e (vm_state b k [d] s) = Running (vm_state b (Suc k) [] (s\<lparr>loc := (n, c') # ls\<rparr>))"
  by (subst step_at, assumption) (auto simp: execute_def op_initialise_def assign_cell_def assign_to_def vm_state_def peek_def needs_def pops_def
      split: option.splits sum.splits)

lemma step_duplicate:
  "code_at e k [op_byte OP_DUPLICATE] \<Longrightarrow> copy_value (vc_value c) = Some w \<Longrightarrow>
   step e (vm_state b k (c # temps) s) = Running (vm_state b (Suc k) (cell w # temps) s)"
  by (auto simp: step_at execute_def op_duplicate_def copy_value_def Let_def split: Value.splits option.splits if_splits)

subsection \<open>Local variables\<close>

lemma frameSlot_local:
  assumes "script_base b" "0 < i" "i \<le> length (loc s)"
  shows "frameSlot (vm_state b k temps s) i = Some (length temps + (length (loc s) - i))"
  using assms by (simp add: frameSlot_def script_base_def)

lemma nth_local:
  "j < length ls \<Longrightarrow> (temps @ map snd ls @ st) ! (length temps + j) = snd (ls ! j)"
  by (simp add: nth_append)

lemma step_get_local:
  assumes "script_base b" "code_at e k [op_byte OP_GET_LOCAL, x]" "0 < unat x" "unat x \<le> length (loc s)"
  shows "step e (vm_state b k temps s) =
    Running (vm_state b (k + 2) (cell (vc_value (snd (loc s ! (length (loc s) - unat x)))) # temps) s)"
proof -
  have "step e (vm_state b k temps s) = Running (push (peek (vm_state b (Suc (Suc k)) temps s)
      (length temps + (length (loc s) - unat x))) (vm_state b (Suc (Suc k)) temps s))"
    using assms frameSlot_local [OF assms(1,3,4)] by (auto simp: code_at_simps step_at execute_def op_get_local_def)
  moreover have "length (loc s) - unat x < length (loc s)" using assms(3,4) by simp
  ultimately show ?thesis by (simp only: peek_def vm_state_sel nth_local vm_state_moves) simp
qed

lemma update_local:
  "j < length (loc s) \<Longrightarrow>
   vm_state b k temps s\<lparr>stack := (temps @ map snd (loc s) @ stack b)[length temps + j := c]\<rparr> =
   vm_state b k temps (s\<lparr>loc := (loc s)[j := (fst (loc s ! j), c)]\<rparr>)"
  by (simp add: vm_state_def list_update_append map_update)

lemma step_set_local:
  assumes "script_base b" "code_at e k [op_byte OP_SET_LOCAL, x]" "0 < unat x" "unat x \<le> length (loc s)"
    and j: "j = length (loc s) - unat x" and a: "assign_to (snd (loc s ! j)) (vc_value d) = Some c"
  shows "step e (vm_state b k (d # temps) s) =
    Running (vm_state b (k + 2) (d # temps) (s\<lparr>loc := (loc s)[j := (fst (loc s ! j), c)]\<rparr>))"
proof -
  have l: "j < length (loc s)" using assms by simp
  have f: "frameSlot (vm_state b (Suc (Suc k)) (d # temps) s) (unat x) = Some (length (d # temps) + j)"
    using frameSlot_local [OF assms(1,3,4)] j by simp
  note n = nth_local [OF l, of "d # temps" "stack b"]
  note u = update_local [OF l, where b = b and k = "Suc (Suc k)" and temps = "d # temps"]
  have s: "step e (vm_state b k (d # temps) s) =
      assign_cell (length (d # temps) + j) (vc_value d) ''Cannot set local variable to incompatible type.''
        (vm_state b (Suc (Suc k)) (d # temps) s) Running"
    using assms(2) f by (auto simp: code_at_simps step_at execute_def op_set_local_def)
  show ?thesis
    using a u n unfolding s assign_cell_def assign_to_def Let_def vm_state_sel n
    by (auto split: option.splits sum.splits)
qed

subsection \<open>Operators\<close>

lemma binary_temps:
  assumes "value_of (f (vc_value c) (vc_value d)) = Some u"
  shows "binary f m (vm_state b k (d # c # temps) s) = Running (vm_state b k (cell u # temps) s)"
  using assms by (cases "f (vc_value c) (vc_value d)") (simp_all add: binary_def push_result_def)

lemma step_binary:
  assumes "code_at e k [op_byte i]" "execute e i = (\<lambda>r. binary (f r) m r)"
    "\<And>k t s. f (vm_state b k t s) = F" "value_of (F (vc_value c) (vc_value d)) = Some u"
  shows "step e (vm_state b k (d # c # temps) s) = Running (vm_state b (Suc k) (cell u # temps) s)"
  unfolding step_at [OF assms(1)] assms(2,3) by (rule binary_temps [where f = F, OF assms(4)])

lemma string_case:
  "\<nexists>a b. l = TYPED_VAL (Some a) TypeString \<and> r = TYPED_VAL (Some b) TypeString \<Longrightarrow>
   (case (l, r) of (TYPED_VAL (Some a) TypeString, TYPED_VAL (Some b) TypeString) \<Rightarrow> f a b | _ \<Rightarrow> d) = d"
  by (auto split: Value.splits option.splits YargType.splits)

lemma step_plus:
  assumes "code_at e k [op_byte OP_ADD]" "plus_values e (vc_value c) (vc_value d) = Some u"
  shows "step e (vm_state b k (d # c # temps) s) = Running (vm_state b (Suc k) (cell u # temps) s)"
proof -
  obtain left right where p: "promote (vc_value c) (vc_value d) = (left, right)" by fastforce
  have a: "push_result r m (vm_state b (Suc k) temps s) = Running (vm_state b (Suc k) (cell v # temps) s)"
    if "value_of r = Some v" for r m v using that by (cases r) (simp_all add: push_result_def)
  note d = step_at [OF assms(1)] execute_def op_plus_def plus_values_def p Let_def
  show ?thesis
  proof (cases "\<exists>x y. left = TYPED_VAL (Some x) TypeString \<and> right = TYPED_VAL (Some y) TypeString")
    case True
    then show ?thesis using assms(2) by (auto simp: d split: if_splits)
  next
    case False
    note n = string_case [OF this, unfolded prod.case]
    show ?thesis using assms(2) a by (auto simp: d n split: if_splits)
  qed
qed

lemma step_not:
  "code_at e k [op_byte OP_NOT] \<Longrightarrow>
   step e (vm_state b k (c # temps) s) = Running (vm_state b (Suc k) (cell (BOOL_VAL (isFalsey (vc_value c))) # temps) s)"
  by (simp add: step_at execute_def op_unary_def op_not_def push_result_def)

lemma step_negate:
  assumes "code_at e k [op_byte OP_NEGATE]" "value_of (op_negate (vc_value c)) = Some u"
  shows "step e (vm_state b k (c # temps) s) = Running (vm_state b (Suc k) (cell u # temps) s)"
  using assms by (cases "op_negate (vc_value c)") (simp_all add: step_at execute_def op_unary_def push_result_def)

text \<open>The operators of an expression, and the instructions for them.\<close>

lemma step_arith:
  assumes "code_at e k [op_byte i]" "arith_instructions operation = [i]"
    "operation \<notin> {EXPR_OP_NOT, EXPR_OP_NEGATE}" "apply_binary e (vm_heap b) operation (vc_value c) (vc_value d) = Some u"
  shows "step e (vm_state b k (d # c # temps) s) = Running (vm_state b (Suc k) (cell u # temps) s)"
proof (cases "operation = EXPR_OP_ADD")
  case True
  then show ?thesis using assms step_plus by simp
next
  case False
  then show ?thesis using assms
    by (cases operation) (auto simp: step_at execute_def op_comparison_def op_arith_def op_bits_def compare_values_def
        intro!: binary_temps)
qed

lemma runs_binary:
  assumes "operation \<notin> {EXPR_OP_NOT, EXPR_OP_NEGATE, EXPR_OP_DEREF_PTR, EXPR_OP_LOGICAL_AND, EXPR_OP_LOGICAL_OR}"
    "code_at e k (map op_byte (arith_instructions operation))"
    "apply_binary e (vm_heap b) operation (vc_value c) (vc_value d) = Some u"
  shows "runs e (vm_state b k (d # c # temps) s)
    (vm_state b (k + length (arith_instructions operation)) (cell u # temps) s)"
proof (cases "operation \<in> {EXPR_OP_NOT_EQUAL, EXPR_OP_GREATER_EQUAL, EXPR_OP_LESS_EQUAL}")
  case False
  then obtain i where i: "arith_instructions operation = [i]" using assms(1) by (cases operation) auto
  show ?thesis using assms step_arith [OF _ i, of e k b c d u] by (auto simp: i intro: runs_one)
next
  case True
  then obtain i opr other where i: "arith_instructions operation = [i, OP_NOT]"
    "arith_instructions other = [i]" "other \<notin> {EXPR_OP_NOT, EXPR_OP_NEGATE}"
    "\<And>v w. apply_binary e (vm_heap b) operation v w = negation (apply_binary e (vm_heap b) other v w)"
    by (cases operation) (auto intro: that [of _ EXPR_OP_EQUAL] that [of _ EXPR_OP_LESS] that [of _ EXPR_OP_GREATER])
  obtain w where w: "apply_binary e (vm_heap b) other (vc_value c) (vc_value d) = Some w" "u = BOOL_VAL (isFalsey w)"
    using assms(3) by (auto simp: i(4) negation_def)
  have at: "code_at e k [op_byte i]" "code_at e (Suc k) [op_byte OP_NOT]" using assms(2) by (auto simp: i code_at_simps)
  show ?thesis
    by (rule runs_step [OF step_arith [OF at(1) i(2,3) w(1)]], rule runs_one)
      (use step_not [OF at(2), of b "cell w" temps s] w(2) i(1) in simp)
qed

subsection \<open>Literals and types\<close>

lemma step_immediate:
  assumes "code_at e k (op_byte i # bs)" "execute e i = op_push_immediate e neg (length bs)" "op_immediate neg bs = Some v"
  shows "step e (vm_state b k temps s) = Running (vm_state b (Suc k + length bs) (cell v # temps) s)"
proof -
  have "code_at e k [op_byte i]" and c: "code_at e (Suc k) bs" using assms(1) code_at_append [of e k "[op_byte i]" bs] by auto
  then show ?thesis using code_at_take [OF c] assms(2,3) by (simp add: step_at op_push_immediate_def)
qed

lemma step_type_literal:
  assumes "code_at e k [op_byte OP_TYPE_LITERAL, type_code t]"
  shows "step e (vm_state b k temps s) =
    Running (vm_state b (k + 2) (cell (YARGTYPE_VAL (newYargTypeFromTypeCode (unat (type_code t)))) # temps) s)"
proof -
  have "newYargTypeFromTypeCode (unat (type_code t)) \<noteq> None"
    by (cases t) (simp_all add: newYargTypeFromTypeCode_def)
  then show ?thesis using assms by (auto simp: code_at_simps step_at execute_def op_type_literal_def)
qed

lemma type_code_scalar:
  "newYargTypeFromTypeCode (unat (type_code t)) = Some ct \<Longrightarrow> yt ct \<noteq> YStruct \<and> yt ct \<noteq> YArray"
  by (cases t) (auto simp: newYargTypeFromTypeCode_def)

lemma step_set_cell_type:
  assumes "code_at e k [op_byte OP_SET_CELL_TYPE]" "type_operand (vc_value c) = Some t"
    "\<And>ct. t = Some ct \<Longrightarrow> yt ct \<noteq> YStruct \<and> yt ct \<noteq> YArray"
  shows "step e (vm_state b k (c # temps) s) =
    Running (vm_state b (Suc k) (\<lparr>vc_value = defaultValue (\<lambda>_. NIL_VAL) t, vc_cellType = t\<rparr> # temps) s)"
proof (cases t)
  case None
  then show ?thesis using assms by (simp add: step_at execute_def op_set_cell_type_def defaultValue_def)
next
  case (Some ct)
  then show ?thesis using assms by (simp add: step_at execute_def op_set_cell_type_def)
qed

end
