(* ===== verification/Compiler_Exprs.thy ===== *)
theory Compiler_Exprs
  imports Compiler_State Vm_Runs
begin

section \<open>Correctness of the code of expressions\<close>

text \<open>
  The code between two states of the compiler has an effect on the machine: a relation between the
  temporary values and the store before and after.
\<close>

declare op_byte.simps [simp del]

type_synonym config = "ValueCell list \<times> store"
type_synonym effect = "vm_env \<Rightarrow> config \<Rightarrow> config \<Rightarrow> bool"

definition matches :: "gen \<Rightarrow> store \<Rightarrow> bool" where
  "matches g s \<longleftrightarrow> map l_name (locals_of g) = ''this'' # rev (map fst (loc s))"

text \<open>\<open>realises b g news g' R\<close>: from \<open>g\<close> to \<open>g'\<close> the compiler adds code with the effect \<open>R\<close>, and the local variables \<open>news\<close>.\<close>

definition does :: "routine \<Rightarrow> gen \<Rightarrow> gen \<Rightarrow> u8 list \<Rightarrow> effect \<Rightarrow> bool" where
  "does b g g' bs R \<longleftrightarrow>
     (\<forall>e k temps s temps' s'. code_at e k bs \<longrightarrow> prefix (consts_of g') (e_constants e) \<longrightarrow> matches g s \<longrightarrow>
        R e (temps, s) (temps', s') \<longrightarrow>
        matches g' s' \<and> runs e (vm_state b k temps s) (vm_state b (k + length bs) temps' s'))"

lemma doesD:
  assumes "does b g g' bs R" "code_at e k bs" "prefix (consts_of g') (e_constants e)" "matches g s" "R e (temps, s) (temps', s')"
  shows "matches g' s'" "runs e (vm_state b k temps s) (vm_state b (k + length bs) temps' s')"
  using assms unfolding does_def by blast+

definition realises :: "routine \<Rightarrow> gen \<Rightarrow> Local list \<Rightarrow> gen \<Rightarrow> effect \<Rightarrow> bool" where
  "realises b g news g' R \<longleftrightarrow>
     prefix (consts_of g) (consts_of g') \<and> locals_of g' = locals_of g @ news \<and> depth_of g' = depth_of g \<and>
     (\<exists>bs. code_of g' = code_of g @ bs \<and> does b g g' bs R)"

lemma realisesI:
  assumes "prefix (consts_of g) (consts_of g')" "locals_of g' = locals_of g @ news" "depth_of g' = depth_of g"
    "code_of g' = code_of g @ bs"
    "\<And>e k temps s temps' s'. code_at e k bs \<Longrightarrow> prefix (consts_of g') (e_constants e) \<Longrightarrow> matches g s \<Longrightarrow>
       R e (temps, s) (temps', s') \<Longrightarrow>
       matches g' s' \<and> runs e (vm_state b k temps s) (vm_state b (k + length bs) temps' s')"
  shows "realises b g news g' R"
  unfolding realises_def does_def using assms by blast

lemma realisesE:
  assumes "realises b g news g' R"
  obtains bs where "prefix (consts_of g) (consts_of g')" "locals_of g' = locals_of g @ news" "depth_of g' = depth_of g"
    "code_of g' = code_of g @ bs" "does b g g' bs R"
  using assms unfolding realises_def by blast

lemma realises_trans:
  assumes "realises b g ns g1 R" "realises b g1 ms g2 S"
    and T: "\<And>e c c'. T e c c' \<Longrightarrow> \<exists>d. R e c d \<and> S e d c'"
  shows "realises b g (ns @ ms) g2 T"
proof -
  obtain bs where r: "prefix (consts_of g) (consts_of g1)" "locals_of g1 = locals_of g @ ns" "depth_of g1 = depth_of g"
    "code_of g1 = code_of g @ bs" "does b g g1 bs R"
    using assms(1) by (rule realisesE)
  obtain cs where q: "prefix (consts_of g1) (consts_of g2)" "locals_of g2 = locals_of g1 @ ms" "depth_of g2 = depth_of g1"
    "code_of g2 = code_of g1 @ cs" "does b g1 g2 cs S"
    using assms(2) by (rule realisesE)
  show ?thesis
  proof (rule realisesI [where bs = "bs @ cs"])
    fix e k temps s temps' s'
    assume at: "code_at e k (bs @ cs)" and c: "prefix (consts_of g2) (e_constants e)" and f: "matches g s"
      and t: "T e (temps, s) (temps', s')"
    obtain t1 s1 where d: "R e (temps, s) (t1, s1)" "S e (t1, s1) (temps', s')" using T [OF t] by auto
    have p: "prefix (consts_of g1) (e_constants e)" using q(1) c by (rule prefix_order.trans)
    have a: "code_at e k bs" "code_at e (k + length bs) cs" using at by (simp_all add: code_at_append)
    note 1 = doesD [OF r(5) a(1) p f d(1)]
    note 2 = doesD [OF q(5) a(2) c 1(1) d(2)]
    show "matches g2 s' \<and> runs e (vm_state b k temps s) (vm_state b (k + length (bs @ cs)) temps' s')"
      using 2(1) runs_trans [OF 1(2) 2(2)] by (simp add: add.assoc)
  qed (use r(1-4) q(1-4) in \<open>simp_all add: prefix_order.trans [OF r(1) q(1)]\<close>)
qed

lemma realises_trans0:
  assumes "realises b g [] g1 R" "realises b g1 [] g2 S"
    and "\<And>e c c'. T e c c' \<Longrightarrow> \<exists>d. R e c d \<and> S e d c'"
  shows "realises b g [] g2 T"
  using realises_trans [OF assms(1,2), of T] assms(3) by simp

lemma realises_weaken: "realises b g ns g' R \<Longrightarrow> (\<And>e c c'. T e c c' \<Longrightarrow> R e c c') \<Longrightarrow> realises b g ns g' T"
  unfolding realises_def does_def by meson

text \<open>Code that does not touch the constants and the local variables.\<close>

lemma realises_code:
  assumes "consts_of g' = consts_of g" "locals_of g' = locals_of g" "depth_of g' = depth_of g" "code_of g' = code_of g @ bs"
    "\<And>e k temps s temps' s'. code_at e k bs \<Longrightarrow> prefix (consts_of g) (e_constants e) \<Longrightarrow> matches g s \<Longrightarrow>
       R e (temps, s) (temps', s') \<Longrightarrow>
       map fst (loc s') = map fst (loc s) \<and> runs e (vm_state b k temps s) (vm_state b (k + length bs) temps' s')"
  shows "realises b g [] g' R"
proof (rule realisesI [where bs = bs])
  fix e k temps s temps' s'
  assume "code_at e k bs" "prefix (consts_of g') (e_constants e)" and f: "matches g s" and "R e (temps, s) (temps', s')"
  then have "map fst (loc s') = map fst (loc s) \<and> runs e (vm_state b k temps s) (vm_state b (k + length bs) temps' s')"
    unfolding assms(1) by (intro assms(5))
  then show "matches g' s' \<and> runs e (vm_state b k temps s) (vm_state b (k + length bs) temps' s')"
    using f by (simp add: matches_def assms(2))
qed (simp_all add: assms)

lemma realises_views:
  assumes "prefix (consts_of g) (consts_of g')" "locals_of g' = locals_of g" "depth_of g' = depth_of g" "code_of g' = code_of g"
  shows "realises b g [] g' (\<lambda>_. (=))"
  by (rule realisesI [where bs = "[]"]) (use assms in \<open>auto simp: matches_def\<close>)

subsection \<open>Variables\<close>

lemma resolveLocal_from_matches:
  assumes "take (Suc (length xs)) (map l_name ls) = ''this'' # rev (map fst xs)" "name \<noteq> ''this''" "length xs < length ls"
  shows "case resolveLocal_from (Suc (length xs)) ls name of
      None \<Rightarrow> map_of xs name = None
    | Some (i, bad) \<Rightarrow> 0 < i \<and> i \<le> length xs \<and> fst (xs ! (length xs - i)) = name \<and>
        map_of xs name = Some (snd (xs ! (length xs - i))) \<and>
        (\<forall>c. update_first name c xs = xs[length xs - i := (name, c)])"
  using assms
proof (induction xs)
  case Nil
  then show ?case by (cases ls) auto
next
  case (Cons x xs)
  obtain m c where x: "x = (m, c)" by fastforce
  have t: "take (Suc (length xs)) (map l_name ls) = ''this'' # rev (map fst xs)"
    and n: "l_name (ls ! Suc (length xs)) = m"
  proof -
    have "take (Suc (length xs)) (take (Suc (Suc (length xs))) (map l_name ls)) = ''this'' # rev (map fst xs)"
      using Cons.prems(1) by (simp add: x take_append)
    then show "take (Suc (length xs)) (map l_name ls) = ''this'' # rev (map fst xs)" by (simp add: min_def)
    have "take (Suc (Suc (length xs))) (map l_name ls) ! Suc (length xs) = m"
      using Cons.prems(1) by (simp add: x nth_append)
    then show "l_name (ls ! Suc (length xs)) = m" using Cons.prems(3) by simp
  qed
  show ?case
  proof (cases "m = name")
    case False
    have "resolveLocal_from (Suc (length (x # xs))) ls name = resolveLocal_from (Suc (length xs)) ls name"
      using False by (simp add: n)
    then show ?thesis using Cons.IH [OF t Cons.prems(2)] Cons.prems(3) False
      by (auto simp: x Suc_diff_le split: option.splits simp del: resolveLocal_from.simps)
  qed (simp add: x n)
qed

lemma resolveLocal_matches:
  assumes "matches g s" "name \<noteq> ''this''"
  shows "case resolveLocal (current g) name of
      None \<Rightarrow> map_of (loc s) name = None
    | Some (i, bad) \<Rightarrow> 0 < i \<and> i \<le> length (loc s) \<and> fst (loc s ! (length (loc s) - i)) = name \<and>
        map_of (loc s) name = Some (snd (loc s ! (length (loc s) - i))) \<and>
        (\<forall>c. update_first name c (loc s) = (loc s)[length (loc s) - i := (name, c)])"
proof -
  have l: "length (locals_of g) = Suc (length (loc s))"
    using arg_cong [OF assms(1) [unfolded matches_def], of length] by simp
  then have "take (Suc (length (loc s))) (map l_name (locals_of g)) = ''this'' # rev (map fst (loc s))"
    using assms(1) by (simp add: matches_def)
  from resolveLocal_from_matches [OF this assms(2)] show ?thesis by (simp add: resolveLocal_def l)
qed

lemma resolveUpvalue_script: "tl cs = [] \<Longrightarrow> resolveUpvalue name cs = (None, [], cs)"
  by (cases cs) auto

lemma resolveVariable_script:
  assumes "sound g"
  shows "resolveVariable name g =
    (case resolveLocal (current g) name of
       Some (i, bad) \<Rightarrow> (OP_GET_LOCAL, OP_SET_LOCAL, of_nat i, errors_at (own_initializer name bad) g)
     | None \<Rightarrow> (OP_GET_GLOBAL, OP_SET_GLOBAL, fst (makeConstant (KString name) g), snd (makeConstant (KString name) g)))"
  using assms by (simp add: resolveVariable_def resolveUpvalue_script sound_def errors_at_def identifierConstant_def
      split: option.splits prod.splits)

lemma resolveVariable_safe:
  assumes "sound g" "resolveVariable name g = (getOp, setOp, arg, g1)"
  shows "sound g1" "good g1 \<Longrightarrow> good g"
  using assms safe_sound [OF safe_makeConstant assms(1), of "KString name"] safe_good [OF safe_makeConstant assms(1), of "KString name"]
    safe_sound [OF safe_errorAt assms(1)]
  by (auto simp: resolveVariable_script errors_at_def own_initializer_def split: option.splits if_splits)

lemma resolveVariable_views:
  assumes "sound g" "resolveVariable name g = (getOp, setOp, arg, g1)"
  shows "code_of g1 = code_of g" "locals_of g1 = locals_of g" "depth_of g1 = depth_of g" "prefix (consts_of g) (consts_of g1)"
  using assms makeConstant_views [of "KString name" g arg g1]
  by (auto simp: resolveVariable_script errors_at_def own_initializer_def split: option.splits if_splits)

text \<open>The instructions for a variable read and write it, at every later point with the same local variables.\<close>

definition get_effect :: "string \<Rightarrow> effect" where
  "get_effect name e c c' \<longleftrightarrow> (\<exists>v. lookup_var (snd c) name = Some v \<and> snd c' = snd c \<and> fst c' = cell v # fst c)"

definition set_effect :: "string \<Rightarrow> effect" where
  "set_effect name e c c' \<longleftrightarrow> (\<exists>w t. fst c = cell w # t \<and> fst c' = fst c \<and> assign_var (snd c) name w = Some (snd c'))"

lemma resolveVariable_local:
  assumes "matches g s" "name \<noteq> ''this''" "sound g" "resolveLocal (current g) name = Some (i, bad)"
  shows "unat (of_nat i :: u8) = i" "0 < i" "i \<le> length (loc s)" "fst (loc s ! (length (loc s) - i)) = name"
    "map_of (loc s) name = Some (snd (loc s ! (length (loc s) - i)))"
    "update_first name c (loc s) = (loc s)[length (loc s) - i := (name, c)]"
proof -
  have l: "length (locals_of g) = Suc (length (loc s))"
    using arg_cong [OF assms(1) [unfolded matches_def], of length] by simp
  show i: "0 < i" "i \<le> length (loc s)" "fst (loc s ! (length (loc s) - i)) = name"
    "map_of (loc s) name = Some (snd (loc s ! (length (loc s) - i)))"
    "update_first name c (loc s) = (loc s)[length (loc s) - i := (name, c)]"
    using resolveLocal_matches [OF assms(1,2)] assms(4) by auto
  show "unat (of_nat i :: u8) = i" using i(2) l assms(3) by (simp add: sound_def unat_of_nat)
qed

lemma resolveVariable_global:
  assumes "sound g" "good g1" "resolveVariable name g = (getOp, setOp, arg, g1)" "resolveLocal (current g) name = None"
    "prefix (consts_of g1) (consts_of g2)" "prefix (consts_of g2) (e_constants e)"
  shows "unat arg < length (e_constants e)" "e_constants e ! unat arg = KString name"
    "getOp = OP_GET_GLOBAL" "setOp = OP_SET_GLOBAL"
proof -
  have k: "makeConstant (KString name) g = (arg, g1)" using assms(1,3,4) by (auto simp: resolveVariable_script)
  have "prefix (consts_of g1) (e_constants e)" using assms(5,6) by (rule prefix_order.trans)
  then show "unat arg < length (e_constants e)" "e_constants e ! unat arg = KString name"
    using makeConstant_string [OF k assms(2,1)] by (auto simp: prefix_def nth_append)
  show "getOp = OP_GET_GLOBAL" "setOp = OP_SET_GLOBAL" using assms(1,3,4) by (auto simp: resolveVariable_script)
qed

lemma resolveVariable_get:
  assumes b: "script_base b" and g: "sound g" "good g1" and r: "resolveVariable name g = (getOp, setOp, arg, g1)"
    and name: "name \<noteq> ''this''" and p: "prefix (consts_of g1) (consts_of g2)"
    and pm: "code_at e k [op_byte getOp, arg]" "prefix (consts_of g2) (e_constants e)" "matches g s" "lookup_var s name = Some u"
  shows "runs e (vm_state b k temps s) (vm_state b (k + 2) (cell u # temps) s)"
proof (cases "resolveLocal (current g) name")
  case None
  then have n: "map_of (loc s) name = None" using resolveLocal_matches [OF pm(3) name] by simp
  then obtain c where c: "glob s name = Some c" "u = vc_value c" using pm(4) by (auto simp: lookup_var_def)
  note k = resolveVariable_global [OF g r None p pm(2)]
  show ?thesis using step_get_global [OF pm(1) [unfolded k(3)] k(1,2) c(1)] c(2) by (auto intro: runs_one)
next
  case (Some ib)
  then obtain i bad where i: "resolveLocal (current g) name = Some (i, bad)" by (cases ib) auto
  note l = resolveVariable_local [OF pm(3) name g(1) i]
  have k: "getOp = OP_GET_LOCAL" "arg = of_nat i" using r g(1) i by (auto simp: resolveVariable_script)
  show ?thesis using step_get_local [OF b pm(1) [unfolded k(1)], of s] l(1-3,5) pm(4)
    by (auto simp: k lookup_var_def intro: runs_one)
qed

lemma resolveVariable_set:
  assumes b: "script_base b" and g: "sound g" "good g1" and r: "resolveVariable name g = (getOp, setOp, arg, g1)"
    and name: "name \<noteq> ''this''" and p: "prefix (consts_of g1) (consts_of g2)"
    and pm: "code_at e k [op_byte setOp, arg]" "prefix (consts_of g2) (e_constants e)" "matches g s" "assign_var s name w = Some s'"
  shows "map fst (loc s') = map fst (loc s) \<and>
      runs e (vm_state b k (cell w # temps) s) (vm_state b (k + 2) (cell w # temps) s')"
proof (cases "resolveLocal (current g) name")
  case None
  then have n: "map_of (loc s) name = None" using resolveLocal_matches [OF pm(3) name] by simp
  then obtain c c' where c: "glob s name = Some c" "assign_to c w = Some c'" "s' = s\<lparr>glob := (glob s)(name \<mapsto> c')\<rparr>"
    using pm(4) by (auto simp: assign_var_def split: option.splits)
  note k = resolveVariable_global [OF g r None p pm(2)]
  show ?thesis using step_set_global [OF pm(1) [unfolded k(4)] k(1,2) c(1), of "cell w" c'] c by (auto intro: runs_one)
next
  case (Some ib)
  then obtain i bad where i: "resolveLocal (current g) name = Some (i, bad)" by (cases ib) auto
  note l = resolveVariable_local [OF pm(3) name g(1) i]
  have k: "setOp = OP_SET_LOCAL" "arg = of_nat i" using r g(1) i by (auto simp: resolveVariable_script)
  obtain c where c: "assign_to (snd (loc s ! (length (loc s) - i))) w = Some c"
    "s' = s\<lparr>loc := (loc s)[length (loc s) - i := (name, c)]\<rparr>"
    using pm(4) l(5) l(6) by (auto simp: assign_var_def)
  have st: "step e (vm_state b k (cell w # temps) s) = Running (vm_state b (k + 2) (cell w # temps) s')"
    using step_set_local [OF b pm(1) [unfolded k(1)], of s "length (loc s) - i" "cell w" c] l(1-4) c by (simp add: k)
  have "map fst (loc s') = (map fst (loc s))[length (loc s) - i := name]" by (simp add: c map_update)
  also have "\<dots> = map fst (loc s)" using l(2-4) by (simp add: list_update_same_conv)
  finally show ?thesis using st by (auto intro: runs_one)
qed

lemma resolveVariable_use:
  assumes b: "script_base b" and g: "sound g" "good g1" and r: "resolveVariable name g = (getOp, setOp, arg, g1)"
    and name: "name \<noteq> ''this''" and v: "locals_of g2 = locals_of g" "prefix (consts_of g1) (consts_of g2)"
  shows "realises b g2 [] (emitBytes (op_byte getOp) arg g2) (get_effect name)"
    "realises b g2 [] (emitBytes (op_byte setOp) arg g2) (set_effect name)"
proof -
  have f: "matches g2 s = matches g s" for s by (simp add: matches_def v)
  note get = resolveVariable_get [OF b g r name v(2)] and set = resolveVariable_set [OF b g r name v(2)]
  show "realises b g2 [] (emitBytes (op_byte getOp) arg g2) (get_effect name)"
    by (rule realises_code [where bs = "[op_byte getOp, arg]"]) (use get in \<open>auto simp: get_effect_def f\<close>)
  show "realises b g2 [] (emitBytes (op_byte setOp) arg g2) (set_effect name)"
    by (rule realises_code [where bs = "[op_byte setOp, arg]"]) (use set in \<open>auto simp: set_effect_def f\<close>)
qed

subsection \<open>Numbers\<close>

lemma op_immediate_literal:
  assumes "(\<Sum>i < length bs. 256 ^ i * unat (bs ! i)) = nat \<bar>v\<bar>" "\<bar>v\<bar> < 2 ^ 24"
  shows "op_immediate (v < 0) bs = Some (literal_int v)"
proof -
  let ?w = "of_nat (nat \<bar>v\<bar>) :: u64"
  have s: "int_store (int_init_concrete2\<lparr>i_literal := True\<rparr>)" "i_m (int_init_concrete2\<lparr>i_literal := True\<rparr>) = 2"
    using int_init_concrete_ok [of 2] by (simp_all add: int_init_concrete2_def int_ok_def int_store_def)
  have "nat \<bar>v\<bar> < 2 ^ 24" using assms(2) by simp
  then have "unat ?w = nat \<bar>v\<bar>" by (subst unat_of_nat) simp
  then have "unat ?w < Prelude.base ^ 2" using assms(2) by simp
  then have "int_ok (int_set_u ?w (int_init_concrete2\<lparr>i_literal := True\<rparr>))" using int_set_u_ok [OF s(1)] s(2) by simp
  then show ?thesis
    by (simp add: op_immediate_def assms(1) literal_int_def Let_def int_ok_def int_invariant_def)
qed

lemma three_bytes: "n mod 256 + (256 * (n div 256 mod 256) + 65536 * (n div 65536)) = (n :: nat)"
proof -
  have d: "n div 65536 = n div 256 div 256" by (simp flip: div_mult2_eq)
  have "n div 256 mod 256 + 256 * (n div 256 div 256) = n div 256" "n mod 256 + 256 * (n div 256) = n"
    by (rule mod_mult_div_eq)+
  then show ?thesis unfolding d by linarith
qed

lemma sum_three_bytes:
  "(\<Sum>i < length [x, y, z :: u8]. 256 ^ i * unat ([x, y, z] ! i)) = unat x + (256 * unat y + 65536 * unat z)"
  by (simp add: sum.lessThan_Suc)

lemma byte_of_int: "0 \<le> k \<Longrightarrow> k < 256 \<Longrightarrow> unat (word_of_int k :: u8) = nat k"
  by (simp add: unat_eq_nat_uint uint_word_of_int)

text \<open>The bytes of a number of up to 24 bits, with the instruction that decodes them.\<close>

lemma emitImmediateConstant_decodes:
  assumes "\<bar>v\<bar> < 2 ^ 24"
  obtains i bs where "emitImmediateConstant v g = fold emitByte (op_byte i # bs) g"
    "\<And>e. execute e i = op_push_immediate e (v < 0) (length bs)" "op_immediate (v < 0) bs = Some (literal_int v)"
proof -
  consider "\<bar>v\<bar> \<le> 255" | "255 < \<bar>v\<bar>" "\<bar>v\<bar> \<le> 65535" | "65535 < \<bar>v\<bar>" by linarith
  then show ?thesis
  proof cases
    case 1
    let ?bs = "[word_of_int \<bar>v\<bar> :: u8]"
    have "op_immediate (v < 0) ?bs = Some (literal_int v)"
      by (rule op_immediate_literal) (use 1 assms in \<open>simp_all add: byte_of_int\<close>)
    then show ?thesis
      using 1 by (intro that [of "if v < 0 then OP_IMMEDIATE_N8 else OP_IMMEDIATE_P8" ?bs])
        (auto simp: emitImmediateConstant_def emitBytes_def execute_def fun_eq_iff Let_def numeral_2_eq_2 numeral_3_eq_3)
  next
    case 2
    let ?bs = "[word_of_int (\<bar>v\<bar> mod 256), word_of_int (\<bar>v\<bar> div 256) :: u8]"
    have d: "unat (word_of_int (\<bar>v\<bar> div 256) :: u8) = nat (\<bar>v\<bar> div 256)" by (rule byte_of_int) (use 2 in linarith)+
    have "nat (\<bar>v\<bar> mod 256) + 256 * nat (\<bar>v\<bar> div 256) = nat \<bar>v\<bar>" by (simp add: nat_mod_distrib nat_div_distrib)
    then have "op_immediate (v < 0) ?bs = Some (literal_int v)"
      by (intro op_immediate_literal) (use 2 assms d in \<open>simp_all add: byte_of_int sum.lessThan_Suc\<close>)
    then show ?thesis
      using 2 by (intro that [of "if v < 0 then OP_IMMEDIATE_N16 else OP_IMMEDIATE_P16" ?bs])
        (auto simp: emitImmediateConstant_def emitBytes_def execute_def fun_eq_iff Let_def numeral_2_eq_2 numeral_3_eq_3)
  next
    case 3
    let ?bs = "[word_of_int (\<bar>v\<bar> mod 256), word_of_int (\<bar>v\<bar> div 256 mod 256), word_of_int (\<bar>v\<bar> div 65536) :: u8]"
    have d: "unat (word_of_int (\<bar>v\<bar> div 65536) :: u8) = nat (\<bar>v\<bar> div 65536)"
      using assms by (intro byte_of_int) simp_all
    have "nat (\<bar>v\<bar> mod 256) + (256 * nat (\<bar>v\<bar> div 256 mod 256) + 65536 * nat (\<bar>v\<bar> div 65536)) = nat \<bar>v\<bar>"
      using three_bytes [of "nat \<bar>v\<bar>"] by (simp add: nat_mod_distrib nat_div_distrib pos_imp_zdiv_nonneg_iff)
    moreover have "unat (word_of_int (\<bar>v\<bar> mod 256) :: u8) = nat (\<bar>v\<bar> mod 256)"
      "unat (word_of_int (\<bar>v\<bar> div 256 mod 256) :: u8) = nat (\<bar>v\<bar> div 256 mod 256)" by (intro byte_of_int; simp)+
    ultimately have "op_immediate (v < 0) ?bs = Some (literal_int v)"
      by (intro op_immediate_literal [OF _ assms]) (simp only: sum_three_bytes d)
    then show ?thesis
      using 3 by (intro that [of "if v < 0 then OP_IMMEDIATE_N24 else OP_IMMEDIATE_P24" ?bs])
        (auto simp: emitImmediateConstant_def emitBytes_def execute_def fun_eq_iff Let_def numeral_2_eq_2 numeral_3_eq_3)
  qed
qed

lemma fold_emitByte_views [simp]:
  "code_of (fold emitByte bs g) = code_of g @ bs" "consts_of (fold emitByte bs g) = consts_of g"
  "locals_of (fold emitByte bs g) = locals_of g" "depth_of (fold emitByte bs g) = depth_of g"
  "good (fold emitByte bs g) = good g" "sound (fold emitByte bs g) = sound g"
  by (induction bs arbitrary: g) simp_all

text \<open>A number is emitted as an immediate operand.\<close>

lemma generateNumber_immediate:
  assumes "int_norm n" "\<bar>int_val n\<bar> < 2 ^ 24"
  shows "generateNumber n g = emitImmediateConstant (int_val n) g"
proof -
  obtain r where r: "allocateIntValue (i_d n) = Some r" "int_store r" "i_d n \<le> i_m r"
    using allocateIntValue_Some [of "i_d n"] int_norm_d [OF assms(1)] by auto
  then have "int_store (r\<lparr>i_literal := True\<rparr>)" "i_d n \<le> i_m (r\<lparr>i_literal := True\<rparr>)" by (simp_all add: int_store_def)
  from int_set_t_correct [OF assms(1) this]
  obtain m where m: "int_set_t n (r\<lparr>i_literal := True\<rparr>) = Some m" "int_norm m" "int_val m = int_val n" by metis
  have v: "- 16777216 < int_val n" "int_val n < 16777216" using assms(2) unfolding abs_less_iff by simp_all
  have "int_is_range m (- 0xFFFFFF) 0xFFFFFF = INT_WITHIN"
    using v m(3) by (simp add: int_is_range_correct [OF m(2)])
  moreover have "sint (int_to_i32 m) = int_val n" using int_to_i32_correct [OF m(2)] m(3) v by simp
  ultimately show ?thesis by (simp add: generateNumber_def r m emitConstant_def)
qed

definition push_effect :: "(vm_env \<Rightarrow> Value) \<Rightarrow> effect" where
  "push_effect v e c c' \<longleftrightarrow> snd c' = snd c \<and> fst c' = cell (v e) # fst c"

lemma realises_number:
  assumes "int_norm n" "\<bar>int_val n\<bar> < 2 ^ 24"
  shows "realises b g [] (generateNumber n g) (push_effect (\<lambda>_. literal_int (int_val n)))"
proof -
  obtain i bs where i: "emitImmediateConstant (int_val n) g = fold emitByte (op_byte i # bs) g"
    "\<And>e. execute e i = op_push_immediate e (int_val n < 0) (length bs)"
    "op_immediate (int_val n < 0) bs = Some (literal_int (int_val n))"
    using emitImmediateConstant_decodes [OF assms(2)] by metis
  show ?thesis
    unfolding generateNumber_immediate [OF assms] i(1)
    by (rule realises_code [where bs = "op_byte i # bs"])
      (use i(2,3) in \<open>auto simp: push_effect_def simp del: fold.simps intro!: runs_one dest: step_immediate\<close>)
qed

lemma realises_literal: "realises b g [] (generateExprLiteral l g) (push_effect (\<lambda>_. literal_of l))"
  by (cases l) (auto intro!: realises_code runs_one simp: push_effect_def step_simple)

lemma realises_string:
  assumes "sound g" "good (emitConstant (KString t) g)"
  shows "realises b g [] (emitConstant (KString t) g) (push_effect (\<lambda>e. TYPED_VAL (Some (intern e t)) TypeString))"
proof -
  obtain i g1 where m: "makeConstant (KString t) g = (i, g1)" by fastforce
  have g1: "good g1" using assms(2) by (simp add: emitConstant_def m)
  note k = makeConstant_string [OF m g1 assms(1)] and v = makeConstant_views [OF m]
  have "realises b g1 [] (emitBytes (op_byte OP_CONSTANT) i g1) (push_effect (\<lambda>e. TYPED_VAL (Some (intern e t)) TypeString))"
  proof (rule realises_code [where bs = "[op_byte OP_CONSTANT, i]"])
    fix e j temps s temps' s'
    assume a: "code_at e j [op_byte OP_CONSTANT, i]" "prefix (consts_of g1) (e_constants e)"
      "push_effect (\<lambda>e. TYPED_VAL (Some (intern e t)) TypeString) e (temps, s) (temps', s')"
    have "unat i < length (e_constants e)" "e_constants e ! unat i = KString t"
      using a(2) k by (auto simp: prefix_def nth_append)
    then show "map fst (loc s') = map fst (loc s) \<and>
      runs e (vm_state b j temps s) (vm_state b (j + length [op_byte OP_CONSTANT, i]) temps' s')"
      using step_constant [OF a(1)] a(3) by (auto simp: push_effect_def const_value_def intro: runs_one)
  qed simp_all
  then have "realises b g [] (emitBytes (op_byte OP_CONSTANT) i g1) (push_effect (\<lambda>e. TYPED_VAL (Some (intern e t)) TypeString))"
    by (rule realises_trans0 [OF realises_views [OF v(4,2,3,1)]]) simp
  then show ?thesis by (simp add: emitConstant_def m)
qed

subsection \<open>Jumps\<close>

lemma jump_bytes:
  assumes "n \<le> 65535"
  shows "256 * unat (of_nat (n div 256) :: u8) + unat (of_nat (n mod 256) :: u8) = n"
proof -
  have "n div 256 < 256" using assms by linarith
  then have "unat (of_nat (n div 256) :: u8) = n div 256" "unat (of_nat (n mod 256) :: u8) = n mod 256"
    by (simp_all add: unat_of_nat)
  then show ?thesis by simp
qed

lemma generateExprLogicalAnd_comp:
  "generateExprLogicalAnd rhs = (\<lambda>g. (patchJump (length (code_of g) + 1) \<circ> (rhs \<circ> (emitByte (op_byte OP_POP) \<circ>
     (emitByte 0xFF \<circ> (emitByte 0xFF \<circ> emitByte (op_byte OP_JUMP_IF_FALSE)))))) g)"
  by (simp add: fun_eq_iff generateExprLogicalAnd_def emitJump_comp)

lemma generateExprLogicalOr_comp:
  "generateExprLogicalOr rhs = (\<lambda>g. (\<lambda>k. patchJump (k + 4) \<circ> (rhs \<circ> (emitByte (op_byte OP_POP) \<circ> (patchJump (k + 1) \<circ>
     (emitByte 0xFF \<circ> (emitByte 0xFF \<circ> (emitByte (op_byte OP_JUMP) \<circ>
     (emitByte 0xFF \<circ> (emitByte 0xFF \<circ> emitByte (op_byte OP_JUMP_IF_FALSE)))))))))) (length (code_of g)) g)"
  by (simp add: fun_eq_iff generateExprLogicalOr_def emitJump_comp eval_nat_numeral)

lemma safe_generateExprLogicalAnd: "safe rhs \<Longrightarrow> safe (generateExprLogicalAnd rhs)"
  unfolding generateExprLogicalAnd_comp by (rule safe_dep) (intro safes)

lemma safe_generateExprLogicalOr: "safe rhs \<Longrightarrow> safe (generateExprLogicalOr rhs)"
  unfolding generateExprLogicalOr_comp by (rule safe_dep) (intro safes)

text \<open>The second operand is evaluated for some values of the first one only.\<close>

definition lazy_effect :: "(Value \<Rightarrow> bool) \<Rightarrow> effect \<Rightarrow> effect" where
  "lazy_effect P R e c c' \<longleftrightarrow> (\<exists>u t. fst c = cell u # t \<and> (if P u then R e (t, snd c) c' else c' = c))"

lemma realises_and:
  assumes rhs: "safe rhs" "\<And>g. sound g \<Longrightarrow> good (rhs g) \<Longrightarrow> realises b g [] (rhs g) R"
    and g: "sound g" "good (generateExprLogicalAnd rhs g)"
  shows "realises b g [] (generateExprLogicalAnd rhs g) (lazy_effect (\<lambda>u. \<not> isFalsey u) R)"
proof -
  define g1 where "g1 = emitByte (op_byte OP_POP) (emitByte 0xFF (emitByte 0xFF (emitByte (op_byte OP_JUMP_IF_FALSE) g)))"
  have G: "generateExprLogicalAnd rhs g = patchJump (length (code_of g) + 1) (rhs g1)"
    by (simp add: g1_def generateExprLogicalAnd_comp)
  have s1: "sound g1" "sound (rhs g1)" using g(1) safe_sound [OF rhs(1)] by (simp_all add: g1_def)
  note gp = good_patchJump [OF s1(2), of "length (code_of g) + 1"]
  have "good (rhs g1)" using g(2) gp by (simp add: G)
  from rhs(2) [OF s1(1) this] obtain bs where r: "prefix (consts_of g1) (consts_of (rhs g1))"
    "locals_of (rhs g1) = locals_of g1 @ []" "depth_of (rhs g1) = depth_of g1" "code_of (rhs g1) = code_of g1 @ bs" "does b g1 (rhs g1) bs R"
    by (rule realisesE)
  have len: "length bs + 1 \<le> 65535" using g(2) gp r(4) by (simp add: G code_count_def g1_def)
  let ?j = "Suc (length bs)"
  have code: "code_of (generateExprLogicalAnd rhs g) =
      code_of g @ [op_byte OP_JUMP_IF_FALSE, of_nat (?j div 256), of_nat (?j mod 256)] @ [op_byte OP_POP] @ bs"
    using code_patchJump [of "rhs g1" "code_of g @ [op_byte OP_JUMP_IF_FALSE]" "0xFF" "0xFF" "op_byte OP_POP # bs"] r(4)
    by (simp add: G g1_def)
  show ?thesis
  proof (rule realisesI [OF _ _ _ code])
    fix e k temps s temps' s'
    assume at: "code_at e k ([op_byte OP_JUMP_IF_FALSE, of_nat (?j div 256), of_nat (?j mod 256)] @ [op_byte OP_POP] @ bs)"
      and c: "prefix (consts_of (generateExprLogicalAnd rhs g)) (e_constants e)" and m: "matches g s"
      and l: "lazy_effect (\<lambda>u. \<not> isFalsey u) R e (temps, s) (temps', s')"
    have at': "code_at e k [op_byte OP_JUMP_IF_FALSE, of_nat (?j div 256), of_nat (?j mod 256)]"
      "code_at e (k + 3) [op_byte OP_POP]" "code_at e (k + 4) bs"
      using at unfolding code_at_append by (simp_all add: positions)
    obtain u t where u: "temps = cell u # t" "if isFalsey u then (temps', s') = (temps, s) else R e (t, s) (temps', s')"
      using l by (auto simp: lazy_effect_def split: if_splits)
    note j = step_jump_if_false [OF at'(1), of b "cell u" t s, unfolded jump_bytes [OF len [unfolded Suc_eq_plus1 [symmetric]]]]
    have m1: "matches g1 s" "matches (generateExprLogicalAnd rhs g) s = matches (rhs g1) s"
      "matches (generateExprLogicalAnd rhs g) s' = matches (rhs g1) s'" "matches (rhs g1) s"
      using m r(2) by (simp_all add: matches_def g1_def G)
    have c1: "prefix (consts_of (rhs g1)) (e_constants e)" using c by (simp add: G)
    show "matches (generateExprLogicalAnd rhs g) s' \<and> runs e (vm_state b k temps s)
      (vm_state b (k + length ([op_byte OP_JUMP_IF_FALSE, of_nat (?j div 256), of_nat (?j mod 256)] @ [op_byte OP_POP] @ bs)) temps' s')"
    proof (cases "isFalsey u")
      case True
      then show ?thesis using u j m1 by (auto simp: positions intro!: runs_one)
    next
      case False
      then have "runs e (vm_state b k temps s) (vm_state b (k + 3) temps s)" using j u(1) by (simp add: runs_one)
      also have "runs e (vm_state b (k + 3) temps s) (vm_state b (k + 4) t s)"
        using step_simple(4) [OF at'(2), of b "cell u" t s] u(1) by (simp add: runs_one positions)
      finally show ?thesis
        using runs_trans doesD [OF r(5) at'(3) c1 m1(1)] u(2) False m1(3) by (auto simp: positions)
    qed
  qed (use r(1-3) in \<open>simp_all add: G g1_def\<close>)
qed

lemma realises_or:
  assumes rhs: "safe rhs" "\<And>g. sound g \<Longrightarrow> good (rhs g) \<Longrightarrow> realises b g [] (rhs g) R"
    and g: "sound g" "good (generateExprLogicalOr rhs g)"
  shows "realises b g [] (generateExprLogicalOr rhs g) (lazy_effect isFalsey R)"
proof -
  let ?k = "length (code_of g)"
  define g0 where "g0 = emitByte 0xFF (emitByte 0xFF (emitByte (op_byte OP_JUMP)
    (emitByte 0xFF (emitByte 0xFF (emitByte (op_byte OP_JUMP_IF_FALSE) g)))))"
  define g1 where "g1 = emitByte (op_byte OP_POP) (patchJump (?k + 1) g0)"
  have G: "generateExprLogicalOr rhs g = patchJump (?k + 4) (rhs g1)"
    by (simp add: g0_def g1_def generateExprLogicalOr_comp)
  have v1: "code_of g1 = code_of g @ [op_byte OP_JUMP_IF_FALSE, 0, 3] @ [op_byte OP_JUMP, 0xFF, 0xFF] @ [op_byte OP_POP]"
    "consts_of g1 = consts_of g" "locals_of g1 = locals_of g" "depth_of g1 = depth_of g"
    using code_patchJump [of g0 "code_of g @ [op_byte OP_JUMP_IF_FALSE]" "0xFF" "0xFF" "[op_byte OP_JUMP, 0xFF, 0xFF]" "?k + 1"]
    by (simp_all add: g1_def g0_def)
  have s1: "sound g1" "sound (rhs g1)"
    using g(1) safe_sound [OF rhs(1)] safe_sound [OF safe_patchJump] by (simp_all add: g1_def g0_def)
  note gp = good_patchJump [OF s1(2), of "?k + 4"]
  have "good (rhs g1)" using g(2) gp by (simp add: G)
  from rhs(2) [OF s1(1) this] obtain bs where r: "prefix (consts_of g1) (consts_of (rhs g1))"
    "locals_of (rhs g1) = locals_of g1 @ []" "depth_of (rhs g1) = depth_of g1" "code_of (rhs g1) = code_of g1 @ bs" "does b g1 (rhs g1) bs R"
    by (rule realisesE)
  have len: "Suc (length bs) \<le> 65535" using g(2) gp r(4) v1(1) by (simp add: G code_count_def)
  let ?j = "Suc (length bs)" and ?J = "[op_byte OP_JUMP_IF_FALSE, 0, 3 :: u8]"
  let ?L = "[op_byte OP_JUMP, of_nat (Suc (length bs) div 256), of_nat (Suc (length bs) mod 256)]"
  have code: "code_of (generateExprLogicalOr rhs g) = code_of g @ ?J @ ?L @ [op_byte OP_POP] @ bs"
    using code_patchJump [of "rhs g1" "code_of g @ ?J @ [op_byte OP_JUMP]" "0xFF" "0xFF" "op_byte OP_POP # bs" "?k + 4"] r(4) v1(1)
    by (simp add: G)
  show ?thesis
  proof (rule realisesI [OF _ _ _ code])
    fix e k temps s temps' s'
    assume at: "code_at e k (?J @ ?L @ [op_byte OP_POP] @ bs)"
      and c: "prefix (consts_of (generateExprLogicalOr rhs g)) (e_constants e)" and m: "matches g s"
      and l: "lazy_effect isFalsey R e (temps, s) (temps', s')"
    have at': "code_at e k ?J" "code_at e (k + 3) ?L" "code_at e (k + 6) [op_byte OP_POP]" "code_at e (k + 7) bs"
      using at unfolding code_at_append by (simp_all add: positions)
    obtain u t where u: "temps = cell u # t" "if isFalsey u then R e (t, s) (temps', s') else (temps', s') = (temps, s)"
      using l by (auto simp: lazy_effect_def split: if_splits)
    have m1: "matches g1 s" "matches (generateExprLogicalOr rhs g) s = matches (rhs g1) s"
      "matches (generateExprLogicalOr rhs g) s' = matches (rhs g1) s'" "matches (rhs g1) s"
      using m r(2) v1(3) by (simp_all add: matches_def G)
    have c1: "prefix (consts_of (rhs g1)) (e_constants e)" using c by (simp add: G)
    note j = step_jump_if_false [OF at'(1), of b "cell u" t s] and j2 = step_jump [OF at'(2), of b temps s, unfolded jump_bytes [OF len]]
    show "matches (generateExprLogicalOr rhs g) s' \<and> runs e (vm_state b k temps s)
      (vm_state b (k + length (?J @ ?L @ [op_byte OP_POP] @ bs)) temps' s')"
    proof (cases "isFalsey u")
      case False
      then have "runs e (vm_state b k temps s) (vm_state b (k + 3) temps s)" using j u(1) by (simp add: runs_one)
      from runs_trans [OF this runs_one [OF j2]] show ?thesis using u m1 False by (simp add: positions)
    next
      case True
      then have "runs e (vm_state b k temps s) (vm_state b (k + 6) temps s)" using j u(1) by (simp add: runs_one positions)
      also have "runs e (vm_state b (k + 6) temps s) (vm_state b (k + 7) t s)"
        using step_simple(4) [OF at'(3), of b "cell u" t s] u(1) by (simp add: runs_one positions)
      finally show ?thesis
        using runs_trans doesD [OF r(5) at'(4) c1 m1(1)] u(2) True m1(3) by (auto simp: positions)
    qed
  qed (use r(1-3) v1 in \<open>simp_all add: G\<close>)
qed

subsection \<open>Expressions\<close>

text \<open>A generator of code that has an effect and declares no variable.\<close>

definition correct :: "routine \<Rightarrow> generator \<Rightarrow> effect \<Rightarrow> bool" where
  "correct b G R \<longleftrightarrow> safe G \<and> (\<forall>g. sound g \<longrightarrow> good (G g) \<longrightarrow> realises b g [] (G g) R)"

lemma correctI: "safe G \<Longrightarrow> (\<And>g. sound g \<Longrightarrow> good (G g) \<Longrightarrow> realises b g [] (G g) R) \<Longrightarrow> correct b G R"
  unfolding correct_def by blast

lemma correctD: "correct b G R \<Longrightarrow> safe G" "correct b G R \<Longrightarrow> sound g \<Longrightarrow> good (G g) \<Longrightarrow> realises b g [] (G g) R"
  unfolding correct_def by blast+

lemma correct_comp:
  assumes "correct b F R" "correct b G S" "\<And>e c c'. T e c c' \<Longrightarrow> \<exists>d. R e c d \<and> S e d c'"
  shows "correct b (G \<circ> F) T"
proof (rule correctI)
  show "safe (G \<circ> F)" by (rule safe_comp [OF correctD(1) [OF assms(2)] correctD(1) [OF assms(1)]])
next
  fix g assume g: "sound g" "good ((G \<circ> F) g)"
  have s: "sound (F g)" by (rule safe_sound [OF correctD(1) [OF assms(1)] g(1)])
  have f: "good (F g)" using safe_good [OF correctD(1) [OF assms(2)] s] g(2) by simp
  show "realises b g [] ((G \<circ> F) g) T"
    using realises_trans0 [OF correctD(2) [OF assms(1) g(1) f] correctD(2) [OF assms(2) s] assms(3)] g(2) by simp
qed

lemma correct_weaken: "correct b G R \<Longrightarrow> (\<And>e c c'. T e c c' \<Longrightarrow> R e c c') \<Longrightarrow> correct b G T"
  using realises_weaken unfolding correct_def by blast

lemma correct_emitByte:
  assumes "\<And>e k t s t' s'. code_at e k [x] \<Longrightarrow> R e (t, s) (t', s') \<Longrightarrow>
    map fst (loc s') = map fst (loc s) \<and> runs e (vm_state b k t s) (vm_state b (Suc k) t' s')"
  shows "correct b (emitByte x) R"
  by (rule correctI [OF safe_emitByte]) (rule realises_code [where bs = "[x]"], use assms in simp_all)

lemma emitOps_fold: "emitOps ops = fold emitByte (map op_byte ops)"
  by (simp add: fun_eq_iff emitOps_def fold_map comp_def)

lemma safe_fold_emitByte [safes]: "safe (fold emitByte bs)"
  by (rule safeI) simp_all

definition expr_effect :: "routine \<Rightarrow> ObjExpr list \<Rightarrow> effect" where
  "expr_effect b xs e c c' \<longleftrightarrow> (\<exists>v. eval e (vm_heap b) xs (snd c) = Some (v, snd c') \<and> fst c' = cell v # fst c)"

definition first_effect :: "routine \<Rightarrow> ObjExpr \<Rightarrow> effect" where
  "first_effect b x e c c' \<longleftrightarrow> (\<exists>v. eval_first e (vm_heap b) x (snd c) = Some (v, snd c') \<and> fst c' = cell v # fst c)"

definition rest_effect :: "routine \<Rightarrow> ObjExpr list \<Rightarrow> effect" where
  "rest_effect b xs e c c' \<longleftrightarrow>
     (\<exists>u t v. fst c = cell u # t \<and> eval_rest e (vm_heap b) xs u (snd c) = Some (v, snd c') \<and> fst c' = cell v # t)"

lemma correct_number: "wf_first (ExprNumberInt n) \<Longrightarrow> correct b (generateNumber n) (push_effect (\<lambda>_. literal_int (int_val n)))"
proof (rule correctI)
  assume n: "wf_first (ExprNumberInt n)"
  have e: "\<exists>bs. generateNumber n g = fold emitByte bs g" for g
    using emitImmediateConstant_decodes [of "int_val n" g] n by (metis generateNumber_immediate wf_first.simps(1))
  show "safe (generateNumber n)"
  proof (rule safeI)
    fix g show "sound g \<Longrightarrow> sound (generateNumber n g)" "good (generateNumber n g) \<Longrightarrow> good g"
      using e [of g] by auto
  qed
qed (simp add: realises_number)

lemma correct_literal: "correct b (generateExprLiteral l) (push_effect (\<lambda>_. literal_of l))"
proof (rule correctI)
  show "safe (generateExprLiteral l)" by (rule safeI) (cases l; simp)+
qed (rule realises_literal)

lemma correct_string: "correct b (emitConstant (KString t)) (push_effect (\<lambda>e. TYPED_VAL (Some (intern e t)) TypeString))"
proof (rule correctI)
  have "emitConstant (KString t) = (\<lambda>g. emitBytes (op_byte OP_CONSTANT) (fst (makeConstant (KString t) g)) (snd (makeConstant (KString t) g)))"
    by (simp add: fun_eq_iff emitConstant_def split: prod.splits)
  moreover have "safe (\<lambda>g. emitBytes (op_byte OP_CONSTANT) (fst (makeConstant (KString t) g)) (snd (makeConstant (KString t) g)))"
    using safe_sound [OF safe_makeConstant] safe_good [OF safe_makeConstant] by (intro safeI) auto
  ultimately show "safe (emitConstant (KString t))" by simp
qed (rule realises_string)

lemma generateExprNamedVariable_script:
  assumes "resolveVariable name g = (getOp, setOp, arg, g1)" "name \<noteq> ''this''"
  shows "generateExprNamedVariable name None g = emitBytes (op_byte getOp) arg g1"
    "generateExprNamedVariable name (Some a) g = emitBytes (op_byte setOp) arg (emitByte (op_byte OP_DUPLICATE) (a g1))"
  using assms by (simp_all add: generateExprNamedVariable_def)

lemma correct_get:
  assumes "script_base b" "name \<noteq> ''this''"
  shows "correct b (generateExprNamedVariable name None) (get_effect name)"
proof -
  have *: "sound (generateExprNamedVariable name None g)"
    "good (generateExprNamedVariable name None g) \<Longrightarrow> good g"
    "good (generateExprNamedVariable name None g) \<Longrightarrow> realises b g [] (generateExprNamedVariable name None g) (get_effect name)"
    if g: "sound g" for g
  proof -
    obtain getOp setOp arg g1 where r: "resolveVariable name g = (getOp, setOp, arg, g1)" by (cases "resolveVariable name g") auto
    note G = generateExprNamedVariable_script(1) [OF r assms(2)]
    note s = resolveVariable_safe [OF g r] and v = resolveVariable_views [OF g r]
    show "sound (generateExprNamedVariable name None g)"
      "good (generateExprNamedVariable name None g) \<Longrightarrow> good g" using s by (simp_all add: G)
    assume "good (generateExprNamedVariable name None g)"
    then have "good g1" by (simp add: G)
    note use = resolveVariable_use(1) [OF assms(1) g this r assms(2) v(2) prefix_order.refl]
    show "realises b g [] (generateExprNamedVariable name None g) (get_effect name)"
      unfolding G by (rule realises_trans0 [OF realises_views [OF v(4,2,3,1)] use]) simp
  qed
  show ?thesis by (rule correctI [OF safeI]) (rule *; assumption)+
qed

definition copy_effect :: effect where
  "copy_effect e c c' \<longleftrightarrow> (\<exists>v w t. fst c = cell v # t \<and> copy_value v = Some w \<and> fst c' = cell w # t \<and> snd c' = snd c)"

lemma correct_copy: "correct b (emitByte (op_byte OP_DUPLICATE)) copy_effect"
  by (rule correct_emitByte) (auto simp: copy_effect_def intro!: runs_one step_duplicate)

lemma correct_set:
  assumes "script_base b" "name \<noteq> ''this''" and a: "correct b a R"
    and T: "\<And>e c c'. T e c c' \<Longrightarrow> \<exists>d d'. R e c d \<and> copy_effect e d d' \<and> set_effect name e d' c'"
  shows "correct b (generateExprNamedVariable name (Some a)) T"
proof -
  let ?G = "generateExprNamedVariable name (Some a)"
  have *: "sound (?G g)" "good (?G g) \<Longrightarrow> good g" "good (?G g) \<Longrightarrow> realises b g [] (?G g) T" if g: "sound g" for g
  proof -
    obtain getOp setOp arg g1 where r: "resolveVariable name g = (getOp, setOp, arg, g1)" by (cases "resolveVariable name g") auto
    note G = generateExprNamedVariable_script(2) [OF r assms(2)]
    note s = resolveVariable_safe [OF g r] and v = resolveVariable_views [OF g r]
    note sa = safe_sound [OF correctD(1) [OF a] s(1)] safe_good [OF correctD(1) [OF a] s(1)]
    show "sound (?G g)" "good (?G g) \<Longrightarrow> good g" using s sa by (simp_all add: G)
    assume "good (?G g)"
    then have ga: "good (a g1)" by (simp add: G)
    note ra = correctD(2) [OF a s(1) ga]
    let ?g2 = "emitByte (op_byte OP_DUPLICATE) (a g1)"
    have v2: "locals_of ?g2 = locals_of g" "prefix (consts_of g1) (consts_of ?g2)" using ra v(2) by (simp_all add: realises_def)
    have rd: "realises b (a g1) [] ?g2 copy_effect" by (rule correctD(2) [OF correct_copy sa(1)]) (simp add: ga)
    note use = resolveVariable_use(2) [OF assms(1) g sa(2) [OF ga] r assms(2) v2]
    have "realises b g1 [] (?G g) T"
      unfolding G by (rule realises_trans0 [OF ra realises_trans0 [OF rd use]]) (assumption, use T in blast)
    then show "realises b g [] (?G g) T"
      by (rule realises_trans0 [OF realises_views [OF v(4,2,3,1)]]) simp
  qed
  show ?thesis by (rule correctI [OF safeI]) (rule *; assumption)+
qed

lemma generateArithOperation_comp:
  "generateArithOperation operation rhs = fold emitByte (map op_byte (arith_instructions operation)) \<circ> rhs"
  by (simp add: fun_eq_iff generateArithOperation_def emitOps_fold)

lemma correct_binary:
  assumes "correct b rhs (expr_effect b es)"
    "operation \<notin> {EXPR_OP_NOT, EXPR_OP_NEGATE, EXPR_OP_DEREF_PTR, EXPR_OP_LOGICAL_AND, EXPR_OP_LOGICAL_OR}"
  shows "correct b (generateArithOperation operation rhs)
    (\<lambda>e c c'. \<exists>u t w v s1. fst c = cell u # t \<and> eval e (vm_heap b) es (snd c) = Some (w, snd c') \<and>
       apply_binary e (vm_heap b) operation u w = Some v \<and> fst c' = cell v # t)"
proof -
  have "correct b (fold emitByte (map op_byte (arith_instructions operation)))
      (\<lambda>e c c'. \<exists>u w v t. fst c = cell w # cell u # t \<and> apply_binary e (vm_heap b) operation u w = Some v \<and>
         fst c' = cell v # t \<and> snd c' = snd c)"
    by (rule correctI [OF safe_fold_emitByte],
        rule realises_code [where bs = "map op_byte (arith_instructions operation)"])
      (use runs_binary [OF assms(2)] in \<open>auto simp: assms(2)\<close>)
  then show ?thesis
    unfolding generateArithOperation_comp by (rule correct_comp [OF assms(1)]) (auto simp: expr_effect_def)
qed

lemma correct_unary:
  assumes "correct b rhs (expr_effect b es)" "operation \<in> {EXPR_OP_NOT, EXPR_OP_NEGATE}"
  shows "correct b (generateArithOperation operation rhs)
    (\<lambda>e c c'. \<exists>w v. eval e (vm_heap b) es (snd c) = Some (w, snd c') \<and> apply_unary operation w = Some v \<and> fst c' = cell v # fst c)"
proof -
  have "correct b (fold emitByte (map op_byte (arith_instructions operation)))
      (\<lambda>e c c'. \<exists>w v t. fst c = cell w # t \<and> apply_unary operation w = Some v \<and> fst c' = cell v # t \<and> snd c' = snd c)"
    by (rule correctI [OF safe_fold_emitByte],
        rule realises_code [where bs = "map op_byte (arith_instructions operation)"])
      (use assms(2) in \<open>auto intro!: runs_one simp: step_not step_negate\<close>)
  then show ?thesis
    unfolding generateArithOperation_comp by (rule correct_comp [OF assms(1)]) (auto simp: expr_effect_def)
qed

lemma correct_lazy:
  assumes "correct b rhs R"
  shows "correct b (generateExprLogicalAnd rhs) (lazy_effect (\<lambda>u. \<not> isFalsey u) R)"
    "correct b (generateExprLogicalOr rhs) (lazy_effect isFalsey R)"
  using correctD [OF assms] safe_generateExprLogicalAnd safe_generateExprLogicalOr realises_and realises_or
  by (auto intro!: correctI)

text \<open>The code of an operator after its left operand.\<close>

lemma correct_operation:
  assumes "correct b (generateExpr rhs) (expr_effect b rhs)"
    "operation \<notin> {EXPR_OP_NOT, EXPR_OP_NEGATE, EXPR_OP_DEREF_PTR}"
  shows "correct b (generateExprElt (ExprOperation operation rhs []))
    (\<lambda>e c c'. \<exists>u t v. fst c = cell u # t \<and> fst c' = cell v # t \<and>
       eval_rest e (vm_heap b) [ExprOperation operation rhs []] u (snd c) = Some (v, snd c'))"
proof -
  consider "operation = EXPR_OP_LOGICAL_AND" | "operation = EXPR_OP_LOGICAL_OR"
    | "operation \<notin> {EXPR_OP_NOT, EXPR_OP_NEGATE, EXPR_OP_DEREF_PTR, EXPR_OP_LOGICAL_AND, EXPR_OP_LOGICAL_OR}"
    using assms(2) by blast
  then show ?thesis
  proof cases
    case 1
    have "generateExprElt (ExprOperation operation rhs []) = generateExprLogicalAnd (generateExpr rhs)"
      by (simp add: 1 generateExprOperation_def)
    then show ?thesis
      using correct_lazy(1) [OF assms(1)]
      by (auto simp: 1 lazy_effect_def expr_effect_def bind_eq_Some_conv prod_eq_iff elim!: correct_weaken split: if_splits)
  next
    case 2
    have "generateExprElt (ExprOperation operation rhs []) = generateExprLogicalOr (generateExpr rhs)"
      by (simp add: 2 generateExprOperation_def)
    then show ?thesis
      using correct_lazy(2) [OF assms(1)]
      by (auto simp: 2 lazy_effect_def expr_effect_def bind_eq_Some_conv prod_eq_iff elim!: correct_weaken split: if_splits)
  next
    case 3
    have "generateExprElt (ExprOperation operation rhs []) = generateArithOperation operation (generateExpr rhs)"
      using 3 by (auto simp: generateExprOperation_def)
    then show ?thesis
      using correct_binary [OF assms(1) 3] 3
      by (auto simp: bind_eq_Some_conv elim!: correct_weaken)
  qed
qed

lemma eval_rest_operation:
  "eval_rest e h (ExprOperation operation rhs [] # xs) u s = Some (v, s') \<Longrightarrow>
   \<exists>w s1. eval_rest e h [ExprOperation operation rhs []] u s = Some (w, s1) \<and> eval_rest e h xs w s1 = Some (v, s')"
  by (cases "operation = EXPR_OP_LOGICAL_AND \<or> operation = EXPR_OP_LOGICAL_OR")
    (auto simp: bind_eq_Some_conv split: if_splits)

lemma correct_exprs:
  assumes "script_base b"
  shows "wf_expr xs \<Longrightarrow> correct b (generateExpr xs) (expr_effect b xs)"
    "wf_first x \<Longrightarrow> correct b (generateExprElt x) (first_effect b x)"
    "wf_rest ys \<Longrightarrow> correct b (generateExpr ys) (rest_effect b ys)"
proof (induction xs and x and ys rule: wf_expr_wf_first_wf_rest.induct)
  case (2 x xs)
  then have "correct b (generateExprElt x) (first_effect b x)" "correct b (generateExpr xs) (rest_effect b xs)" by simp_all
  then have "correct b (generateExpr xs \<circ> generateExprElt x) (expr_effect b (x # xs))"
    by (rule correct_comp) (auto simp: expr_effect_def first_effect_def rest_effect_def bind_eq_Some_conv)
  then show ?case by (simp add: comp_def)
next
  case (3 n)
  then show ?case by (auto intro: correct_weaken [OF correct_number] simp: push_effect_def first_effect_def)
next
  case (4 l)
  then show ?case by (auto intro: correct_weaken [OF correct_literal] simp: push_effect_def first_effect_def)
next
  case (5 t)
  then show ?case by (auto intro: correct_weaken [OF correct_string] simp: push_effect_def first_effect_def)
next
  case (6 es)
  then show ?case by (auto elim: correct_weaken simp: expr_effect_def first_effect_def)
next
  case (7 name)
  then show ?case by (auto intro: correct_weaken [OF correct_get [OF assms]] simp: get_effect_def first_effect_def)
next
  case (8 name y ys)
  then have "name \<noteq> ''this''" "correct b (generateExpr (y # ys)) (expr_effect b (y # ys))"
    by (simp_all del: generateExpr.simps)
  then have "correct b (generateExprNamedVariable name (Some (generateExpr (y # ys)))) (first_effect b (ExprNamedVariable name (y # ys)))"
    by (rule correct_set [OF assms])
      (auto simp: first_effect_def expr_effect_def copy_effect_def set_effect_def bind_eq_Some_conv simp del: generateExpr.simps eval.simps)
  then show ?case by (simp del: generateExpr.simps eval.simps add: generateExprElt.simps)
next
  case (9 operation rhs)
  then have o: "operation \<in> {EXPR_OP_NOT, EXPR_OP_NEGATE}" "correct b (generateExpr rhs) (expr_effect b rhs)" by simp_all
  have "generateExprElt (ExprOperation operation rhs []) = generateArithOperation operation (generateExpr rhs)"
    using o(1) by (auto simp: generateExprOperation_def)
  then show ?case using correct_unary [OF o(2,1)] by (auto elim!: correct_weaken simp: first_effect_def bind_eq_Some_conv)
next
  case 11
  show ?case by (auto intro!: correctI safes realises_code simp: rest_effect_def)
next
  case (12 operation rhs xs)
  then have o: "operation \<notin> {EXPR_OP_NOT, EXPR_OP_NEGATE, EXPR_OP_DEREF_PTR}"
    "correct b (generateExpr rhs) (expr_effect b rhs)" "correct b (generateExpr xs) (rest_effect b xs)" by simp_all
  have "correct b (generateExpr xs \<circ> generateExprElt (ExprOperation operation rhs [])) (rest_effect b (ExprOperation operation rhs [] # xs))"
  proof (rule correct_comp [OF correct_operation [OF o(2,1)] o(3)])
    fix e c c' assume "rest_effect b (ExprOperation operation rhs [] # xs) e c c'"
    then obtain u t v where "fst c = cell u # t" "fst c' = cell v # t"
      "eval_rest e (vm_heap b) (ExprOperation operation rhs [] # xs) u (snd c) = Some (v, snd c')"
      by (auto simp: rest_effect_def simp del: eval_rest.simps)
    moreover from eval_rest_operation [OF this(3)] obtain w s where
      "eval_rest e (vm_heap b) [ExprOperation operation rhs []] u (snd c) = Some (w, s)"
      "eval_rest e (vm_heap b) xs w s = Some (v, snd c')" by blast
    ultimately show "\<exists>d. (\<exists>u t v. fst c = cell u # t \<and> fst d = cell v # t \<and>
        eval_rest e (vm_heap b) [ExprOperation operation rhs []] u (snd c) = Some (v, snd d)) \<and> rest_effect b xs e d c'"
      unfolding rest_effect_def by (intro exI [of _ "(cell w # t, s)"]) auto
  qed
  then show ?case by (simp add: comp_def)
qed simp_all

end
