(* ===== verification/Compiler_Stmts.thy ===== *)
theory Compiler_Stmts
  imports Compiler_Exprs
begin

section \<open>Correctness of the code of statements\<close>

text \<open>
  A generator of code for statements may declare local variables of the current scope; they are the
  last ones.
\<close>

declare op_byte.simps [simp del]

definition nested :: "gen \<Rightarrow> bool" where
  "nested g \<longleftrightarrow> 0 \<le> depth_of g \<and> (\<forall>l \<in> set (locals_of g). l_depth l \<le> depth_of g)"

definition in_scope :: "gen \<Rightarrow> Local list \<Rightarrow> bool" where
  "in_scope g news \<longleftrightarrow> (\<forall>l \<in> set news. l_depth l = depth_of g \<and> \<not> isCaptured l)"

definition stmts_correct :: "routine \<Rightarrow> bool \<Rightarrow> generator \<Rightarrow> (nat \<Rightarrow> effect) \<Rightarrow> bool" where
  "stmts_correct b declares G R \<longleftrightarrow> safe G \<and>
     (\<forall>g. sound g \<longrightarrow> good (G g) \<longrightarrow> nested g \<longrightarrow>
        (\<exists>news. realises b g news (G g) (R (nat (depth_of g))) \<and> in_scope g news \<and> (\<not> declares \<longrightarrow> news = [])))"

lemma stmts_correctI:
  "safe G \<Longrightarrow> (\<And>g. sound g \<Longrightarrow> good (G g) \<Longrightarrow> nested g \<Longrightarrow>
     \<exists>news. realises b g news (G g) (R (nat (depth_of g))) \<and> in_scope g news \<and> (\<not> declares \<longrightarrow> news = [])) \<Longrightarrow>
   stmts_correct b declares G R"
  unfolding stmts_correct_def by blast

lemma stmts_correctD:
  "stmts_correct b declares G R \<Longrightarrow> safe G"
  "stmts_correct b declares G R \<Longrightarrow> sound g \<Longrightarrow> good (G g) \<Longrightarrow> nested g \<Longrightarrow>
     \<exists>news. realises b g news (G g) (R (nat (depth_of g))) \<and> in_scope g news \<and> (\<not> declares \<longrightarrow> news = [])"
  unfolding stmts_correct_def by blast+

lemma correct_stmts: "(\<And>d. correct b G (R d)) \<Longrightarrow> stmts_correct b declares G R"
  by (rule stmts_correctI) (blast dest: correctD, fastforce dest: correctD simp: in_scope_def)

lemma nested_after: "nested g \<Longrightarrow> realises b g news g1 R \<Longrightarrow> in_scope g news \<Longrightarrow> nested g1"
  by (auto simp: nested_def realises_def in_scope_def)

lemma stmts_correct_comp:
  assumes F: "stmts_correct b x F R" and G: "stmts_correct b y G S"
    and T: "\<And>d e c c'. T d e c c' \<Longrightarrow> \<exists>m. R d e c m \<and> S d e m c'"
  shows "stmts_correct b (x \<or> y) (G \<circ> F) T"
proof (rule stmts_correctI)
  show "safe (G \<circ> F)" by (rule safe_comp [OF stmts_correctD(1) [OF G] stmts_correctD(1) [OF F]])
next
  fix g assume g: "sound g" "good ((G \<circ> F) g)" "nested g"
  have s: "sound (F g)" by (rule safe_sound [OF stmts_correctD(1) [OF F] g(1)])
  have f: "good (F g)" using safe_good [OF stmts_correctD(1) [OF G] s] g(2) by simp
  obtain ns where ns: "realises b g ns (F g) (R (nat (depth_of g)))" "in_scope g ns" "\<not> x \<longrightarrow> ns = []"
    using stmts_correctD(2) [OF F g(1) f g(3)] by blast
  have d: "depth_of (F g) = depth_of g" using ns(1) by (simp add: realises_def)
  obtain ms where ms: "realises b (F g) ms (G (F g)) (S (nat (depth_of (F g))))" "in_scope (F g) ms" "\<not> y \<longrightarrow> ms = []"
    using stmts_correctD(2) [OF G s _ nested_after [OF g(3) ns(1,2)]] g(2) by auto
  have "realises b g (ns @ ms) ((G \<circ> F) g) (T (nat (depth_of g)))"
    using realises_trans [OF ns(1) ms(1) [unfolded d] T] by simp
  moreover have "in_scope g (ns @ ms)" using ns(2) ms(2) d by (auto simp: in_scope_def)
  ultimately show "\<exists>news. realises b g news ((G \<circ> F) g) (T (nat (depth_of g))) \<and> in_scope g news \<and> (\<not> (x \<or> y) \<longrightarrow> news = [])"
    using ns(3) ms(3) by auto
qed

subsection \<open>Safety of the operations on scopes\<close>

lemma safe_beginStmt [safes]: "safe (beginStmt l)"
  by (rule safeI) (simp_all add: sound_def good_def beginStmt_def Let_def)

lemma beginStmt_views [simp]:
  "code_of (beginStmt l g) = code_of g" "consts_of (beginStmt l g) = consts_of g"
  "locals_of (beginStmt l g) = locals_of g" "depth_of (beginStmt l g) = depth_of g"
  by (simp_all add: beginStmt_def Let_def)

lemma correct_beginStmt: "correct b (beginStmt l) (\<lambda>_. (=))"
  by (rule correctI [OF safe_beginStmt]) (rule realises_views, simp_all)

lemma stmts_correct_line:
  assumes "stmts_correct b declares G R"
  shows "stmts_correct b declares (G \<circ> beginStmt l) R"
  using stmts_correct_comp [OF correct_stmts [where declares = False, OF correct_beginStmt] assms, of R] by auto

lemma safe_beginScope [safes]: "safe beginScope"
  unfolding beginScope_def by (rule safe_on_current) auto

lemma beginScope_views [simp]:
  "code_of (beginScope g) = code_of g" "consts_of (beginScope g) = consts_of g"
  "locals_of (beginScope g) = locals_of g" "depth_of (beginScope g) = depth_of g + 1"
  by (simp_all add: beginScope_def)

lemma safe_endScope_loop: "length ls \<le> 256 \<Longrightarrow> safe (endScope_loop ls)"
proof (induction ls)
  case Nil
  show ?case by (simp add: fun_eq_iff [symmetric] safe_on_current)
next
  case (Cons l ls)
  have e: "endScope_loop (l # ls) = (\<lambda>g. if l_depth l > depth_of g
      then (endScope_loop ls \<circ> emitByte (op_byte (if isCaptured l then OP_CLOSE_UPVALUE else OP_POP))) g
      else on_current (\<lambda>c. c\<lparr>locals := rev (l # ls)\<rparr>) g)" by (simp add: fun_eq_iff)
  show ?case unfolding e by (intro safe_if safe_comp safe_emitByte safe_on_current) (use Cons in auto)
qed

lemma safe_endScope [safes]: "safe endScope"
proof -
  define c where "c = on_current (\<lambda>c. c\<lparr>scopeDepth := scopeDepth c - 1\<rparr>)"
  have c: "safe c" unfolding c_def by (rule safe_on_current) auto
  have e: "endScope g = endScope_loop (rev (locals_of (c g))) (c g)" for g by (simp add: endScope_def c_def Let_def)
  show ?thesis
  proof (rule safeI)
    fix g assume g: "sound g"
    have s: "sound (c g)" by (rule safe_sound [OF c g])
    have l: "safe (endScope_loop (rev (locals_of (c g))))" by (rule safe_endScope_loop) (use s in \<open>simp add: sound_def\<close>)
    show "sound (endScope g)" unfolding e by (rule safe_sound [OF l s])
    assume "good (endScope g)"
    then show "good g" unfolding e by (rule safe_good [OF c g safe_good [OF l s]])
  qed
qed

lemma safe_addLocal [safes]: "safe (addLocal name)"
proof (rule safeI)
  fix g assume g: "sound g"
  then have "length (locals_of g) \<noteq> 256 \<Longrightarrow> Suc (length (locals_of g)) \<le> 256" by (simp add: sound_def)
  then show "sound (addLocal name g)"
    using safe_sound [OF safe_errorAt g] g by (cases "length (locals_of g) = 256") (simp_all add: addLocal_def, simp add: sound_def)
  assume "good (addLocal name g)"
  then show "good g" using g by (cases "length (locals_of g) = 256") (simp_all add: addLocal_def, simp add: good_def)
qed

lemma safe_declareVariable [safes]: "safe (declareVariable name)"
proof (rule safeI)
  fix g assume g: "sound g"
  show "sound (declareVariable name g)"
    using safe_sound [OF safe_errorAt g] safe_sound [OF safe_addLocal g] g by (auto simp: declareVariable_def Let_def)
  assume "good (declareVariable name g)"
  then show "good g"
    using safe_good [OF safe_addLocal g] g by (auto simp: declareVariable_def Let_def split: if_splits)
qed

lemma safe_parseVariable [safes]: "safe (\<lambda>g. snd (parseVariable name g))"
proof (rule safeI)
  fix g assume g: "sound g"
  note s = safe_sound [OF safe_declareVariable g, of name]
  show "sound (snd (parseVariable name g))"
    using safe_sound [OF safe_makeConstant s] s by (simp add: parseVariable_def Let_def identifierConstant_def)
  assume "good (snd (parseVariable name g))"
  then have "good (declareVariable name g)"
    using safe_good [OF safe_makeConstant s] by (simp add: parseVariable_def Let_def identifierConstant_def split: if_splits)
  then show "good g" by (rule safe_good [OF safe_declareVariable g])
qed

lemma safe_defineVariable [safes]: "safe (defineVariable k)"
proof -
  have e: "defineVariable k = (\<lambda>g. if depth_of g > 0 then (if depth_of g = 0 then g else on_current (\<lambda>c. c\<lparr>locals := (locals c)[length (locals c) - 1 :=
      (last (locals c))\<lparr>l_depth := scopeDepth c\<rparr>]\<rparr>) g) else emitBytes (op_byte OP_DEFINE_GLOBAL) k g)"
    by (simp add: fun_eq_iff defineVariable_def markInitialized_def)
  show ?thesis unfolding e by (intro safe_if safe_emitBytes safe_on_current safe_id) auto
qed

subsection \<open>Simple statements and blocks\<close>

definition stmt_effect :: "routine \<Rightarrow> ObjStmt \<Rightarrow> nat \<Rightarrow> effect" where
  "stmt_effect b x d e c c' \<longleftrightarrow> fst c = [] \<and> fst c' = [] \<and> exec_stmt e (vm_heap b) d x (snd c) (snd c')"

definition stmts_effect :: "routine \<Rightarrow> ObjStmt list \<Rightarrow> nat \<Rightarrow> effect" where
  "stmts_effect b xs d e c c' \<longleftrightarrow> fst c = [] \<and> fst c' = [] \<and> exec e (vm_heap b) d xs (snd c) (snd c')"

inductive_cases exec_NilE [elim!]: "exec e h d [] s s'"
inductive_cases exec_ConsE [elim!]: "exec e h d (x # xs) s s'"
inductive_cases exec_ExpressionE [elim!]: "exec_stmt e h d (StmtExpression l es) s s'"
inductive_cases exec_PrintE [elim!]: "exec_stmt e h d (StmtPrint l es) s s'"
inductive_cases exec_VarE [elim!]: "exec_stmt e h d (StmtVarDeclaration l name type initialiser) s s'"
inductive_cases exec_BlockE [elim!]: "exec_stmt e h d (StmtBlock l ss) s s'"
inductive_cases exec_IfE [elim!]: "exec_stmt e h d (StmtIf l test ifStmt elseStmt) s s'"

lemma correct_pop: "correct b (emitByte (op_byte OP_POP)) (\<lambda>e c c'. fst c = x # fst c' \<and> snd c' = snd c)"
  by (rule correct_emitByte) (auto intro!: runs_one step_simple)

lemma correct_print:
  "correct b (emitByte (op_byte OP_PRINT)) (\<lambda>e c c'. \<exists>v. fst c = cell v # fst c' \<and> snd c' = snd c\<lparr>out := out (snd c) @ [v]\<rparr>)"
  by (rule correct_emitByte) (auto intro!: runs_one simp: step_simple)

lemma stmts_correct_expression:
  assumes "correct b (generateExpr es) (expr_effect b es)"
  shows "stmts_correct b False (generateStmt (StmtExpression l es)) (stmt_effect b (StmtExpression l es))"
proof -
  have "correct b (emitByte (op_byte OP_POP) \<circ> generateExpr es) (stmt_effect b (StmtExpression l es) d)" for d
    by (rule correct_comp [OF assms]) (rule correct_emitByte [where R = "\<lambda>e c c'. \<exists>v. fst c = cell v # fst c' \<and> snd c' = snd c"],
        auto simp: stmt_effect_def expr_effect_def intro!: runs_one step_simple)
  from stmts_correct_line [OF correct_stmts [OF this, of False]] show ?thesis by (simp add: comp_assoc)
qed

lemma stmts_correct_print:
  assumes "correct b (generateExpr es) (expr_effect b es)"
  shows "stmts_correct b False (generateStmt (StmtPrint l es)) (stmt_effect b (StmtPrint l es))"
proof -
  have "correct b (emitByte (op_byte OP_PRINT) \<circ> generateExpr es) (stmt_effect b (StmtPrint l es) d)" for d
    by (rule correct_comp [OF assms correct_print]) (auto simp: stmt_effect_def expr_effect_def)
  from stmts_correct_line [OF correct_stmts [OF this, of False]] show ?thesis by (simp add: comp_assoc)
qed

lemma endScope_loop_news:
  assumes "\<forall>l \<in> set ns. l_depth l > depth_of g \<and> \<not> isCaptured l" "\<forall>l \<in> set ls. l_depth l \<le> depth_of g"
  shows "endScope_loop (ns @ ls) g =
    on_current (\<lambda>c. c\<lparr>locals := rev ls\<rparr>) (fold emitByte (replicate (length ns) (op_byte OP_POP)) g)"
  using assms
proof (induction ns arbitrary: g)
  case Nil
  then show ?case by (cases ls) auto
next
  case (Cons n ns)
  then show ?case using Cons.IH [of "emitByte (op_byte OP_POP) g"] by simp
qed

lemma runs_pops:
  "code_at e k (replicate n (op_byte OP_POP)) \<Longrightarrow> n \<le> length (loc s) \<Longrightarrow>
   runs e (vm_state b k [] s) (vm_state b (k + n) [] (s\<lparr>loc := drop n (loc s)\<rparr>))"
proof (induction n arbitrary: k s)
  case (Suc n)
  obtain l ls where l: "loc s = l # ls" using Suc.prems(2) by (cases "loc s") auto
  have at: "code_at e k [op_byte OP_POP]" "code_at e (Suc k) (replicate n (op_byte OP_POP))"
    using Suc.prems(1) code_at_append [of e k "[op_byte OP_POP]" "replicate n (op_byte OP_POP)"] by auto
  have "runs e (vm_state b (Suc k) [] (s\<lparr>loc := ls\<rparr>)) (vm_state b (Suc k + n) [] (s\<lparr>loc := drop n ls\<rparr>))"
    using Suc.IH [OF at(2), of "s\<lparr>loc := ls\<rparr>"] Suc.prems(2) l by simp
  then show ?case using runs_step [OF step_pop_local [OF at(1) l]] l by simp
qed simp

lemma endScope_scope:
  assumes "in_scope g1 news" "nested g" "depth_of g1 = depth_of g + 1" "locals_of g1 = locals_of g @ news"
  shows "code_of (endScope g1) = code_of g1 @ replicate (length news) (op_byte OP_POP)" "consts_of (endScope g1) = consts_of g1"
    "locals_of (endScope g1) = locals_of g" "depth_of (endScope g1) = depth_of g"
proof -
  let ?c = "on_current (\<lambda>c. c\<lparr>scopeDepth := scopeDepth c - 1\<rparr>) g1"
  have e: "endScope g1 = on_current (\<lambda>c. c\<lparr>locals := locals_of g\<rparr>)
      (fold emitByte (replicate (length news) (op_byte OP_POP)) ?c)"
    using endScope_loop_news [of "rev news" ?c "rev (locals_of g)"] assms
    by (simp add: endScope_def in_scope_def nested_def)
  show "code_of (endScope g1) = code_of g1 @ replicate (length news) (op_byte OP_POP)" "consts_of (endScope g1) = consts_of g1"
    "locals_of (endScope g1) = locals_of g" "depth_of (endScope g1) = depth_of g"
    using assms(3) by (simp_all add: e del: fold_replicate)
qed

lemma length_loc: "matches g s \<Longrightarrow> length (locals_of g) = Suc (length (loc s))"
  unfolding matches_def by (drule arg_cong [where f = length]) simp

lemma stmts_correct_block:
  assumes ss: "stmts_correct b x (generate ss) (stmts_effect b ss)"
  shows "stmts_correct b False (generateStmtBlock (generate ss)) (stmt_effect b (StmtBlock l ss))"
proof (rule stmts_correctI)
  have e: "generateStmtBlock (generate ss) = endScope \<circ> (generate ss \<circ> beginScope)"
    by (simp add: fun_eq_iff generateStmtBlock_def)
  show "safe (generateStmtBlock (generate ss))" unfolding e by (intro safes stmts_correctD(1) [OF ss])
next
  fix g assume g: "sound g" "good (generateStmtBlock (generate ss) g)" "nested g"
  let ?g1 = "beginScope g" and ?G = "generateStmtBlock (generate ss) g"
  let ?g2 = "generate ss ?g1"
  have G: "?G = endScope ?g2" by (simp add: generateStmtBlock_def)
  have s: "sound ?g1" "sound ?g2"
    using safe_sound [OF safe_beginScope g(1)] safe_sound [OF stmts_correctD(1) [OF ss]] by blast+
  have g2: "good ?g2" using safe_good [OF safe_endScope s(2)] g(2) by (simp add: G)
  have "nested ?g1" using g(3) by (auto simp: nested_def)
  then obtain news where n: "realises b ?g1 news ?g2 (stmts_effect b ss (nat (depth_of ?g1)))" "in_scope ?g1 news"
    using stmts_correctD(2) [OF ss s(1) g2] by blast
  from n(1) obtain bs where r: "prefix (consts_of ?g1) (consts_of ?g2)" "locals_of ?g2 = locals_of ?g1 @ news"
    "depth_of ?g2 = depth_of ?g1" "code_of ?g2 = code_of ?g1 @ bs" "does b ?g1 ?g2 bs (stmts_effect b ss (nat (depth_of ?g1)))"
    by (rule realisesE)
  have "in_scope ?g2 news" using n(2) r(3) by (simp add: in_scope_def)
  note v = endScope_scope [OF this g(3)] and d = r(2,3) [unfolded beginScope_views]
  let ?P = "replicate (length news) (op_byte OP_POP)"
  have "realises b g [] ?G (stmt_effect b (StmtBlock l ss) (nat (depth_of g)))"
  proof (rule realisesI [where bs = "bs @ ?P"])
    fix e k temps s temps' s'
    assume at: "code_at e k (bs @ ?P)" and c: "prefix (consts_of ?G) (e_constants e)" and m: "matches g s"
      and "stmt_effect b (StmtBlock l ss) (nat (depth_of g)) e (temps, s) (temps', s')"
    then obtain s1 where x: "temps = []" "temps' = []" "exec e (vm_heap b) (Suc (nat (depth_of g))) ss s s1"
      "s' = s1\<lparr>loc := drop (length (loc s1) - length (loc s)) (loc s1)\<rparr>"
      by (auto simp: stmt_effect_def)
    have "nat (depth_of ?g1) = Suc (nat (depth_of g))" using g(3) by (auto simp: nested_def)
    then have "stmts_effect b ss (nat (depth_of ?g1)) e ([], s) ([], s1)" using x by (simp add: stmts_effect_def)
    from doesD [OF r(5) _ _ _ this] have m1: "matches ?g2 s1" and run: "runs e (vm_state b k [] s) (vm_state b (k + length bs) [] s1)"
      using at c m v(2) d by (auto simp: code_at_append G matches_def)
    have l: "length (loc s1) - length (loc s) = length news" "length news \<le> length (loc s1)"
      using length_loc [OF m1] length_loc [OF m] d(1) by simp_all
    have "map l_name (locals_of g) = take (length (locals_of g)) (map l_name (locals_of ?g2))" using d(1) by simp
    also have "\<dots> = ''this'' # rev (map fst (loc s'))"
      using m1 l x(4) length_loc [OF m] by (simp add: matches_def take_Cons' take_rev drop_map)
    finally have "matches ?G s'" using v(3) d by (simp add: G matches_def)
    then show "matches ?G s' \<and> runs e (vm_state b k temps s) (vm_state b (k + length (bs @ ?P)) temps' s')"
      using runs_trans [OF run runs_pops [of e "k + length bs" "length news" s1 b]] at l x by (simp add: code_at_append add.assoc)
  qed (use r(1,4) v d in \<open>simp_all add: G\<close>)
  then show "\<exists>news. realises b g news ?G (stmt_effect b (StmtBlock l ss) (nat (depth_of g))) \<and> in_scope g news \<and> (\<not> False \<longrightarrow> news = [])"
    by (auto simp: in_scope_def)
qed

subsection \<open>Declarations\<close>

text \<open>The code that makes the cell of a variable.\<close>

definition type_bytes :: "ObjExpr list \<Rightarrow> u8 list" where
  "type_bytes type = (case type of [ExprType t] \<Rightarrow> [op_byte OP_TYPE_LITERAL, type_code t] | _ \<Rightarrow> [op_byte OP_NIL]) @ [op_byte OP_SET_CELL_TYPE]"

lemma generate_type:
  assumes "type = [] \<or> (\<exists>t. type = [ExprType t])"
  shows "emitByte (op_byte OP_SET_CELL_TYPE) (if type \<noteq> [] then generateExpr type g else emitByte (op_byte OP_NIL) g) =
    fold emitByte (type_bytes type) g"
  using assms by (auto simp: type_bytes_def generateExprType_def emitBytes_def)

lemma runs_type:
  assumes "type = [] \<or> (\<exists>t. type = [ExprType t])" "code_at e k (type_bytes type)"
  shows "runs e (vm_state b k temps s) (vm_state b (k + length (type_bytes type)) (default_cell (declared_type type) # temps) s)"
proof (cases "type = []")
  case True
  then have at: "code_at e k [op_byte OP_NIL]" "code_at e (Suc k) [op_byte OP_SET_CELL_TYPE]"
    using assms(2) by (auto simp: type_bytes_def code_at_simps)
  have "type_operand NIL_VAL = Some None" by (simp add: type_operand_def)
  then show ?thesis
    using runs_step [OF step_simple(1) [OF at(1)] runs_one [OF step_set_cell_type [OF at(2), of "cell NIL_VAL" None]]] True
    by (simp add: type_bytes_def declared_type_def)
next
  case False
  then obtain t where t: "type = [ExprType t]" using assms(1) by blast
  let ?t = "newYargTypeFromTypeCode (unat (type_code t))"
  have at: "code_at e k [op_byte OP_TYPE_LITERAL, type_code t]" "code_at e (k + 2) [op_byte OP_SET_CELL_TYPE]"
    using assms(2) by (auto simp: type_bytes_def t code_at_simps)
  have "type_operand (YARGTYPE_VAL ?t) = Some ?t" by (simp add: type_operand_def)
  then show ?thesis
    using runs_step [OF step_type_literal [OF at(1)] runs_one [OF step_set_cell_type [OF at(2), of "cell (YARGTYPE_VAL ?t)" ?t]]]
      type_code_scalar [of t]
    by (simp add: type_bytes_def declared_type_def t)
qed

lemma correct_copied:
  assumes "script_base b" "wf_expr xs"
  shows "correct b (emitByte (op_byte OP_DUPLICATE) \<circ> generateExpr xs)
    (\<lambda>e c c'. \<exists>v w. eval e (vm_heap b) xs (snd c) = Some (v, snd c') \<and> copy_value v = Some w \<and> fst c' = cell w # fst c)"
  by (rule correct_comp [OF correct_exprs(1) [OF assms] correct_copy]) (auto simp: expr_effect_def copy_effect_def)

lemma parseVariable_global:
  "depth_of g = 0 \<Longrightarrow> parseVariable name g = makeConstant (KString name) g"
  by (simp add: parseVariable_def declareVariable_def identifierConstant_def)

text \<open>The code of an initialiser, for a cell that is on the stack.\<close>

definition initialise :: "ObjExpr list \<Rightarrow> generator" where
  "initialise xs = (if xs = [] then id
     else emitByte (op_byte OP_INITIALISE) \<circ> (emitByte (op_byte OP_DUPLICATE) \<circ> generateExpr xs))"

lemma generateVarDeclaration_comp:
  assumes "type = [] \<or> (\<exists>t. type = [ExprType t])"
  shows "generateVarDeclaration name type initialiser g =
    defineVariable (fst (parseVariable name g)) (initialise initialiser (fold emitByte (type_bytes type) (snd (parseVariable name g))))"
  using generate_type [OF assms] by (cases "parseVariable name g") (simp add: generateVarDeclaration_def Let_def initialise_def)

lemma correct_initialise:
  assumes "script_base b" "xs = [] \<or> wf_expr xs"
  shows "correct b (initialise xs)
    (\<lambda>e c c'. \<exists>d d' t. fst c = d # t \<and> fst c' = d' # t \<and>
       (if xs = [] then c' = c
        else \<exists>v w. eval e (vm_heap b) xs (snd c) = Some (v, snd c') \<and> copy_value v = Some w \<and> assign_to d w = Some d'))"
    (is "correct _ _ ?R")
proof (cases "xs = []")
  case True
  then show ?thesis by (auto simp: initialise_def id_def [symmetric] intro!: correctI safes realises_code)
next
  case False
  then have w: "wf_expr xs" using assms(2) by simp
  have i: "correct b (emitByte (op_byte OP_INITIALISE))
      (\<lambda>e c c'. \<exists>w d d' t. fst c = cell w # d # t \<and> fst c' = d' # t \<and> snd c' = snd c \<and> assign_to d w = Some d')"
    by (rule correct_emitByte) (auto intro!: runs_one step_initialise)
  have "correct b (emitByte (op_byte OP_INITIALISE) \<circ> (emitByte (op_byte OP_DUPLICATE) \<circ> generateExpr xs)) ?R"
  proof (rule correct_comp [OF correct_copied [OF assms(1) w] i])
    fix e c c' assume "?R e c c'"
    then obtain d d' t v u where x: "fst c = d # t" "fst c' = d' # t" "eval e (vm_heap b) xs (snd c) = Some (v, snd c')"
      "copy_value v = Some u" "assign_to d u = Some d'" using False by auto
    show "\<exists>m. (\<exists>v w. eval e (vm_heap b) xs (snd c) = Some (v, snd m) \<and> copy_value v = Some w \<and> fst m = cell w # fst c) \<and>
        (\<exists>w d d' t. fst m = cell w # d # t \<and> fst c' = d' # t \<and> snd c' = snd m \<and> assign_to d w = Some d')"
      by (rule exI [of _ "(cell u # fst c, snd c')"]) (use x in auto)
  qed
  then show ?thesis using False by (simp add: initialise_def)
qed

lemma safe_initialise: "script_base b \<Longrightarrow> xs = [] \<or> wf_expr xs \<Longrightarrow> safe (initialise xs)"
  using correct_initialise correctD(1) by blast

lemma safe_generateVarDeclaration:
  assumes "script_base b" "wf_decl name type initialiser"
  shows "safe (generateVarDeclaration name type initialiser)"
    "sound g \<Longrightarrow> good (generateVarDeclaration name type initialiser g) \<Longrightarrow>
       good (initialise initialiser (fold emitByte (type_bytes type) (snd (parseVariable name g))))"
    "sound g \<Longrightarrow> good (generateVarDeclaration name type initialiser g) \<Longrightarrow> good (snd (parseVariable name g))"
proof -
  have i: "safe (initialise initialiser)" using assms safe_initialise by (auto simp: wf_decl_def)
  have G: "generateVarDeclaration name type initialiser g = defineVariable (fst (parseVariable name g))
    (initialise initialiser (fold emitByte (type_bytes type) (snd (parseVariable name g))))" for g
    using assms(2) generateVarDeclaration_comp by (auto simp: wf_decl_def)
  have *: "sound (generateVarDeclaration name type initialiser g)"
    "good (generateVarDeclaration name type initialiser g) \<Longrightarrow>
       good (initialise initialiser (fold emitByte (type_bytes type) (snd (parseVariable name g))))"
    "good (generateVarDeclaration name type initialiser g) \<Longrightarrow> good (snd (parseVariable name g))"
    "good (generateVarDeclaration name type initialiser g) \<Longrightarrow> good g" if g: "sound g" for g
  proof -
    let ?p = "snd (parseVariable name g)"
    have p: "sound ?p" by (rule safe_sound [OF safe_parseVariable g])
    have p': "sound (fold emitByte (type_bytes type) ?p)" using p by simp
    note q = safe_sound [OF i p']
    show "sound (generateVarDeclaration name type initialiser g)" unfolding G by (rule safe_sound [OF safe_defineVariable q])
    assume a: "good (generateVarDeclaration name type initialiser g)"
    show 1: "good (initialise initialiser (fold emitByte (type_bytes type) ?p))"
      using safe_good [OF safe_defineVariable q] a by (simp add: G)
    show 2: "good ?p" using safe_good [OF i p' 1] by simp
    show "good g" by (rule safe_good [OF safe_parseVariable g 2])
  qed
  show "safe (generateVarDeclaration name type initialiser)" by (rule safeI) (rule *; assumption)+
  show "sound g \<Longrightarrow> good (generateVarDeclaration name type initialiser g) \<Longrightarrow>
       good (initialise initialiser (fold emitByte (type_bytes type) (snd (parseVariable name g))))"
    "sound g \<Longrightarrow> good (generateVarDeclaration name type initialiser g) \<Longrightarrow> good (snd (parseVariable name g))"
    using * by blast+
qed

lemma realises_type:
  assumes "type = [] \<or> (\<exists>t. type = [ExprType t])"
  shows "realises b g [] (fold emitByte (type_bytes type) g)
    (\<lambda>e c c'. fst c' = default_cell (declared_type type) # fst c \<and> snd c' = snd c)"
  by (rule realises_code [where bs = "type_bytes type"]) (use runs_type [OF assms] in auto)

lemma realises_define_global:
  assumes m: "makeConstant (KString name) g = (k, p)" "sound g" "good p" and q: "prefix (consts_of p) (consts_of q)"
  shows "realises b q [] (emitBytes (op_byte OP_DEFINE_GLOBAL) k q)
    (\<lambda>e c c'. \<exists>d. fst c = d # fst c' \<and> snd c' = snd c\<lparr>glob := (glob (snd c))(name \<mapsto> d)\<rparr>)"
proof (rule realises_code [where bs = "[op_byte OP_DEFINE_GLOBAL, k]"])
  fix e j temps temps' and s s' :: store
  assume at: "code_at e j [op_byte OP_DEFINE_GLOBAL, k]" and c: "prefix (consts_of q) (e_constants e)"
    and x: "\<exists>d. fst (temps, s) = d # fst (temps', s') \<and> snd (temps', s') = snd (temps, s)\<lparr>glob := (glob (snd (temps, s)))(name \<mapsto> d)\<rparr>"
  have "prefix (consts_of p) (e_constants e)" using q c by (rule prefix_order.trans)
  then have "unat k < length (e_constants e)" "e_constants e ! unat k = KString name"
    using makeConstant_string [OF m(1,3,2)] by (auto simp: prefix_def nth_append)
  then show "map fst (loc s') = map fst (loc s) \<and>
      runs e (vm_state b j temps s) (vm_state b (j + length [op_byte OP_DEFINE_GLOBAL, k]) temps' s')"
    using step_define_global [OF at] x by (auto intro!: runs_one)
qed simp_all

lemma realises_global:
  assumes "script_base b" "wf_decl name type initialiser" "sound g" "depth_of g = 0"
    and G: "good (generateVarDeclaration name type initialiser g)"
  shows "realises b g [] (generateVarDeclaration name type initialiser g)
    (stmt_effect b (StmtVarDeclaration l name type initialiser) 0)"
proof -
  have t: "type = [] \<or> (\<exists>t. type = [ExprType t])" and i: "initialiser = [] \<or> wf_expr initialiser"
    using assms(2) by (auto simp: wf_decl_def)
  obtain k p where m: "makeConstant (KString name) g = (k, p)" by fastforce
  let ?p' = "fold emitByte (type_bytes type) p"
  let ?q = "initialise initialiser ?p'"
  have p: "parseVariable name g = (k, p)" using m parseVariable_global [OF assms(4)] by simp
  note v = makeConstant_views [OF m] and gd = safe_generateVarDeclaration(2,3) [OF assms(1-3) G, unfolded p snd_conv]
  note ri = correctD(2) [OF correct_initialise [OF assms(1) i] _ gd(1)]
  have rq: "realises b ?p' [] ?q (\<lambda>e c c'. \<exists>d d' t. fst c = d # t \<and> fst c' = d' # t \<and>
       (if initialiser = [] then c' = c
        else \<exists>v w. eval e (vm_heap b) initialiser (snd c) = Some (v, snd c') \<and> copy_value v = Some w \<and> assign_to d w = Some d'))"
    using ri gd(2) by (simp add: good_def)
  have c: "prefix (consts_of p) (consts_of ?q)" "depth_of ?q = 0" using rq v(3) assms(4) by (simp_all add: realises_def)
  have e: "generateVarDeclaration name type initialiser g = emitBytes (op_byte OP_DEFINE_GLOBAL) k ?q"
    using generateVarDeclaration_comp [OF t] p c(2) by (simp add: defineVariable_def)
  show ?thesis
    unfolding e
  proof (rule realises_trans0 [OF realises_views [OF v(4,2,3,1)]
        realises_trans0 [OF realises_type [OF t] realises_trans0 [OF rq realises_define_global [OF m assms(3) gd(2) c(1)]]]])
    fix e c c' assume "stmt_effect b (StmtVarDeclaration l name type initialiser) 0 e c c'"
    then have x: "fst c = []" "fst c' = []"
      "declare_global e (vm_heap b) name (declared_type type) initialiser (snd c) = Some (snd c')"
      by (auto simp: stmt_effect_def)
    let ?m = "([default_cell (declared_type type)], snd c)"
    show "\<exists>d. c = d \<and> (\<exists>m. (fst m = default_cell (declared_type type) # fst d \<and> snd m = snd d) \<and>
       (\<exists>n. (\<exists>d d' t. fst m = d # t \<and> fst n = d' # t \<and>
       (if initialiser = [] then n = m
        else \<exists>v w. eval e (vm_heap b) initialiser (snd m) = Some (v, snd n) \<and> copy_value v = Some w \<and> assign_to d w = Some d')) \<and>
        (\<exists>d. fst n = d # fst c' \<and> snd c' = snd n\<lparr>glob := (glob (snd n))(name \<mapsto> d)\<rparr>)))"
    proof (cases "initialiser = []")
      case True
      then show ?thesis using x by (intro exI [of _ c] conjI refl exI [of _ ?m]) (auto simp: declare_global_def)
    next
      case False
      then obtain v s1 w d' where d: "eval e (vm_heap b) initialiser (snd c) = Some (v, s1)" "copy_value v = Some w"
        "assign_to (default_cell (declared_type type)) w = Some d'" "snd c' = s1\<lparr>glob := (glob s1)(name \<mapsto> d')\<rparr>"
        using x(3) by (auto simp: declare_global_def bind_eq_Some_conv)
      then show ?thesis using x False
        by (intro exI [of _ c] conjI refl exI [of _ ?m] exI [of _ "([d'], s1)"]) auto
    qed
  qed (assumption | blast)+
qed

lemma vm_state_local: "vm_state b k [c] s = vm_state b k [] (s\<lparr>loc := (n, c) # loc s\<rparr>)"
  by (simp add: vm_state_def)

lemma parseVariable_local:
  assumes "sound g" "depth_of g > 0" "good (snd (parseVariable name g))"
  shows "snd (parseVariable name g) =
    on_current (\<lambda>c. c\<lparr>locals := locals c @ [\<lparr>l_name = name, l_depth = - 1, isCaptured = False\<rparr>]\<rparr>) g"
proof -
  have d: "depth_of (declareVariable name g) = depth_of g"
    by (simp add: declareVariable_def addLocal_def Let_def)
  then have e: "snd (parseVariable name g) = declareVariable name g"
    using assms(2) by (simp add: parseVariable_def Let_def)
  then show ?thesis
    using assms unfolding e by (auto simp: declareVariable_def addLocal_def Let_def split: if_splits)
qed

text \<open>An initialiser for a cell that is a local variable already.\<close>

lemma runs_initialise_local:
  assumes "script_base b" "wf_expr xs" "sound g" "good (initialise xs g)"
  obtains bs where "prefix (consts_of g) (consts_of (initialise xs g))" "locals_of (initialise xs g) = locals_of g"
    "depth_of (initialise xs g) = depth_of g" "code_of (initialise xs g) = code_of g @ bs"
    "\<And>e k s v s1 w n c ls c'. code_at e k bs \<Longrightarrow> prefix (consts_of (initialise xs g)) (e_constants e) \<Longrightarrow> matches g s \<Longrightarrow>
       eval e (vm_heap b) xs s = Some (v, s1) \<Longrightarrow> copy_value v = Some w \<Longrightarrow> loc s1 = (n, c) # ls \<Longrightarrow> assign_to c w = Some c' \<Longrightarrow>
       matches g s1 \<and> runs e (vm_state b k [] s) (vm_state b (k + length bs) [] (s1\<lparr>loc := (n, c') # ls\<rparr>))"
proof -
  let ?r = "emitByte (op_byte OP_DUPLICATE) (generateExpr xs g)"
  have i: "initialise xs g = emitByte (op_byte OP_INITIALISE) ?r" using assms(2) by (auto simp: initialise_def)
  have gr: "good ?r" using assms(4) by (simp add: i)
  from correctD(2) [OF correct_copied [OF assms(1,2)] assms(3)] gr
  obtain bs where r: "prefix (consts_of g) (consts_of ?r)" "locals_of ?r = locals_of g @ []" "depth_of ?r = depth_of g"
    "code_of ?r = code_of g @ bs" "does b g ?r bs
       (\<lambda>e c c'. \<exists>v w. eval e (vm_heap b) xs (snd c) = Some (v, snd c') \<and> copy_value v = Some w \<and> fst c' = cell w # fst c)"
    by (auto elim: realisesE)
  show ?thesis
  proof (rule that [of "bs @ [op_byte OP_INITIALISE]"])
    fix e k s v s1 w n c ls c'
    assume at: "code_at e k (bs @ [op_byte OP_INITIALISE])" and p: "prefix (consts_of (initialise xs g)) (e_constants e)"
      and m: "matches g s" and x: "eval e (vm_heap b) xs s = Some (v, s1)" "copy_value v = Some w" "loc s1 = (n, c) # ls" "assign_to c w = Some c'"
    have a: "code_at e k bs" "code_at e (k + length bs) [op_byte OP_INITIALISE]" using at by (simp_all add: code_at_append)
    have "prefix (consts_of ?r) (e_constants e)" using p by (simp add: i)
    note d = doesD [OF r(5) a(1) this m, of "[]" "[cell w]" s1]
    show "matches g s1 \<and> runs e (vm_state b k [] s) (vm_state b (k + length (bs @ [op_byte OP_INITIALISE])) [] (s1\<lparr>loc := (n, c') # ls\<rparr>))"
      using d x runs_trans [OF _ runs_one [OF step_initialise_local [OF a(2) x(3), of "cell w" c' b]]] r(2) by (simp add: matches_def)
  qed (use r in \<open>simp_all add: i\<close>)
qed

definition does_local :: "routine \<Rightarrow> gen \<Rightarrow> gen \<Rightarrow> gen \<Rightarrow> u8 list \<Rightarrow> string \<Rightarrow> YargType option \<Rightarrow> ObjExpr list \<Rightarrow> bool" where
  "does_local b g p q bs name t xs \<longleftrightarrow>
     (\<forall>e k s s'. code_at e k bs \<longrightarrow> prefix (consts_of q) (e_constants e) \<longrightarrow> matches g s \<longrightarrow>
        declare_local e (vm_heap b) name t xs s = Some s' \<longrightarrow>
        matches p s' \<and> runs e (vm_state b k [default_cell t] s) (vm_state b (k + length bs) [] s'))"

lemma runs_declare_local:
  assumes "script_base b" "xs = [] \<or> wf_expr xs" "sound p" "good (initialise xs p)" "locals_of p = locals_of g @ [new]" "l_name new = name"
  obtains bs where "prefix (consts_of p) (consts_of (initialise xs p))" "locals_of (initialise xs p) = locals_of p"
    "depth_of (initialise xs p) = depth_of p" "code_of (initialise xs p) = code_of p @ bs"
    "does_local b g p (initialise xs p) bs name t xs"
proof (cases "xs = []")
  case True
  then show ?thesis
    using assms(5,6) by (intro that [of "[]"]) (auto simp: initialise_def declare_local_def matches_def does_local_def vm_state_local [of _ _ _ _ name])
next
  case False
  then have w: "wf_expr xs" using assms(2) by simp
  show ?thesis
  proof (rule runs_initialise_local [OF assms(1) w assms(3,4)])
    fix bs
    assume v: "prefix (consts_of p) (consts_of (initialise xs p))" "locals_of (initialise xs p) = locals_of p"
      "depth_of (initialise xs p) = depth_of p" "code_of (initialise xs p) = code_of p @ bs"
      and r: "\<And>e k s v s1 w n c ls c'. code_at e k bs \<Longrightarrow> prefix (consts_of (initialise xs p)) (e_constants e) \<Longrightarrow> matches p s \<Longrightarrow>
       eval e (vm_heap b) xs s = Some (v, s1) \<Longrightarrow> copy_value v = Some w \<Longrightarrow> loc s1 = (n, c) # ls \<Longrightarrow> assign_to c w = Some c' \<Longrightarrow>
       matches p s1 \<and> runs e (vm_state b k [] s) (vm_state b (k + length bs) [] (s1\<lparr>loc := (n, c') # ls\<rparr>))"
    show ?thesis
    proof (rule that [OF v], unfold does_local_def, intro allI impI)
      fix e k s s'
      assume at: "code_at e k bs" "prefix (consts_of (initialise xs p)) (e_constants e)" "matches g s"
        and d: "declare_local e (vm_heap b) name t xs s = Some s'"
      from d False obtain v s1 w where y: "eval e (vm_heap b) xs (s\<lparr>loc := (name, default_cell t) # loc s\<rparr>) = Some (v, s1)"
        "copy_value v = Some w" "(case loc s1 of [] \<Rightarrow> None
          | (n, c) # ls \<Rightarrow> map_option (\<lambda>c'. s1\<lparr>loc := (n, c') # ls\<rparr>) (assign_to c w)) = Some s'"
        by (auto simp: declare_local_def Let_def bind_eq_Some_conv)
      then obtain n c ls c' where x: "loc s1 = (n, c) # ls" "assign_to c w = Some c'" "s' = s1\<lparr>loc := (n, c') # ls\<rparr>"
        by (cases "loc s1") auto
      have "matches p (s\<lparr>loc := (name, default_cell t) # loc s\<rparr>)" using at(3) assms(5,6) by (simp add: matches_def)
      from r [OF at(1,2) this y(1,2) x(1,2)] show "matches p s' \<and>
          runs e (vm_state b k [default_cell t] s) (vm_state b (k + length bs) [] s')"
        using x(1,3) by (simp add: matches_def vm_state_local [of _ _ _ _ name])
    qed
  qed
qed

lemma realises_local:
  assumes "script_base b" "wf_decl name type initialiser" "sound g" "depth_of g > 0"
    and G: "good (generateVarDeclaration name type initialiser g)"
  shows "realises b g [\<lparr>l_name = name, l_depth = depth_of g, isCaptured = False\<rparr>] (generateVarDeclaration name type initialiser g)
    (stmt_effect b (StmtVarDeclaration l name type initialiser) (nat (depth_of g)))"
proof -
  have t: "type = [] \<or> (\<exists>t. type = [ExprType t])" and i: "initialiser = [] \<or> wf_expr initialiser"
    using assms(2) by (auto simp: wf_decl_def)
  note gd = safe_generateVarDeclaration(2,3) [OF assms(1-3) G]
  define p where "p = snd (parseVariable name g)"
  have pe: "p = on_current (\<lambda>c. c\<lparr>locals := locals c @ [\<lparr>l_name = name, l_depth = - 1, isCaptured = False\<rparr>]\<rparr>) g"
    unfolding p_def by (rule parseVariable_local [OF assms(3,4) gd(2)])
  define p' where "p' = fold emitByte (type_bytes type) p"
  define q where "q = initialise initialiser p'"
  have v: "code_of p' = code_of g @ type_bytes type" "consts_of p' = consts_of g" "depth_of p' = depth_of g"
    "locals_of p' = locals_of g @ [\<lparr>l_name = name, l_depth = - 1, isCaptured = False\<rparr>]" by (simp_all add: p'_def pe)
  have sp: "sound p'" using safe_sound [OF safe_parseVariable assms(3)] by (simp add: p'_def p_def)
  have gq: "good q" using gd(1) by (simp add: q_def p'_def p_def)
  obtain bs where r: "prefix (consts_of p') (consts_of q)" "locals_of q = locals_of p'" "depth_of q = depth_of p'"
    "code_of q = code_of p' @ bs"
    "does_local b g p' q bs name (declared_type type) initialiser"
    unfolding q_def by (rule runs_declare_local [OF assms(1) i sp gq [unfolded q_def] v(4), of name]) simp
  have e: "generateVarDeclaration name type initialiser g = markInitialized q"
    using generateVarDeclaration_comp [OF t] assms(4) r(3) v(3) by (simp add: defineVariable_def q_def p'_def p_def)
  have m: "locals_of (markInitialized q) = locals_of g @ [\<lparr>l_name = name, l_depth = depth_of g, isCaptured = False\<rparr>]"
    "chunk (current (markInitialized q)) = chunk (current q)" "depth_of (markInitialized q) = depth_of g"
    using assms(4) r(2,3) v(3,4) by (simp_all add: markInitialized_def list_update_append)
  show ?thesis
    unfolding e
  proof (rule realisesI [where bs = "type_bytes type @ bs"])
    fix e k temps s temps' s'
    assume at: "code_at e k (type_bytes type @ bs)" and c: "prefix (consts_of (markInitialized q)) (e_constants e)" and ms: "matches g s"
      and "stmt_effect b (StmtVarDeclaration l name type initialiser) (nat (depth_of g)) e (temps, s) (temps', s')"
    then have x: "temps = []" "temps' = []" "declare_local e (vm_heap b) name (declared_type type) initialiser s = Some s'"
      using assms(4) by (auto simp: stmt_effect_def)
    have a: "code_at e k (type_bytes type)" "code_at e (k + length (type_bytes type)) bs" using at by (simp_all add: code_at_append)
    have c': "prefix (consts_of q) (e_constants e)" using c m(2) by simp
    show "matches (markInitialized q) s' \<and> runs e (vm_state b k temps s) (vm_state b (k + length (type_bytes type @ bs)) temps' s')"
      using r(5) [unfolded does_local_def, rule_format, OF a(2) c' ms x(3)] runs_trans [OF runs_type [OF t a(1)]] m(1) v(4) x(1,2)
      by (auto simp: matches_def add.assoc)
  qed (use v r m in simp_all)
qed

end
