(* ===== verification/Compiler_Theorems.thy ===== *)
theory Compiler_Theorems
  imports Compiler_Stmts
begin

section \<open>Correctness of the compiler\<close>

text \<open>
  Branches and loops, and the theorem for scripts: the code that \<open>compile\<close> makes for a script does
  what the script means when the virtual machine runs it.
\<close>

declare op_byte.simps [simp del]

subsection \<open>Declarations, branches and loops\<close>

lemma stmts_correct_declaration:
  assumes "script_base b" "wf_decl name type initialiser"
  shows "stmts_correct b True (generateVarDeclaration name type initialiser)
    (stmt_effect b (StmtVarDeclaration l name type initialiser))"
proof (rule stmts_correctI [OF safe_generateVarDeclaration(1) [OF assms]])
  fix g assume g: "sound g" "good (generateVarDeclaration name type initialiser g)" "nested g"
  show "\<exists>news. realises b g news (generateVarDeclaration name type initialiser g)
      (stmt_effect b (StmtVarDeclaration l name type initialiser) (nat (depth_of g))) \<and> in_scope g news \<and> (\<not> True \<longrightarrow> news = [])"
  proof (cases "depth_of g = 0")
    case True
    then show ?thesis using realises_global [OF assms g(1) True g(2)] by (intro exI [of _ "[]"]) (simp add: in_scope_def)
  next
    case False
    then have "depth_of g > 0" using g(3) by (simp add: nested_def)
    from realises_local [OF assms g(1) this g(2)] show ?thesis by (fastforce simp: in_scope_def)
  qed
qed

lemma generateStmtIf_comp:
  "generateStmtIf test ifStmt elseStmt g =
     (let a = test g; i = ifStmt (emitByte (op_byte OP_POP) (emitByte 0xFF (emitByte 0xFF (emitByte (op_byte OP_JUMP_IF_FALSE) a))));
          p = patchJump (length (code_of a) + 1) (emitByte 0xFF (emitByte 0xFF (emitByte (op_byte OP_JUMP) i)))
      in patchJump (length (code_of i) + 1) (elseStmt (emitByte (op_byte OP_POP) p)))"
  by (simp add: generateStmtIf_def emitJump_comp Let_def)

definition if_effect :: "routine \<Rightarrow> ObjExpr list \<Rightarrow> effect \<Rightarrow> effect \<Rightarrow> effect" where
  "if_effect b test R S e c c' \<longleftrightarrow>
     (\<exists>v s1. eval e (vm_heap b) test (snd c) = Some (v, s1) \<and> (if isFalsey v then S else R) e (fst c, s1) c')"

lemma realises_if:
  fixes g :: gen and test ifStmt elseStmt :: generator
  defines "a \<equiv> test g"
  defines "a1 \<equiv> emitByte (op_byte OP_POP) (emitByte 0xFF (emitByte 0xFF (emitByte (op_byte OP_JUMP_IF_FALSE) a)))"
  defines "i \<equiv> ifStmt a1"
  defines "p \<equiv> patchJump (length (code_of a) + 1) (emitByte 0xFF (emitByte 0xFF (emitByte (op_byte OP_JUMP) i)))"
  defines "p1 \<equiv> emitByte (op_byte OP_POP) p"
  defines "z \<equiv> elseStmt p1"
  assumes ra: "realises b g [] a (expr_effect b xs)" and ri: "realises b a1 [] i R" and rz: "realises b p1 [] z S"
    and jumps: "code_count i + 3 - (length (code_of a) + 1) - 2 \<le> 65535" "code_count z - (length (code_of i) + 1) - 2 \<le> 65535"
  shows "realises b g [] (generateStmtIf test ifStmt elseStmt g) (if_effect b xs R S)"
proof -
  obtain tb where ta: "prefix (consts_of g) (consts_of a)" "locals_of a = locals_of g @ []" "depth_of a = depth_of g"
    "code_of a = code_of g @ tb" "does b g a tb (expr_effect b xs)" using ra by (rule realisesE)
  obtain ib where ti: "prefix (consts_of a1) (consts_of i)" "locals_of i = locals_of a1 @ []" "depth_of i = depth_of a1"
    "code_of i = code_of a1 @ ib" "does b a1 i ib R" using ri by (rule realisesE)
  obtain eb where te: "prefix (consts_of p1) (consts_of z)" "locals_of z = locals_of p1 @ []" "depth_of z = depth_of p1"
    "code_of z = code_of p1 @ eb" "does b p1 z eb S" using rz by (rule realisesE)
  let ?G = "generateStmtIf test ifStmt elseStmt g"
  let ?j1 = "4 + length ib" and ?j2 = "length eb + 1"
  define h1 l1 h2 l2 :: u8 where hl: "h1 = of_nat (?j1 div 256)" "l1 = of_nat (?j1 mod 256)"
    "h2 = of_nat (?j2 div 256)" "l2 = of_nat (?j2 mod 256)"
  let ?J = "[op_byte OP_JUMP_IF_FALSE, h1, l1]" and ?E = "[op_byte OP_JUMP, h2, l2]"
  have G: "?G = patchJump (length (code_of i) + 1) z"
    by (simp add: generateStmtIf_comp Let_def z_def p1_def p_def i_def a1_def a_def)
  have ci: "code_of i = code_of a @ [op_byte OP_JUMP_IF_FALSE, 0xFF, 0xFF, op_byte OP_POP] @ ib" using ti(4) by (simp add: a1_def)
  have cp: "code_of p = code_of a @ ?J @ [op_byte OP_POP] @ ib @ [op_byte OP_JUMP, 0xFF, 0xFF]"
    using code_patchJump [of "emitByte 0xFF (emitByte 0xFF (emitByte (op_byte OP_JUMP) i))" "code_of a @ [op_byte OP_JUMP_IF_FALSE]"
        "0xFF" "0xFF" "op_byte OP_POP # ib @ [op_byte OP_JUMP, 0xFF, 0xFF]" "length (code_of a) + 1"]
    by (simp add: p_def ci hl)
  have code: "code_of ?G = code_of g @ tb @ ?J @ [op_byte OP_POP] @ ib @ ?E @ [op_byte OP_POP] @ eb"
    using code_patchJump [of z "code_of a @ ?J @ [op_byte OP_POP] @ ib @ [op_byte OP_JUMP]" "0xFF" "0xFF" "op_byte OP_POP # eb"
        "length (code_of i) + 1"] te(4)
    by (simp add: G p1_def cp ci ta(4) hl)
  have "?j1 \<le> 65535" "?j2 \<le> 65535" using jumps te(4) by (simp_all add: code_count_def ci p1_def cp)
  from this [THEN jump_bytes] have j: "256 * unat h1 + unat l1 = ?j1" "256 * unat h2 + unat l2 = ?j2" by (simp_all only: hl)
  have cs: "prefix (consts_of a) (consts_of i)" "prefix (consts_of i) (consts_of z)" "consts_of ?G = consts_of z"
    "locals_of ?G = locals_of g" "depth_of ?G = depth_of g" "locals_of a = locals_of g" "locals_of i = locals_of g"
    "locals_of z = locals_of g"
    using ta ti te by (simp_all add: G a1_def p1_def p_def)
  have m: "matches a1 = matches g" "matches a = matches g" "matches i = matches g" "matches p1 = matches g" "matches z = matches g" "matches ?G = matches g"
    using cs(4,6,7,8) by (simp_all add: fun_eq_iff matches_def a1_def p1_def p_def)
  show ?thesis
  proof (rule realisesI [OF _ _ cs(5) code])
    fix e k temps s temps' s'
    assume at: "code_at e k (tb @ ?J @ [op_byte OP_POP] @ ib @ ?E @ [op_byte OP_POP] @ eb)"
      and c: "prefix (consts_of ?G) (e_constants e)" and ms: "matches g s" and "if_effect b xs R S e (temps, s) (temps', s')"
    then obtain v s1 where x: "eval e (vm_heap b) xs s = Some (v, s1)" "if isFalsey v then S e (temps, s1) (temps', s') else R e (temps, s1) (temps', s')"
      by (auto simp: if_effect_def split: if_splits)
    let ?k1 = "k + length tb"
    let ?k2 = "?k1 + 4 + length ib"
    have a: "code_at e k tb" "code_at e ?k1 ?J" "code_at e (?k1 + 3) [op_byte OP_POP]" "code_at e (?k1 + 4) ib"
      "code_at e ?k2 ?E" "code_at e (?k2 + 3) [op_byte OP_POP]" "code_at e (?k2 + 4) eb"
      using at unfolding code_at_append by (simp_all add: positions)
    have c': "prefix (consts_of z) (e_constants e)" "prefix (consts_of i) (e_constants e)" "prefix (consts_of a) (e_constants e)"
      using c cs(1,2,3) by (auto intro: prefix_order.trans)
    have t: "expr_effect b xs e (temps, s) (cell v # temps, s1)" using x(1) by (simp add: expr_effect_def)
    note d1 = doesD [OF ta(5) a(1) c'(3) ms t]
    note f = step_jump_if_false [OF a(2), of b "cell v" temps s1, unfolded j(1)]
    have fin: "k + length (tb @ ?J @ [op_byte OP_POP] @ ib @ ?E @ [op_byte OP_POP] @ eb) = ?k2 + 4 + length eb" by simp
    show "matches ?G s' \<and> runs e (vm_state b k temps s)
      (vm_state b (k + length (tb @ ?J @ [op_byte OP_POP] @ ib @ ?E @ [op_byte OP_POP] @ eb)) temps' s')"
      unfolding fin
    proof (cases "isFalsey v")
      case True
      have "runs e (vm_state b ?k1 (cell v # temps) s1) (vm_state b (?k2 + 3) (cell v # temps) s1)"
        using f True by (simp add: runs_one positions add.commute add.left_commute)
      also have "runs e (vm_state b (?k2 + 3) (cell v # temps) s1) (vm_state b (?k2 + 4) temps s1)"
        using step_simple(4) [OF a(6), of b "cell v" temps s1] by (simp add: runs_one positions)
      finally have 1: "runs e (vm_state b k temps s) (vm_state b (?k2 + 4) temps s1)" by (rule runs_trans [OF d1(2)])
      note d2 = doesD [OF te(5) a(7) c'(1), of s1 temps temps' s']
      show "matches ?G s' \<and> runs e (vm_state b k temps s) (vm_state b (?k2 + 4 + length eb) temps' s')"
        using runs_trans [OF 1 d2(2)] d2(1) d1(1) x(2) True m by simp
    next
      case False
      have "runs e (vm_state b ?k1 (cell v # temps) s1) (vm_state b (?k1 + 3) (cell v # temps) s1)"
        using f False by (simp add: runs_one)
      also have "runs e (vm_state b (?k1 + 3) (cell v # temps) s1) (vm_state b (?k1 + 4) temps s1)"
        using step_simple(4) [OF a(3), of b "cell v" temps s1] by (simp add: runs_one positions)
      finally have 1: "runs e (vm_state b k temps s) (vm_state b (?k1 + 4) temps s1)" by (rule runs_trans [OF d1(2)])
      note d2 = doesD [OF ti(5) a(4) c'(2), of s1 temps temps' s']
      have 2: "runs e (vm_state b ?k2 temps' s') (vm_state b (?k2 + 4 + length eb) temps' s')"
        using step_jump [OF a(5), of b temps' s', unfolded j(2)] by (simp add: runs_one positions)
      show "matches ?G s' \<and> runs e (vm_state b k temps s) (vm_state b (?k2 + 4 + length eb) temps' s')"
        using runs_trans [OF 1 runs_trans [OF d2(2) 2]] d2(1) d1(1) x(2) False m by simp
    qed
  qed (use ta(1) cs in \<open>auto intro: prefix_order.trans\<close>)
qed

lemma stmts_correct0:
  "safe G \<Longrightarrow> (\<And>g. sound g \<Longrightarrow> good (G g) \<Longrightarrow> nested g \<Longrightarrow> realises b g [] (G g) (R (nat (depth_of g)))) \<Longrightarrow>
   stmts_correct b declares G R"
  by (rule stmts_correctI) (auto simp: in_scope_def intro!: exI [of _ "[]"])

lemma stmts_correct_if:
  assumes test: "correct b test (expr_effect b xs)" and I: "stmts_correct b False ifStmt R" and E: "stmts_correct b False elseStmt S"
  shows "stmts_correct b False (generateStmtIf test ifStmt elseStmt) (\<lambda>d. if_effect b xs (R d) (S d))"
proof -
  have *: "sound (generateStmtIf test ifStmt elseStmt g)" (is "sound ?G")
    "good (generateStmtIf test ifStmt elseStmt g) \<Longrightarrow> good g"
    "good (generateStmtIf test ifStmt elseStmt g) \<Longrightarrow> nested g \<Longrightarrow>
       realises b g [] (generateStmtIf test ifStmt elseStmt g) (if_effect b xs (R (nat (depth_of g))) (S (nat (depth_of g))))"
    if g: "sound g" for g
  proof -
    define a where "a = test g"
    define a1 where "a1 = emitByte (op_byte OP_POP) (emitByte 0xFF (emitByte 0xFF (emitByte (op_byte OP_JUMP_IF_FALSE) a)))"
    define i where "i = ifStmt a1"
    define i1 where "i1 = emitByte 0xFF (emitByte 0xFF (emitByte (op_byte OP_JUMP) i))"
    define p1 where "p1 = emitByte (op_byte OP_POP) (patchJump (length (code_of a) + 1) i1)"
    define z where "z = elseStmt p1"
    have G: "?G = patchJump (length (code_of i) + 1) z"
      by (simp add: generateStmtIf_comp Let_def z_def p1_def i1_def i_def a1_def a_def)
    have s: "sound a" "sound a1" unfolding a1_def a_def using safe_sound [OF correctD(1) [OF test] g] by simp_all
    have si: "sound i" "sound i1" unfolding i1_def i_def using safe_sound [OF stmts_correctD(1) [OF I] s(2)] by simp_all
    have sp: "sound p1" unfolding p1_def using safe_sound [OF safe_patchJump si(2)] by simp
    have sz: "sound z" unfolding z_def by (rule safe_sound [OF stmts_correctD(1) [OF E] sp])
    show "sound ?G" unfolding G by (rule safe_sound [OF safe_patchJump sz])
    assume "good ?G"
    then have z: "good z" "code_count z - (length (code_of i) + 1) - 2 \<le> 65535" using good_patchJump [OF sz] by (simp_all add: G)
    have p1: "good p1" using safe_good [OF stmts_correctD(1) [OF E] sp] z(1) by (simp add: z_def)
    then have i1: "good i1" "code_count i1 - (length (code_of a) + 1) - 2 \<le> 65535" using good_patchJump [OF si(2)] by (simp_all add: p1_def)
    then have i: "good i" "code_count i + 3 - (length (code_of a) + 1) - 2 \<le> 65535" by (simp_all add: i1_def code_count_def)
    have a1: "good a1" using safe_good [OF stmts_correctD(1) [OF I] s(2)] i(1) by (simp add: i_def)
    then have a: "good a" by (simp add: a1_def)
    show "good g" using safe_good [OF correctD(1) [OF test] g] a by (simp add: a_def)
    assume n: "nested g"
    have ra: "realises b g [] a (expr_effect b xs)" unfolding a_def by (rule correctD(2) [OF test g a [unfolded a_def]])
    then have va: "locals_of a = locals_of g" "depth_of a = depth_of g" by (simp_all add: realises_def)
    then have na: "nested a1" "depth_of a1 = depth_of g" using n by (simp_all add: a1_def nested_def)
    have ri: "realises b a1 [] i (R (nat (depth_of g)))"
      using stmts_correctD(2) [OF I s(2) i(1) [unfolded i_def] na(1)] na(2) unfolding i_def by auto
    then have np: "nested p1" "depth_of p1 = depth_of g" using na by (simp_all add: realises_def p1_def i1_def nested_def)
    have rz: "realises b p1 [] z (S (nat (depth_of g)))"
      using stmts_correctD(2) [OF E sp z(1) [unfolded z_def] np(1)] np(2) unfolding z_def by auto
    show "realises b g [] ?G (if_effect b xs (R (nat (depth_of g))) (S (nat (depth_of g))))"
      using realises_if [of b g test xs ifStmt] ra ri rz i(2) z(2) unfolding a_def a1_def i_def i1_def p1_def z_def by simp
  qed
  show ?thesis by (rule stmts_correct0 [OF safeI]) (blast intro: *)+
qed

inductive while_effect :: "routine \<Rightarrow> ObjExpr list \<Rightarrow> effect \<Rightarrow> effect" for b test R e where
  while_exit: "eval e (vm_heap b) test s = Some (v, s1) \<Longrightarrow> isFalsey v \<Longrightarrow> while_effect b test R e (t, s) (t, s1)"
| while_again: "eval e (vm_heap b) test s = Some (v, s1) \<Longrightarrow> \<not> isFalsey v \<Longrightarrow> R e (t, s1) (t, s2) \<Longrightarrow>
    while_effect b test R e (t, s2) c \<Longrightarrow> while_effect b test R e (t, s) c"

lemma emitLoop_comp:
  "emitLoop start g =
     (let offset = length (code_of g) + 1 - start + 2; g1 = emitByte (op_byte OP_LOOP) g
      in emitByte (of_nat (offset mod 256)) (emitByte (of_nat (offset div 256))
           (if offset > 65535 then compile_error ''Loop body too large.'' g1 else g1)))"
  by (simp add: emitLoop_def Let_def code_count_def)

lemma safe_emitLoop [safes]: "safe (emitLoop start)"
  by (rule safeI) (simp_all add: emitLoop_comp Let_def compile_error_def safe_sound [OF safe_errorAt] split: if_splits)

lemma emitLoop_views [simp]:
  "consts_of (emitLoop start g) = consts_of g" "locals_of (emitLoop start g) = locals_of g" "depth_of (emitLoop start g) = depth_of g"
  "code_of (emitLoop start g) = code_of g @ [op_byte OP_LOOP, of_nat ((length (code_of g) + 1 - start + 2) div 256),
     of_nat ((length (code_of g) + 1 - start + 2) mod 256)]"
  by (simp_all add: emitLoop_comp Let_def compile_error_def)

lemma good_emitLoop: "sound g \<Longrightarrow> good (emitLoop start g) \<longleftrightarrow> good g \<and> length (code_of g) + 1 - start + 2 \<le> 65535"
  by (simp add: emitLoop_comp Let_def compile_error_def)

lemma realises_while:
  fixes g :: gen and test body :: generator
  defines "a \<equiv> test g"
  defines "a1 \<equiv> emitByte (op_byte OP_POP) (emitByte 0xFF (emitByte 0xFF (emitByte (op_byte OP_JUMP_IF_FALSE) a)))"
  defines "i \<equiv> body a1"
  defines "w \<equiv> emitLoop (length (code_of g)) i"
  assumes ra: "realises b g [] a (expr_effect b xs)" and ri: "realises b a1 [] i R"
    and jumps: "length (code_of i) + 1 - length (code_of g) + 2 \<le> 65535" "code_count w - (length (code_of a) + 1) - 2 \<le> 65535"
  shows "realises b g [] (generateStmtWhile test body g) (while_effect b xs R)"
proof -
  obtain tb where ta: "prefix (consts_of g) (consts_of a)" "locals_of a = locals_of g @ []" "depth_of a = depth_of g"
    "code_of a = code_of g @ tb" "does b g a tb (expr_effect b xs)" using ra by (rule realisesE)
  obtain ib where ti: "prefix (consts_of a1) (consts_of i)" "locals_of i = locals_of a1 @ []" "depth_of i = depth_of a1"
    "code_of i = code_of a1 @ ib" "does b a1 i ib R" using ri by (rule realisesE)
  let ?G = "generateStmtWhile test body g"
  let ?j1 = "4 + length ib" and ?j2 = "length tb + length ib + 7"
  define h1 l1 h2 l2 :: u8 where hl: "h1 = of_nat (?j1 div 256)" "l1 = of_nat (?j1 mod 256)"
    "h2 = of_nat (?j2 div 256)" "l2 = of_nat (?j2 mod 256)"
  let ?J = "[op_byte OP_JUMP_IF_FALSE, h1, l1]" and ?L = "[op_byte OP_LOOP, h2, l2]"
  have G: "?G = emitByte (op_byte OP_POP) (patchJump (length (code_of a) + 1) w)"
    by (simp add: generateStmtWhile_def emitJump_comp Let_def code_count_def w_def i_def a1_def a_def)
  have ci: "code_of i = code_of a @ [op_byte OP_JUMP_IF_FALSE, 0xFF, 0xFF, op_byte OP_POP] @ ib" using ti(4) by (simp add: a1_def)
  have o: "length (code_of i) + 1 - length (code_of g) + 2 = ?j2" by (simp add: ci ta(4))
  have cw: "code_of w = code_of a @ [op_byte OP_JUMP_IF_FALSE, 0xFF, 0xFF, op_byte OP_POP] @ ib @ ?L"
    unfolding w_def emitLoop_views o hl by (simp add: ci)
  have code: "code_of ?G = code_of g @ tb @ ?J @ [op_byte OP_POP] @ ib @ ?L @ [op_byte OP_POP]"
    using code_patchJump [of w "code_of a @ [op_byte OP_JUMP_IF_FALSE]" "0xFF" "0xFF" "op_byte OP_POP # ib @ ?L" "length (code_of a) + 1"]
    by (simp add: G cw ta(4) hl(1,2))
  have "?j1 \<le> 65535" "?j2 \<le> 65535" using jumps o by (simp_all add: code_count_def cw)
  from this [THEN jump_bytes] have j: "256 * unat h1 + unat l1 = ?j1" "256 * unat h2 + unat l2 = ?j2" by (simp_all only: hl)
  have cs: "prefix (consts_of a) (consts_of i)" "consts_of ?G = consts_of i" "locals_of ?G = locals_of g" "depth_of ?G = depth_of g"
    "locals_of a = locals_of g" "locals_of i = locals_of g"
    using ta ti by (simp_all add: G a1_def w_def)
  have m: "matches a1 = matches g" "matches a = matches g" "matches i = matches g" "matches ?G = matches g"
    using cs(3,5,6) by (simp_all add: fun_eq_iff matches_def a1_def)
  show ?thesis
  proof (rule realisesI [OF _ _ cs(4) code])
    fix e k temps s temps' s'
    assume at: "code_at e k (tb @ ?J @ [op_byte OP_POP] @ ib @ ?L @ [op_byte OP_POP])"
      and c: "prefix (consts_of ?G) (e_constants e)" and ms: "matches g s" and x: "while_effect b xs R e (temps, s) (temps', s')"
    let ?k1 = "k + length tb"
    let ?k2 = "?k1 + 4 + length ib"
    have a: "code_at e k tb" "code_at e ?k1 ?J" "code_at e (?k1 + 3) [op_byte OP_POP]" "code_at e (?k1 + 4) ib"
      "code_at e ?k2 ?L" "code_at e (?k2 + 3) [op_byte OP_POP]"
      using at unfolding code_at_append by (simp_all add: positions)
    have c': "prefix (consts_of i) (e_constants e)" "prefix (consts_of a) (e_constants e)"
      using c cs(1,2) by (auto intro: prefix_order.trans)
    have fin: "k + length (tb @ ?J @ [op_byte OP_POP] @ ib @ ?L @ [op_byte OP_POP]) = ?k2 + 4" by simp
    have test: "matches g s1" "runs e (vm_state b k t s) (vm_state b (if isFalsey v then ?k2 + 3 else ?k1 + 3) (cell v # t) s1)"
      if tx: "eval e (vm_heap b) xs s = Some (v, s1)" "matches g s" for s v s1 t
    proof -
      have "expr_effect b xs e (t, s) (cell v # t, s1)" using tx(1) by (simp add: expr_effect_def)
      note d = doesD [OF ta(5) a(1) c'(2) tx(2) this]
      show "matches g s1" using d(1) m by simp
      have "runs e (vm_state b ?k1 (cell v # t) s1) (vm_state b (if isFalsey v then ?k2 + 3 else ?k1 + 3) (cell v # t) s1)"
        using step_jump_if_false [OF a(2), of b "cell v" t s1, unfolded j(1)]
        by (simp add: runs_one positions add.commute add.left_commute split: if_splits)
      then show "runs e (vm_state b k t s) (vm_state b (if isFalsey v then ?k2 + 3 else ?k1 + 3) (cell v # t) s1)"
        by (rule runs_trans [OF d(2)])
    qed
    from x have "matches g s \<longrightarrow> matches g s' \<and> runs e (vm_state b k temps s) (vm_state b (?k2 + 4) temps' s')"
    proof (induction "(temps, s)" "(temps', s')" arbitrary: temps s rule: while_effect.induct)
      case (while_exit s v)
      show ?case
        using runs_trans [OF test(2) [OF while_exit(1)] runs_one, of temps'] test(1) [OF while_exit(1)] while_exit(2)
          step_simple(4) [OF a(6), of b "cell v" temps' s'] by (simp add: positions)
    next
      case (while_again s v s1 t s2)
      show ?case
      proof
        assume ms: "matches g s"
        have body: "matches g s2" "runs e (vm_state b (?k1 + 4) t s1) (vm_state b ?k2 t s2)"
          using doesD [OF ti(5) a(4) c'(1), of s1 t t s2] while_again(3) test(1) [OF while_again(1) ms] m by simp_all
        have "runs e (vm_state b k t s) (vm_state b (?k1 + 3) (cell v # t) s1)"
          using test(2) [OF while_again(1) ms] while_again(2) by simp
        also have "runs e (vm_state b (?k1 + 3) (cell v # t) s1) (vm_state b (?k1 + 4) t s1)"
          using step_simple(4) [OF a(3), of b "cell v" t s1] by (simp add: runs_one positions)
        also have "runs e (vm_state b (?k1 + 4) t s1) (vm_state b ?k2 t s2)" using body(2) .
        also have "runs e (vm_state b ?k2 t s2) (vm_state b k t s2)"
          using step_loop [OF a(5), of b t s2, unfolded j(2)] by (simp add: runs_one)
        finally show "matches g s' \<and> runs e (vm_state b k t s) (vm_state b (?k2 + 4) temps' s')"
          using while_again(5) body(1) runs_trans by blast
      qed
    qed
    then show "matches ?G s' \<and> runs e (vm_state b k temps s)
      (vm_state b (k + length (tb @ ?J @ [op_byte OP_POP] @ ib @ ?L @ [op_byte OP_POP])) temps' s')"
      unfolding fin using ms by (simp add: m)
  qed (use ta(1) cs in \<open>auto intro: prefix_order.trans\<close>)
qed

lemma stmts_correct_while:
  assumes test: "correct b test (expr_effect b xs)" and B: "stmts_correct b False body R"
  shows "stmts_correct b False (generateStmtWhile test body) (\<lambda>d. while_effect b xs (R d))"
proof -
  have *: "sound (generateStmtWhile test body g)" (is "sound ?G")
    "good (generateStmtWhile test body g) \<Longrightarrow> good g"
    "good (generateStmtWhile test body g) \<Longrightarrow> nested g \<Longrightarrow>
       realises b g [] (generateStmtWhile test body g) (while_effect b xs (R (nat (depth_of g))))"
    if g: "sound g" for g
  proof -
    define a where "a = test g"
    define a1 where "a1 = emitByte (op_byte OP_POP) (emitByte 0xFF (emitByte 0xFF (emitByte (op_byte OP_JUMP_IF_FALSE) a)))"
    define i where "i = body a1"
    define w where "w = emitLoop (length (code_of g)) i"
    have G: "?G = emitByte (op_byte OP_POP) (patchJump (length (code_of a) + 1) w)"
      by (simp add: generateStmtWhile_def emitJump_comp Let_def code_count_def w_def i_def a1_def a_def)
    have s: "sound a" "sound a1" unfolding a1_def a_def using safe_sound [OF correctD(1) [OF test] g] by simp_all
    have si: "sound i" unfolding i_def using safe_sound [OF stmts_correctD(1) [OF B] s(2)] by simp_all
    have sw: "sound w" unfolding w_def by (rule safe_sound [OF safe_emitLoop si])
    show "sound ?G" unfolding G using safe_sound [OF safe_patchJump sw] by simp
    assume "good ?G"
    then have w: "good w" "code_count w - (length (code_of a) + 1) - 2 \<le> 65535" using good_patchJump [OF sw] by (simp_all add: G)
    then have i: "good i" "length (code_of i) + 1 - length (code_of g) + 2 \<le> 65535" using good_emitLoop [OF si] by (simp_all add: w_def)
    have a1: "good a1" using safe_good [OF stmts_correctD(1) [OF B] s(2)] i(1) by (simp add: i_def)
    then have a: "good a" by (simp add: a1_def)
    show "good g" using safe_good [OF correctD(1) [OF test] g] a by (simp add: a_def)
    assume n: "nested g"
    have ra: "realises b g [] a (expr_effect b xs)" unfolding a_def by (rule correctD(2) [OF test g a [unfolded a_def]])
    then have va: "locals_of a = locals_of g" "depth_of a = depth_of g" by (simp_all add: realises_def)
    then have na: "nested a1" "depth_of a1 = depth_of g" using n by (simp_all add: a1_def nested_def)
    have ri: "realises b a1 [] i (R (nat (depth_of g)))"
      using stmts_correctD(2) [OF B s(2) i(1) [unfolded i_def] na(1)] na(2) unfolding i_def by auto
    show "realises b g [] ?G (while_effect b xs (R (nat (depth_of g))))"
      using realises_while [of b g test xs body] ra ri i(2) w(2) unfolding a_def a1_def i_def w_def by blast
  qed
  show ?thesis by (rule stmts_correct0 [OF safeI]) (blast intro: *)+
qed

lemma while_effect_exec:
  "exec e (vm_heap b) d ss s s' \<Longrightarrow> True"
  "exec_stmt e (vm_heap b) d x s s' \<Longrightarrow> x = StmtWhile l test body \<Longrightarrow>
     while_effect b test (stmts_effect b body d) e ([], s) ([], s')"
proof (induction rule: exec_exec_stmt.inducts)
  case (exec_WhileFalse test s v s1 d l body)
  then show ?case by (auto intro: while_exit)
next
  case (exec_WhileTrue test s v s1 d body s2 l s3)
  then show ?case by (auto simp: stmts_effect_def intro: while_again)
qed simp_all

subsection \<open>Scripts\<close>

lemma stmts_correct_weaken:
  assumes "stmts_correct b x G R" "\<And>d e c c'. T d e c c' \<Longrightarrow> R d e c c'"
  shows "stmts_correct b x G T"
proof (rule stmts_correctI [OF stmts_correctD(1) [OF assms(1)]])
  fix g assume "sound g" "good (G g)" "nested g"
  from stmts_correctD(2) [OF assms(1) this] obtain news where n: "realises b g news (G g) (R (nat (depth_of g)))"
    "in_scope g news" "\<not> x \<longrightarrow> news = []" by blast
  have "realises b g news (G g) (T (nat (depth_of g)))" by (rule realises_weaken [OF n(1) assms(2)])
  then show "\<exists>news. realises b g news (G g) (T (nat (depth_of g))) \<and> in_scope g news \<and> (\<not> x \<longrightarrow> news = [])" using n(2,3) by blast
qed

lemma stmts_correct_declares: "stmts_correct b False G R \<Longrightarrow> stmts_correct b x G R"
  unfolding stmts_correct_def by blast

lemma stmts_correct_generate:
  assumes "script_base b"
  shows "wf_stmts ss \<Longrightarrow> stmts_correct b (\<not> no_declaration ss) (generate ss) (stmts_effect b ss)"
    "wf_stmt x \<Longrightarrow> stmts_correct b (is_declaration x) (generateStmt x) (stmt_effect b x)"
proof (induction ss and x rule: wf_stmts_wf_stmt.induct)
  case 1
  have "correct b id (stmts_effect b [] d)" for d
    by (rule correctI [OF safe_id(1)]) (auto intro!: realises_code simp: stmts_effect_def)
  from correct_stmts [OF this] show ?case by (simp add: id_def)
next
  case (2 x xs)
  have "stmts_correct b (is_declaration x \<or> \<not> no_declaration xs) (generate xs \<circ> generateStmt x) (stmts_effect b (x # xs))"
    by (rule stmts_correct_comp) (use 2 in \<open>auto simp: stmts_effect_def stmt_effect_def\<close>)
  then show ?case by (simp add: comp_def)
next
  case (3 l es)
  then show ?case using stmts_correct_expression [OF correct_exprs(1) [OF assms]] by (simp add: comp_def)
next
  case (4 l es)
  then show ?case using stmts_correct_print [OF correct_exprs(1) [OF assms]] by (simp add: comp_def)
next
  case (5 l name type initialiser)
  then show ?case using stmts_correct_line [OF stmts_correct_declaration [OF assms]] by (simp add: comp_def)
next
  case (6 l ss)
  then show ?case using stmts_correct_line [OF stmts_correct_block] by (simp add: comp_def)
next
  case (7 l test ifStmt elseStmt)
  then have p: "stmts_correct b False (generate ifStmt) (stmts_effect b ifStmt)"
    "stmts_correct b False (generate elseStmt) (stmts_effect b elseStmt)" "wf_expr test" by simp_all
  have "stmts_correct b False (generateStmtIf (generateExpr test) (generate ifStmt) (generate elseStmt)) (stmt_effect b (StmtIf l test ifStmt elseStmt))"
    by (rule stmts_correct_weaken [OF stmts_correct_if [OF correct_exprs(1) [OF assms p(3)] p(1,2)]])
      (auto simp: stmt_effect_def stmts_effect_def if_effect_def split: if_splits)
  from stmts_correct_line [OF this] show ?case by (simp add: comp_def)
next
  case (8 l test body)
  then have p: "stmts_correct b False (generate body) (stmts_effect b body)" "wf_expr test" by simp_all
  have "stmts_correct b False (generateStmtWhile (generateExpr test) (generate body)) (stmt_effect b (StmtWhile l test body))"
    by (rule stmts_correct_weaken [OF stmts_correct_while [OF correct_exprs(1) [OF assms p(2)] p(1)]])
      (auto simp: stmt_effect_def dest: while_effect_exec(2) [OF _ refl])
  from stmts_correct_line [OF this] show ?case by (simp add: comp_def)
qed simp_all

text \<open>What \<open>compile\<close> returns is the code of the statements, with the instructions that end the script.\<close>

definition start_gen :: gen where
  "start_gen = initCompiler TYPE_SCRIPT None \<lparr>compilers = [], classes = [], aborted = False\<rparr>"

lemma start_gen: "good start_gen" "nested start_gen" "code_of start_gen = []" "depth_of start_gen = 0" "map l_name (locals_of start_gen) = [''this'']"
  by (simp_all add: start_gen_def initCompiler_def good_def sound_def nested_def current_def initChunk_def)

lemma compile_code:
  assumes "compile ss = Some (Inr f)" "sound (generate ss start_gen)"
  shows "good (generate ss start_gen)" "fn_code f = code_of (generate ss start_gen) @ [op_byte OP_NIL, op_byte OP_RETURN]"
    "fn_constants f = consts_of (generate ss start_gen)"
  using assms
  by (auto simp: compile_def start_gen_def [symmetric] Let_def good_def sound_def endCompiler_def emitReturn_def
      split: if_splits prod.splits)

lemma compiled_runs:
  assumes wf: "wf_stmts ss" and f: "compile ss = Some (Inr f)"
    and e: "e_code e = fn_code f" "e_constants e = fn_constants f" and b: "script_base b"
    and x: "exec e (vm_heap b) 0 ss s s'" "loc s = []"
  shows "\<exists>k. runs e (vm_state b 0 [] s) (vm_state b k [] s') \<and> code_at e k [op_byte OP_NIL, op_byte OP_RETURN]"
proof -
  note sc = stmts_correct_generate(1) [OF b wf]
  note c = compile_code [OF f safe_sound [OF stmts_correctD(1) [OF sc] good_sound [OF start_gen(1)]]]
  obtain news where "realises b start_gen news (generate ss start_gen) (stmts_effect b ss (nat (depth_of start_gen)))"
    using stmts_correctD(2) [OF sc good_sound [OF start_gen(1)] c(1) start_gen(2)] by blast
  then obtain bs where r: "code_of (generate ss start_gen) = code_of start_gen @ bs"
    "does b start_gen (generate ss start_gen) bs (stmts_effect b ss (nat (depth_of start_gen)))" by (rule realisesE)
  have code: "e_code e = [] @ bs @ [op_byte OP_NIL, op_byte OP_RETURN]" using e(1) c(2) r(1) start_gen(3) by simp
  then have at: "code_at e 0 bs" "code_at e (length bs) [op_byte OP_NIL, op_byte OP_RETURN]"
    using code_at_append [of e 0 bs "[op_byte OP_NIL, op_byte OP_RETURN]"] by (auto simp: code_at_def)
  have "stmts_effect b ss (nat (depth_of start_gen)) e ([], s) ([], s')" "matches start_gen s"
    using x start_gen by (simp_all add: stmts_effect_def matches_def)
  with doesD [OF r(2) at(1) _ this(2,1)] show ?thesis using at(2) e(2) c(3) by auto
qed

text \<open>
  C1: the compiler and the virtual machine implement the meaning of scripts: when a script compiles
  without errors and its execution ends in a store, the virtual machine, started on the code of the
  script, ends too, with the globals and the printed values of that store and its heap unchanged.
\<close>

theorem compile_correct:
  assumes "wf_stmts ss" "compile ss = Some (Inr f)" "e_code e = fn_code f" "e_constants e = fn_constants f"
    "ip r = 0" "stackEntryIndex r = 0" "length (stack r) = 1"
    "exec e (vm_heap r) 0 ss \<lparr>loc = [], glob = globals r, out = printed r\<rparr> s'"
  shows "\<exists>n r'. run e n r = Finished NIL_VAL r' \<and> globals r' = glob s' \<and> printed r' = out s' \<and> vm_heap r' = vm_heap r"
proof -
  let ?s = "\<lparr>loc = [], glob = globals r, out = printed r\<rparr>"
  have r: "vm_state r 0 [] ?s = r" using assms(5) by (simp add: vm_state_def)
  obtain k where k: "runs e r (vm_state r k [] s')" "code_at e k [op_byte OP_NIL, op_byte OP_RETURN]"
    using compiled_runs [OF assms(1-4) _ assms(8)] assms(6,7) by (auto simp: script_base_def r)
  have at: "code_at e k [op_byte OP_NIL]" "code_at e (Suc k) [op_byte OP_RETURN]" using k(2) by (simp_all add: code_at_simps)
  let ?r' = "vm_state r (Suc (Suc k)) [] s'"
  have "step e (vm_state r (Suc k) [cell NIL_VAL] s') = Finished NIL_VAL ?r'"
    using at(2) by (simp add: step_at execute_def)
  then have "run e (Suc (Suc 0)) (vm_state r k [] s') = Finished NIL_VAL ?r'" using step_simple(1) [OF at(1)] by simp
  moreover obtain n where "\<forall>m. run e (n + m) r = run e m (vm_state r k [] s')" using runs_run [OF k(1)] by blast
  ultimately have "run e (n + Suc (Suc 0)) r = Finished NIL_VAL ?r'" by (simp only:)
  then show ?thesis by (intro exI [of _ "n + Suc (Suc 0)"] exI [of _ ?r']) simp
qed

text \<open>A script with a global variable, a loop and a block, its code and its meaning.\<close>

definition declaration_x :: ObjStmt where
  "declaration_x = StmtVarDeclaration 2 ''x'' [] [ExprLiteral EXPR_LITERAL_TRUE]"

definition loop_x :: ObjStmt where
  "loop_x = StmtWhile 3 [ExprNamedVariable ''x'' []]
     [StmtExpression 4 [ExprNamedVariable ''x'' [ExprLiteral EXPR_LITERAL_FALSE]]]"

definition block_y :: ObjStmt where
  "block_y = StmtBlock 5 [StmtVarDeclaration 6 ''y'' [] [ExprString ''a''], StmtPrint 7 [ExprNamedVariable ''y'' []]]"

definition script :: "ObjStmt list" where
  "script = [declaration_x, loop_x, block_y]"

definition script_gen :: "u8 list \<Rightarrow> (u16 \<times> u16) list \<Rightarrow> Constant list \<Rightarrow> nat \<Rightarrow> gen" where
  "script_gen bytes lines ks l =
     \<lparr>compilers = [\<lparr>function_name = None, chunk = \<lparr>code = bytes, chunk_lines = lines, constants = ks\<rparr>,
        c_type = TYPE_SCRIPT, recent = Some l, errors = [], panicMode = False,
        locals = [\<lparr>l_name = ''this'', l_depth = 0, isCaptured = False\<rparr>], upvalues = [], scopeDepth = 0\<rparr>],
      classes = [], aborted = False\<rparr>"

lemma one_compiler:
  "on_current f \<lparr>compilers = [c], classes = k, aborted = a\<rparr> = \<lparr>compilers = [f c], classes = k, aborted = a\<rparr>"
  "current \<lparr>compilers = [c], classes = k, aborted = a\<rparr> = c"
  by (simp_all add: on_current_def current_def)

lemmas generator_defs = beginStmt_def Let_def initChunk_def emitByte_def writeChunk_def one_compiler emitBytes_def
  emitLoop_comp patchJump_comp emitJump_comp makeConstant_def addConstant_def emitConstant_def resolveVariable_def
  resolveLocal_def errors_at_def own_initializer_def identifierConstant_def declareVariable_def addLocal_def parseVariable_def
  markInitialized_def defineVariable_def beginScope_def endScope_def generateStmtBlock_def generateStmtWhile_def
  generateVarDeclaration_def generateExprNamedVariable_def code_count_def op_byte.simps script_gen_def

lemma generate_declaration_x: "generateStmt declaration_x start_gen = script_gen [1, 58, 2, 62, 11, 9, 0] [(0, 2)] [KString ''x''] 2"
  by (simp add: start_gen_def initCompiler_def generator_defs declaration_x_def)

lemma generate_loop_x:
  "generateStmt loop_x (script_gen [1, 58, 2, 62, 11, 9, 0] [(0, 2)] [KString ''x''] 2) =
   script_gen [1, 58, 2, 62, 11, 9, 0, 8, 0, 35, 0, 9, 4, 3, 62, 10, 0, 4, 36, 0, 14, 4] [(0, 2), (7, 3), (13, 4)] [KString ''x''] 4"
  by (simp add: generator_defs loop_x_def)

lemma generate_block_y:
  "generateStmt block_y (script_gen [1, 58, 2, 62, 11, 9, 0, 8, 0, 35, 0, 9, 4, 3, 62, 10, 0, 4, 36, 0, 14, 4]
     [(0, 2), (7, 3), (13, 4)] [KString ''x''] 4) =
   script_gen [1, 58, 2, 62, 11, 9, 0, 8, 0, 35, 0, 9, 4, 3, 62, 10, 0, 4, 36, 0, 14, 4, 1, 58, 0, 1, 62, 11, 6, 1, 32, 4]
     [(0, 2), (7, 3), (13, 4), (22, 5), (22, 6), (28, 7)] [KString ''x'', KString ''a''] 7"
  by (simp add: generator_defs block_y_def)

definition script_function :: ObjFunction where
  "script_function = ObjFunction None 0 0
     [1, 58, 2, 62, 11, 9, 0, 8, 0, 35, 0, 9, 4, 3, 62, 10, 0, 4, 36, 0, 14, 4, 1, 58, 0, 1, 62, 11, 6, 1, 32, 4, 1, 42]
     [KString ''x'', KString ''a''] [(0, 2), (7, 3), (13, 4), (22, 5), (22, 6), (28, 7)]"

lemma compile_script: "compile script = Some (Inr script_function)"
proof -
  have "generate script start_gen = script_gen [1, 58, 2, 62, 11, 9, 0, 8, 0, 35, 0, 9, 4, 3, 62, 10, 0, 4, 36, 0, 14, 4, 1, 58, 0, 1, 62, 11, 6, 1, 32, 4]
     [(0, 2), (7, 3), (13, 4), (22, 5), (22, 6), (28, 7)] [KString ''x'', KString ''a''] 7"
    by (simp add: script_def generate_declaration_x generate_loop_x generate_block_y)
  then show ?thesis
    by (simp add: compile_def start_gen_def [symmetric] script_function_def script_gen_def one_compiler endCompiler_def emitReturn_def
        emitByte_def writeChunk_def op_byte.simps)
qed

lemma exec_script:
  "exec e h 0 script \<lparr>loc = [], glob = Map.empty, out = []\<rparr>
     \<lparr>loc = [], glob = [''x'' \<mapsto> cell (BOOL_VAL False)], out = [TYPED_VAL (Some (intern e ''a'')) TypeString]\<rparr>"
proof -
  let ?s1 = "\<lparr>loc = [], glob = [''x'' \<mapsto> cell (BOOL_VAL True)], out = []\<rparr>"
  let ?s2 = "\<lparr>loc = [], glob = [''x'' \<mapsto> cell (BOOL_VAL False)], out = []\<rparr>"
  let ?v = "TYPED_VAL (Some (intern e ''a'')) TypeString"
  let ?s3 = "\<lparr>loc = [(''y'', cell ?v)], glob = [''x'' \<mapsto> cell (BOOL_VAL False)], out = []\<rparr>"
  note d = assign_to_def assignToValueCellTarget_def copy_value_def lookup_var_def assign_var_def isFalsey_def declared_type_def defaultValue_def is_struct_def noLongerLiteralInt_def
  have 1: "exec_stmt e h 0 declaration_x \<lparr>loc = [], glob = Map.empty, out = []\<rparr> ?s1"
    unfolding declaration_x_def by (rule exec_Global) (simp add: declare_global_def d)
  have "exec e h 0 [StmtExpression 4 [ExprNamedVariable ''x'' [ExprLiteral EXPR_LITERAL_FALSE]]] ?s1 ?s2"
    by (rule exec_Cons [OF exec_Expression exec_Nil]) (simp add: d)
  note b = this
  have t: "eval e h [ExprNamedVariable ''x'' []] ?s1 = Some (BOOL_VAL True, ?s1)" "\<not> isFalsey (BOOL_VAL True)"
    "eval e h [ExprNamedVariable ''x'' []] ?s2 = Some (BOOL_VAL False, ?s2)" "isFalsey (BOOL_VAL False)" by (simp_all add: d)
  have 2: "exec_stmt e h 0 loop_x ?s1 ?s2"
    unfolding loop_x_def by (rule exec_WhileTrue [OF t(1,2) b exec_WhileFalse [OF t(3,4)]])
  have y: "exec_stmt e h (Suc 0) (StmtVarDeclaration 6 ''y'' [] [ExprString ''a'']) ?s2 ?s3"
    by (rule exec_Local) (simp_all add: declare_local_def d)
  have "eval e h [ExprNamedVariable ''y'' []] ?s3 = Some (?v, ?s3)" by (simp add: d)
  from exec_Print [OF this] have "exec_stmt e h (Suc 0) (StmtPrint 7 [ExprNamedVariable ''y'' []]) ?s3 (?s3\<lparr>out := [?v]\<rparr>)" by simp
  then have "exec e h (Suc 0) [StmtVarDeclaration 6 ''y'' [] [ExprString ''a''], StmtPrint 7 [ExprNamedVariable ''y'' []]] ?s2 (?s3\<lparr>out := [?v]\<rparr>)"
    by (intro exec_Cons [OF y] exec_Cons [OF _ exec_Nil])
  then have "exec_stmt e h 0 block_y ?s2 (?s2\<lparr>out := [?v]\<rparr>)"
    using exec_Block [of e h 0 _ ?s2 "?s3\<lparr>out := [?v]\<rparr>" 5] by (simp add: block_y_def)
  then show ?thesis unfolding script_def using 1 2 exec_Cons exec_Nil by fastforce
qed

definition example_env :: vm_env where
  "example_env = \<lparr>e_code = fn_code script_function, e_constants = fn_constants script_function, platform_of = Bits32,
     fop = (\<lambda>_ _ _. 0), intern = (\<lambda>_. 0), chars_at = (\<lambda>_. []), function_at = (\<lambda>_. 0)\<rparr>"

definition example_routine :: routine where
  "example_routine = \<lparr>ip = 0, stack = [cell NIL_VAL], stackEntryIndex = 0, globals = Map.empty,
     vm_heap = \<lparr>mem = (\<lambda>_. Raw 0), containers = Map.empty\<rparr>, next_addr = 0, printed = []\<rparr>"

theorem compile_correct_witness:
  "wf_stmts script \<and> compile script = Some (Inr script_function) \<and>
   (\<exists>n r. run example_env n example_routine = Finished NIL_VAL r \<and> globals r = [''x'' \<mapsto> cell (BOOL_VAL False)] \<and>
      printed r = [TYPED_VAL (Some 0) TypeString])"
proof -
  have wf: "wf_stmts script" by (simp add: script_def declaration_x_def loop_x_def block_y_def wf_decl_def)
  have "exec example_env (vm_heap example_routine) 0 script \<lparr>loc = [], glob = globals example_routine, out = printed example_routine\<rparr>
     \<lparr>loc = [], glob = [''x'' \<mapsto> cell (BOOL_VAL False)], out = [TYPED_VAL (Some 0) TypeString]\<rparr>"
    using exec_script [of example_env "vm_heap example_routine"] by (simp add: example_env_def example_routine_def)
  from compile_correct [OF wf compile_script _ _ _ _ _ this] show ?thesis
    using wf compile_script by (auto simp: example_env_def example_routine_def)
qed

lemma literal_int_value:
  assumes "\<bar>v\<bar> < 2 ^ 24"
  shows "\<exists>i. literal_int v = INT_VAL i \<and> int_val i = v \<and> i_literal i"
proof -
  define i where "i = int_set_u (of_int \<bar>v\<bar>) (int_init_concrete2\<lparr>i_literal := True\<rparr>)"
  have s: "int_store (int_init_concrete2\<lparr>i_literal := True\<rparr>)" "i_m (int_init_concrete2\<lparr>i_literal := True\<rparr>) = 2"
    using int_init_concrete_ok [of 2] by (simp_all add: int_init_concrete2_def int_ok_def int_store_def)
  have "unat (of_int \<bar>v\<bar> :: u64) = nat \<bar>v\<bar>" using assms by (simp add: unat_eq_nat_uint uint_word_of_int)
  then have "int_val i = \<bar>v\<bar>" using int_set_u_ok [OF s(1), of "of_int \<bar>v\<bar>"] s(2) assms unfolding i_def by simp
  then have "int (int_abs i) = \<bar>v\<bar>" by (simp add: int_val_def split: if_splits)
  then have "int_val (i\<lparr>i_neg := v < 0\<rparr>) = v" by (simp add: int_val_def int_abs_def)
  then show ?thesis by (simp add: literal_int_def i_def)
qed

text \<open>
  C4: a number of up to 24 bits comes back from its code: the instruction that the compiler emits
  for it pushes a literal integer of that value, and goes on behind its operands.
\<close>

theorem immediate_roundtrip:
  assumes "\<bar>v\<bar> < 2 ^ 24" "e_code e = code_of (emitImmediateConstant v g)" "ip r = length (code_of g)"
  shows "\<exists>i. step e r = Running (push (INT_VAL i) (r\<lparr>ip := length (e_code e)\<rparr>)) \<and> int_val i = v \<and> i_literal i"
proof -
  obtain i bs where i: "emitImmediateConstant v g = fold emitByte (op_byte i # bs) g"
    "\<And>e. execute e i = op_push_immediate e (v < 0) (length bs)" "op_immediate (v < 0) bs = Some (literal_int v)"
    using emitImmediateConstant_decodes [OF assms(1)] by metis
  have "e_code e = code_of g @ op_byte i # bs" using assms(2) i(1) by (simp del: fold.simps)
  then have "step e r = Running (push (literal_int v) (r\<lparr>ip := length (e_code e)\<rparr>))"
    using assms(3) i(2,3) by (simp add: step_def read_byte_def nth_append op_push_immediate_def)
  moreover obtain j where "literal_int v = INT_VAL j" "int_val j = v" "i_literal j"
    using literal_int_value [OF assms(1)] by blast
  ultimately show ?thesis by auto
qed

theorem immediate_roundtrip_witness:
  "\<exists>i. step (example_env\<lparr>e_code := code_of (emitImmediateConstant (- 70000) start_gen)\<rparr>) example_routine =
     Running (push (INT_VAL i) (example_routine\<lparr>ip := length (code_of (emitImmediateConstant (- 70000) start_gen))\<rparr>)) \<and>
     int_val i = - 70000 \<and> i_literal i"
  using immediate_roundtrip [of "- 70000" "example_env\<lparr>e_code := code_of (emitImmediateConstant (- 70000) start_gen)\<rparr>" start_gen
      example_routine] start_gen(3) by (simp add: example_routine_def)

end
