(* ===== verification/Spec2Isabelle.thy ===== *)
theory Spec2Isabelle
  imports BigInt_Theorems Scanner_Theorems Packed_Theorems Strings Channel_Theorems VmOps_Theorems Compiler_Theorems
begin

text \<open>
  Verification of the Yarg run-time system.
\<close>

end
